(* ===== verification/Prelude.thy ===== *)
theory Prelude
  imports Main "HOL-Library.State_Monad" "HOL-Library.Word" "HOL-Library.AList" "HOL-Library.Multiset" "HOL-Library.Code_Target_Nat"
begin

text \<open>
  Shared vocabulary of the development: the effect type every operation of the
  operator runs in, the error values of the Go code, the theorem collections the
  component theories feed, and the generic lemmas on lists and association lists
  they share.
\<close>

section \<open>Effects and errors\<close>

text \<open>
  A Go function that talks to the API server, to Prometheus, to Slack or to the clock
  is a state transformer over an abstract world \<open>'w\<close>. The state monad of the library
  threads the world in the order the code makes its calls.
\<close>

type_synonym ('w, 'a) io = "('w, 'a) state"

text \<open>
  Errors are values. \<open>kerr\<close> is what the Kubernetes client returns, told apart the way
  the code tells it apart (\<^verbatim>\<open>apierrors.IsNotFound\<close>, conflict). \<open>Wrapped\<close> is
  \<^verbatim>\<open>fmt.Errorf("...: %w", err)\<close> and \<open>Plain\<close> an error without a cause.
\<close>

datatype kerr = NotFound | Conflict | OtherErr string

datatype error = KubeErr kerr | Plain string | Wrapped string error

type_synonym 'a result = "error + 'a"

definition wrapErr :: "string \<Rightarrow> kerr \<Rightarrow> error" where
  "wrapErr msg e = Wrapped msg (KubeErr e)"

section \<open>Theorem collections\<close>

text \<open>
  \<open>go_simps\<close> holds the unfolding equations of the standard-library layer (strings,
  floats, times), \<open>world_frame\<close> the facts that an operation leaves a part of the
  world alone.
\<close>

named_theorems go_simps
named_theorems world_frame

section \<open>State monad\<close>

text \<open>Where a computation reads its world the same way twice, so does its continuation.\<close>

lemma run_bind_cases:
  assumes "run_state (State_Monad.bind m f) w = (r, w')"
  obtains a w1 where "run_state m w = (a, w1)" and "run_state (f a) w1 = (r, w')"
  using assms by (auto split: prod.splits)

lemma run_bind_eq:
  "run_state m w = (a, w1) \<Longrightarrow>
   run_state (State_Monad.bind m f) w = run_state (f a) w1"
  by simp

text \<open>
  A relation between the world before and after a computation. \<open>keeps R m\<close> is the form
  of every frame condition and of every safety property about what one call may do to
  the cluster. For a preorder \<open>R\<close> it composes along the monad.
\<close>

definition keeps :: "('w \<Rightarrow> 'w \<Rightarrow> bool) \<Rightarrow> ('w, 'a) io \<Rightarrow> bool" where
  "keeps R m \<longleftrightarrow> (\<forall>w. R w (snd (run_state m w)))"

lemma keepsI: "(\<And>w r w'. run_state m w = (r, w') \<Longrightarrow> R w w') \<Longrightarrow> keeps R m"
  unfolding keeps_def by (metis prod.collapse)

lemma keepsD: "keeps R m \<Longrightarrow> run_state m w = (r, w') \<Longrightarrow> R w w'"
  unfolding keeps_def by (metis snd_conv)

lemma keeps_return: "reflp R \<Longrightarrow> keeps R (State_Monad.return a)"
  by (simp add: keeps_def reflpD)

lemma keeps_bind:
  assumes "transp R" and "keeps R m" and "\<And>a. keeps R (f a)"
  shows "keeps R (State_Monad.bind m f)"
proof (rule keepsI)
  fix w r w'
  assume "run_state (State_Monad.bind m f) w = (r, w')"
  then obtain a w1 where "run_state m w = (a, w1)" and "run_state (f a) w1 = (r, w')"
    by (rule run_bind_cases)
  with assms have "R w w1" and "R w1 w'"
    by (blast dest: keepsD)+
  with \<open>transp R\<close> show "R w w'"
    by (rule transpD)
qed

text \<open>A loop that runs an operation on each item and gathers the answers.\<close>

fun forEach :: "('a \<Rightarrow> ('w, 'b) io) \<Rightarrow> 'a list \<Rightarrow> ('w, 'b list) io" where
  "forEach f [] = State_Monad.return []"
| "forEach f (x # xs) = do {
     y \<leftarrow> f x;
     ys \<leftarrow> forEach f xs;
     State_Monad.return (y # ys) }"

lemma forEach_length: "run_state (forEach f xs) w = (ys, w') \<Longrightarrow> length ys = length xs"
  by (induction xs arbitrary: w ys w') (auto split: prod.splits)

lemma keeps_forEach:
  assumes "transp R" and "reflp R" and "\<And>x. keeps R (f x)"
  shows "keeps R (forEach f xs)"
  by (induction xs) (auto intro!: keeps_bind keeps_return assms)

section \<open>Association lists as insertion-ordered maps\<close>

text \<open>
  A Go map is an association list with distinct keys: \<open>map_of\<close> is the lookup and
  \<open>AList.update\<close> the store. The order of the list is never observable on its own,
  since every \<^verbatim>\<open>range\<close> over a map goes through an order the world chooses.
\<close>

definition alookup :: "'v \<Rightarrow> ('k \<times> 'v) list \<Rightarrow> 'k \<Rightarrow> 'v" where
  "alookup z m k = (case map_of m k of None \<Rightarrow> z | Some v \<Rightarrow> v)"

lemma alookup_update:
  "alookup z (AList.update k v m) k' = (if k' = k then v else alookup z m k')"
  by (simp add: alookup_def update_conv')

lemma map_of_update_cases:
  "map_of (AList.update k v m) k' = (if k' = k then Some v else map_of m k')"
  by (simp add: update_conv')

lemma alookup_Some [simp]: "map_of m k = Some v \<Longrightarrow> alookup z m k = v"
  by (simp add: alookup_def)

lemma alookup_None [simp]: "map_of m k = None \<Longrightarrow> alookup z m k = z"
  by (simp add: alookup_def)

lemma map_of_map_snd:
  "map_of (map (\<lambda>(k, v). (k, f k v)) m) k = map_option (f k) (map_of m k)"
  by (induction m) auto

section \<open>Lists\<close>

lemma distinct_map_fst_filter: "distinct (map f xs) \<Longrightarrow> distinct (map f (filter P xs))"
  by (induction xs) auto

lemma set_perm: "mset xs = mset ys \<Longrightarrow> set xs = set ys"
  by (rule mset_eq_setD)

lemma distinct_perm: "mset xs = mset ys \<Longrightarrow> distinct xs = distinct ys"
  by (rule mset_eq_imp_distinct_iff)

end
