(* ===== verification/GoFloat.thy ===== *)
theory GoFloat
  imports Prelude "HOL-Library.Log_Nat"
begin

text \<open>
  Go's \<^verbatim>\<open>float64\<close>: IEEE 754 binary64 with round-to-nearest-even, signed zero,
  infinities and NaN. A finite non-zero value is the rational it denotes; every
  arithmetic operation is the exact rational result rounded once by \<open>f64_of\<close>. The
  comparison operators are false on NaN, as in Go.
\<close>

section \<open>Rounding to an integer, ties to even\<close>

definition rhe_at :: "int \<Rightarrow> rat \<Rightarrow> int" where
  "rhe_at f d =
     (if d < 1/2 then f else if 1/2 < d then f + 1 else if even f then f else f + 1)"

definition rhe :: "rat \<Rightarrow> int" where
  "rhe x = rhe_at \<lfloor>x\<rfloor> (x - of_int \<lfloor>x\<rfloor>)"

lemma rhe_ge_floor: "\<lfloor>x\<rfloor> \<le> rhe x"
  by (simp add: rhe_def rhe_at_def)

lemma rhe_le_floor: "rhe x \<le> \<lfloor>x\<rfloor> + 1"
  by (simp add: rhe_def rhe_at_def)

lemma rhe_mono: "x \<le> y \<Longrightarrow> rhe x \<le> rhe y"
proof (cases "\<lfloor>x\<rfloor> = \<lfloor>y\<rfloor>")
  case True
  assume "x \<le> y"
  with True show ?thesis by (simp add: rhe_def rhe_at_def)
next
  case False
  assume "x \<le> y"
  then have "\<lfloor>x\<rfloor> \<le> \<lfloor>y\<rfloor>" by (rule floor_mono)
  with False have "\<lfloor>x\<rfloor> + 1 \<le> \<lfloor>y\<rfloor>" by simp
  then show ?thesis
    using rhe_le_floor [of x] rhe_ge_floor [of y] by linarith
qed

lemma rhe_of_int [simp]: "rhe (of_int n) = n"
  by (simp add: rhe_def rhe_at_def)

lemma rhe_zero [simp]: "rhe 0 = 0"
  using rhe_of_int [of 0] by simp

lemma rhe_error: "\<bar>of_int (rhe x) - x\<bar> \<le> 1/2"
proof -
  have "of_int \<lfloor>x\<rfloor> \<le> x" and "x < of_int \<lfloor>x\<rfloor> + 1"
    by linarith+
  then show ?thesis
    unfolding rhe_def rhe_at_def abs_if not_less by (simp, linarith)
qed

lemma rhe_nonneg: "0 \<le> x \<Longrightarrow> 0 \<le> rhe x"
  using rhe_mono [of 0 x] by simp

lemma rhe_le_of_int: "x \<le> of_int n \<Longrightarrow> rhe x \<le> n"
  using rhe_mono [of x "of_int n"] by simp

lemma rhe_ge_of_int: "of_int n \<le> x \<Longrightarrow> n \<le> rhe x"
  using rhe_mono [of "of_int n" x] by simp

lemma rhe_close: "\<bar>x - of_int n\<bar> < 1/2 \<Longrightarrow> rhe x = n"
proof -
  assume "\<bar>x - of_int n\<bar> < 1/2"
  with rhe_error [of x] have "\<bar>of_int (rhe x) - of_int n :: rat\<bar> < 1"
    by linarith
  then have "\<bar>of_int (rhe x - n) :: rat\<bar> < 1" by simp
  then show ?thesis by linarith
qed

section \<open>Binary exponents\<close>

text \<open>\<open>pow2 e\<close> is \<open>2\<close> to the (possibly negative) power \<open>e\<close>.\<close>

definition pow2 :: "int \<Rightarrow> rat" where
  "pow2 e = (if 0 \<le> e then 2 ^ nat e else 1 / 2 ^ nat (- e))"

lemma pow2_powi: "pow2 e = 2 powi e"
  by (simp add: pow2_def power_int_def field_simps)

lemma pow2_pos [simp]: "0 < pow2 e"
  by (simp add: pow2_def)

lemma pow2_nonneg [simp]: "0 \<le> pow2 e"
  using pow2_pos [of e] by linarith

lemma pow2_nonzero [simp]: "pow2 e \<noteq> 0"
  using pow2_pos [of e] by linarith

lemma pow2_not_le_0 [simp]: "\<not> pow2 e \<le> 0"
  by (simp add: not_le)

lemma pow2_add: "pow2 (a + b) = pow2 a * pow2 b"
  by (simp add: pow2_powi power_int_add)

lemma pow2_diff: "pow2 (a - b) = pow2 a / pow2 b"
  by (simp add: pow2_powi power_int_diff)

lemma pow2_mono: "a \<le> b \<Longrightarrow> pow2 a \<le> pow2 b"
  by (simp add: pow2_powi power_int_increasing)

lemma pow2_strict_mono: "a < b \<Longrightarrow> pow2 a < pow2 b"
  by (simp add: pow2_powi power_int_strict_increasing)

lemma pow2_le_iff: "pow2 a \<le> pow2 b \<longleftrightarrow> a \<le> b"
  by (metis linorder_not_less pow2_mono pow2_strict_mono)

lemma pow2_less_iff: "pow2 a < pow2 b \<longleftrightarrow> a < b"
  by (metis linorder_not_less pow2_mono pow2_strict_mono)

lemma pow2_code [code]:
  "pow2 e = (if 0 \<le> e then of_int (2 ^ nat e) else 1 / of_int (2 ^ nat (- e)))"
  by (simp add: pow2_def)

lemma pow2_of_nat: "pow2 (int n) = of_int (2 ^ n)"
  by (simp add: pow2_def)

text \<open>
  The bit length of a positive integer, evaluated along its binary numeral, so that it is
  stuck on a variable.
\<close>

definition ibits :: "int \<Rightarrow> int" where
  "ibits n = bitlen n"

primrec num_bits :: "num \<Rightarrow> int" where
  "num_bits num.One = 1"
| "num_bits (num.Bit0 n) = num_bits n + 1"
| "num_bits (num.Bit1 n) = num_bits n + 1"

lemma bitlen_half:
  assumes "0 < n"
  shows "bitlen n = bitlen (n div 2) + 1"
proof -
  have "floorlog 2 (nat n) = floorlog 2 (nat n div 2) + 1"
    using assms compute_floorlog [of 2 "nat n"] by simp
  then show ?thesis
    using assms by (simp add: bitlen_def nat_div_distrib)
qed

lemma bitlen_step:
  assumes "0 < n"
  shows "bitlen (2 * n) = bitlen n + 1" and "bitlen (2 * n + 1) = bitlen n + 1"
  using bitlen_half [of "2 * n"] bitlen_half [of "2 * n + 1"] assms by simp_all

lemma ibits_num: "ibits (numeral n) = num_bits n"
proof (induction n)
  case One
  then show ?case by (simp add: ibits_def bitlen_alt_def)
next
  case (Bit0 n)
  have "(numeral (num.Bit0 n) :: int) = 2 * numeral n"
    by simp
  with Bit0 bitlen_step(1) [of "numeral n"] show ?case
    by (simp only: ibits_def zero_less_numeral num_bits.simps)
next
  case (Bit1 n)
  have "(numeral (num.Bit1 n) :: int) = 2 * numeral n + 1"
    by simp
  with Bit1 bitlen_step(2) [of "numeral n"] show ?case
    by (simp only: ibits_def zero_less_numeral num_bits.simps)
qed

lemma ibits_code [code]:
  "ibits 0 = 0" "ibits (Int.Pos n) = num_bits n" "ibits (Int.Neg n) = 0"
  by (simp_all add: ibits_num) (simp_all add: ibits_def bitlen_alt_def)

text \<open>\<open>flog2 x\<close> is the binary exponent of a positive rational: \<open>2^e \<le> x < 2^(e+1)\<close>.\<close>

definition exp_fix :: "int \<Rightarrow> rat \<Rightarrow> int" where
  "exp_fix k x = (if pow2 k \<le> x then k else k - 1)"

definition flog2 :: "rat \<Rightarrow> int" where
  "flog2 x = exp_fix (ibits (fst (quotient_of x)) - ibits (snd (quotient_of x))) x"

lemma bitlen_pow2_bounds:
  assumes "0 < p"
  shows "pow2 (bitlen p - 1) \<le> of_int p" and "of_int p < pow2 (bitlen p)"
proof -
  from assms have "0 < bitlen p"
    by (simp add: bitlen_alt_def)
  moreover have "2 ^ nat (bitlen p - 1) \<le> p \<and> p < 2 ^ nat (bitlen p)"
    using assms by (rule bitlen_bounds)
  ultimately show "pow2 (bitlen p - 1) \<le> of_int p" and "of_int p < pow2 (bitlen p)"
    using of_int_le_iff [of "2 ^ nat (bitlen p - 1)" p, where ?'a = rat]
      of_int_less_iff [of p "2 ^ nat (bitlen p)", where ?'a = rat]
    by (simp_all add: pow2_def)
qed

lemma flog2_bounds:
  assumes "0 < x"
  shows "pow2 (flog2 x) \<le> x" and "x < pow2 (flog2 x + 1)"
proof -
  obtain p q where pq: "quotient_of x = (p, q)" by (cases "quotient_of x")
  then have x: "x = of_int p / of_int q" and q: "0 < q"
    by (auto dest: quotient_of_div quotient_of_denom_pos)
  with assms have p: "0 < p" by (simp add: zero_less_divide_iff)
  let ?k = "bitlen p - bitlen q"
  note bp = bitlen_pow2_bounds [OF p] and bq = bitlen_pow2_bounds [OF q]
  have "pow2 (?k - 1) = pow2 (bitlen p - 1) / pow2 (bitlen q)"
    by (simp add: algebra_simps flip: pow2_diff)
  also have "\<dots> \<le> x"
    unfolding x using bp bq p q by (intro frac_le) auto
  finally have lo: "pow2 (?k - 1) \<le> x" .
  have "x < pow2 (bitlen p) / pow2 (bitlen q - 1)"
    unfolding x using bp bq p q by (intro frac_less) auto
  also have "\<dots> = pow2 (?k + 1)"
    by (simp add: algebra_simps flip: pow2_diff)
  finally have hi: "x < pow2 (?k + 1)" .
  show "pow2 (flog2 x) \<le> x" and "x < pow2 (flog2 x + 1)"
    using lo hi by (auto simp: flog2_def exp_fix_def ibits_def pq not_le)
qed

lemma flog2_mono: "0 < x \<Longrightarrow> x \<le> y \<Longrightarrow> flog2 x \<le> flog2 y"
proof -
  assume "0 < x" and "x \<le> y"
  then have "pow2 (flog2 x) < pow2 (flog2 y + 1)"
    using flog2_bounds(1) [of x] flog2_bounds(2) [of y] by linarith
  then show ?thesis by (simp add: pow2_less_iff)
qed

section \<open>Rounding to 53 significant bits\<close>

text \<open>
  The unit in the last place of a positive rational: the exponent of its leading bit
  minus 52, but never below the subnormal exponent -1074.
\<close>

definition ulp_exp :: "rat \<Rightarrow> int" where
  "ulp_exp x = max (flog2 x - 52) (- 1074)"

definition rnd_at :: "rat \<Rightarrow> rat \<Rightarrow> rat" where
  "rnd_at u x = of_int (rhe (x / u)) * u"

definition rnd :: "rat \<Rightarrow> rat" where
  "rnd x = rnd_at (pow2 (ulp_exp x)) x"

lemma ulp_exp_mono: "0 < x \<Longrightarrow> x \<le> y \<Longrightarrow> ulp_exp x \<le> ulp_exp y"
  using flog2_mono [of x y] by (simp add: ulp_exp_def)

lemma rnd_nonneg: "0 \<le> x \<Longrightarrow> 0 \<le> rnd x"
  by (simp add: rnd_def rnd_at_def rhe_nonneg)

lemma rnd_error: "\<bar>rnd x - x\<bar> \<le> pow2 (ulp_exp x) / 2"
proof -
  let ?u = "pow2 (ulp_exp x)"
  have "rnd x - x = (of_int (rhe (x / ?u)) - x / ?u) * ?u"
    by (simp add: rnd_def rnd_at_def left_diff_distrib)
  then have "\<bar>rnd x - x\<bar> = \<bar>of_int (rhe (x / ?u)) - x / ?u\<bar> * ?u"
    by (simp add: abs_mult)
  also have "\<dots> \<le> 1/2 * ?u"
    using rhe_error [of "x / ?u"] by (intro mult_right_mono) auto
  finally show ?thesis by simp
qed

text \<open>
  Rounding never crosses the next power of two: a significand below \<open>2^53\<close> rounds to at
  most \<open>2^53\<close>.
\<close>

lemma rnd_le_pow2:
  assumes "0 < x" and "x \<le> pow2 k" and "ulp_exp x \<le> k"
  shows "rnd x \<le> pow2 k"
proof -
  let ?e = "ulp_exp x"
  have "x / pow2 ?e \<le> pow2 (k - ?e)"
    using assms(2) by (simp add: pow2_diff divide_right_mono)
  also have "pow2 (k - ?e) = of_int (2 ^ nat (k - ?e))"
    using assms(3) by (simp add: pow2_def)
  finally have "rhe (x / pow2 ?e) \<le> 2 ^ nat (k - ?e)"
    by (rule rhe_le_of_int)
  then have "of_int (rhe (x / pow2 ?e)) \<le> pow2 (k - ?e)"
    using assms(3) of_int_le_iff [of "rhe (x / pow2 ?e)" "2 ^ nat (k - ?e)", where ?'a = rat]
    by (simp add: pow2_def)
  then have "rnd x \<le> pow2 (k - ?e) * pow2 ?e"
    unfolding rnd_def rnd_at_def by (rule mult_right_mono) simp
  then show ?thesis by (simp add: pow2_diff)
qed

lemma rnd_ge_pow2:
  assumes "pow2 k \<le> x" and "ulp_exp x \<le> k"
  shows "pow2 k \<le> rnd x"
proof -
  let ?e = "ulp_exp x"
  have "of_int (2 ^ nat (k - ?e)) = pow2 (k - ?e)"
    using assms(2) by (simp add: pow2_def)
  also have "\<dots> \<le> x / pow2 ?e"
    using assms(1) by (simp add: pow2_diff divide_right_mono)
  finally have "2 ^ nat (k - ?e) \<le> rhe (x / pow2 ?e)"
    by (rule rhe_ge_of_int)
  then have "pow2 (k - ?e) \<le> of_int (rhe (x / pow2 ?e))"
    using assms(2) of_int_le_iff [of "2 ^ nat (k - ?e)" "rhe (x / pow2 ?e)", where ?'a = rat]
    by (simp add: pow2_def)
  then have "pow2 (k - ?e) * pow2 ?e \<le> rnd x"
    unfolding rnd_def rnd_at_def by (rule mult_right_mono) simp
  then show ?thesis by (simp add: pow2_diff)
qed

lemma rnd_mono:
  assumes "0 < x" and "x \<le> y"
  shows "rnd x \<le> rnd y"
proof (cases "ulp_exp x = ulp_exp y")
  case True
  have "rhe (x / pow2 (ulp_exp y)) \<le> rhe (y / pow2 (ulp_exp y))"
    using assms by (intro rhe_mono divide_right_mono) auto
  then show ?thesis
    by (simp add: rnd_def rnd_at_def True mult_right_mono)
next
  case False
  with ulp_exp_mono [OF assms] have lt: "ulp_exp x < ulp_exp y" by simp
  then have ey: "ulp_exp y = flog2 y - 52"
    by (simp add: ulp_exp_def max_def split: if_splits)
  have "flog2 x + 1 \<le> flog2 y"
    using lt by (simp add: ulp_exp_def max_def split: if_splits)
  then have "pow2 (flog2 x + 1) \<le> pow2 (flog2 y)"
    by (rule pow2_mono)
  then have x: "x \<le> pow2 (flog2 y)"
    using flog2_bounds(2) [OF assms(1)] by linarith
  have "rnd x \<le> pow2 (flog2 y)"
    using x lt ey by (intro rnd_le_pow2 assms) auto
  also have "\<dots> \<le> rnd y"
    using assms ey by (intro rnd_ge_pow2 flog2_bounds) auto
  finally show ?thesis .
qed

text \<open>A value with at most 53 significant bits is its own rounding.\<close>

lemma rnd_exact:
  assumes "0 < m" and "m \<le> 2 ^ 53" and "- 1074 \<le> k" and x: "x = of_int m * pow2 k"
  shows "rnd x = x"
proof -
  let ?e = "ulp_exp x"
  have xpos: "0 < x" using assms by simp
  have "\<exists>n. x / pow2 ?e = of_int n"
  proof (cases "?e \<le> k")
    case True
    have "x / pow2 ?e = of_int m * pow2 (k - ?e)"
      by (simp add: x pow2_diff)
    also have "\<dots> = of_int (m * 2 ^ nat (k - ?e))"
      using True by (simp add: pow2_def)
    finally show ?thesis by blast
  next
    case False
    with assms(3) have e: "?e = flog2 x - 52"
      by (auto simp: ulp_exp_def max_def split: if_splits)
    with False have "k + 53 \<le> flog2 x" by simp
    then have "pow2 (k + 53) \<le> x"
      using flog2_bounds(1) [OF xpos] pow2_mono by (blast intro: order_trans)
    then have "pow2 53 \<le> of_int m"
      by (simp add: x pow2_add)
    with assms(2) have m: "m = 2 ^ 53"
      by (simp add: pow2_def)
    then have "x = pow2 (k + 53)"
      by (simp add: x pow2_add pow2_def [of 53])
    with flog2_bounds [OF xpos] have "flog2 x = k + 53"
      by (simp add: pow2_le_iff pow2_less_iff)
    with e have "x / pow2 ?e = pow2 52"
      using \<open>x = pow2 (k + 53)\<close> by (simp flip: pow2_diff)
    also have "\<dots> = of_int (2 ^ 52)" by (simp add: pow2_def)
    finally show ?thesis by blast
  qed
  then obtain n where n: "x / pow2 ?e = of_int n" by blast
  then have "rnd x = of_int n * pow2 ?e" by (simp add: rnd_def rnd_at_def)
  also have "\<dots> = x" by (simp flip: n)
  finally show ?thesis .
qed

lemma rnd_of_int: "0 < n \<Longrightarrow> n \<le> 2 ^ 53 \<Longrightarrow> rnd (of_int n) = of_int n"
  by (rule rnd_exact [of n 0]) (simp_all add: pow2_def)

lemma rnd_rnd:
  assumes "0 < x"
  shows "rnd (rnd x) = rnd x"
proof (cases "rhe (x / pow2 (ulp_exp x)) = 0")
  case True
  then show ?thesis by (simp add: rnd_def rnd_at_def)
next
  case False
  let ?e = "ulp_exp x" and ?m = "rhe (x / pow2 (ulp_exp x))"
  have "0 \<le> ?m" using assms by (intro rhe_nonneg) simp
  with False have "0 < ?m" by simp
  moreover have "x / pow2 ?e \<le> of_int (2 ^ 53)"
  proof -
    have "pow2 (flog2 x + 1) \<le> pow2 (?e + 53)"
      by (rule pow2_mono) (simp add: ulp_exp_def)
    with flog2_bounds(2) [OF assms] have "x \<le> pow2 53 * pow2 ?e"
      by (simp add: pow2_add mult.commute)
    then show ?thesis by (simp add: pos_divide_le_eq pow2_def [of 53])
  qed
  then have "?m \<le> 2 ^ 53" by (rule rhe_le_of_int)
  ultimately show ?thesis
    by (intro rnd_exact [of ?m ?e]) (simp_all add: rnd_def rnd_at_def ulp_exp_def)
qed

section \<open>The values and the operators\<close>

datatype f64 = NaN | PInf | NInf | NZero | Fin rat

fun isNaN :: "f64 \<Rightarrow> bool" where
  "isNaN NaN = True"
| "isNaN _ = False"

fun isInf :: "f64 \<Rightarrow> bool" where
  "isInf PInf = True"
| "isInf NInf = True"
| "isInf _ = False"

fun isZeroF :: "f64 \<Rightarrow> bool" where
  "isZeroF NZero = True"
| "isZeroF (Fin r) = (r = 0)"
| "isZeroF _ = False"

text \<open>The sign bit (\<^verbatim>\<open>math.Signbit\<close>; NaN is given a clear one).\<close>

fun signbit :: "f64 \<Rightarrow> bool" where
  "signbit NInf = True"
| "signbit NZero = True"
| "signbit (Fin r) = (r < 0)"
| "signbit _ = False"

fun fval :: "f64 \<Rightarrow> rat" where
  "fval (Fin r) = r"
| "fval _ = 0"

definition f64_pack :: "bool \<Rightarrow> rat \<Rightarrow> f64" where
  "f64_pack pos v =
    (if v = 0 then (if pos then Fin 0 else NZero)
     else if 1024 \<le> flog2 v then (if pos then PInf else NInf)
     else Fin (if pos then v else - v))"

definition f64_of :: "rat \<Rightarrow> f64" where
  "f64_of r = (if r = 0 then Fin 0 else f64_pack (0 < r) (rnd \<bar>r\<bar>))"

definition infS :: "bool \<Rightarrow> f64" where
  "infS s = (if s then NInf else PInf)"

definition zeroS :: "bool \<Rightarrow> f64" where
  "zeroS s = (if s then NZero else Fin 0)"

instantiation f64 :: "{zero, plus, times, divide, inverse, ord}"
begin

definition zero_f64 :: f64 where
  "zero_f64 = Fin 0"

definition plus_f64 :: "f64 \<Rightarrow> f64 \<Rightarrow> f64" where
  "plus_f64 x y =
    (if isNaN x \<or> isNaN y then NaN
     else if isInf x then (if isInf y \<and> x \<noteq> y then NaN else x)
     else if isInf y then y
     else if x = NZero \<and> y = NZero then NZero
     else f64_of (fval x + fval y))"

definition times_f64 :: "f64 \<Rightarrow> f64 \<Rightarrow> f64" where
  "times_f64 x y =
    (if isNaN x \<or> isNaN y then NaN
     else if isInf x \<or> isInf y then
       (if isZeroF x \<or> isZeroF y then NaN else infS (signbit x \<noteq> signbit y))
     else if isZeroF x \<or> isZeroF y then zeroS (signbit x \<noteq> signbit y)
     else f64_of (fval x * fval y))"

definition divide_f64 :: "f64 \<Rightarrow> f64 \<Rightarrow> f64" where
  "divide_f64 x y =
    (if isNaN x \<or> isNaN y then NaN
     else if isInf x then (if isInf y then NaN else infS (signbit x \<noteq> signbit y))
     else if isInf y then zeroS (signbit x \<noteq> signbit y)
     else if isZeroF y then
       (if isZeroF x then NaN else infS (signbit x \<noteq> signbit y))
     else if isZeroF x then zeroS (signbit x \<noteq> signbit y)
     else f64_of (fval x / fval y))"

definition inverse_f64 :: "f64 \<Rightarrow> f64" where
  "inverse_f64 x = divide (Fin 1) x"

fun less_eq_f64 :: "f64 \<Rightarrow> f64 \<Rightarrow> bool" where
  "less_eq_f64 NaN _ = False"
| "less_eq_f64 _ NaN = False"
| "less_eq_f64 NInf _ = True"
| "less_eq_f64 _ PInf = True"
| "less_eq_f64 PInf _ = False"
| "less_eq_f64 _ NInf = False"
| "less_eq_f64 x y = (fval x \<le> fval y)"

definition less_f64 :: "f64 \<Rightarrow> f64 \<Rightarrow> bool" where
  "less_f64 x y = (\<not> isNaN x \<and> \<not> isNaN y \<and> \<not> y \<le> x)"

instance ..

end

text \<open>\<^verbatim>\<open>float64(n)\<close> for an integer \<open>n\<close>, and \<^verbatim>\<open>math.Max\<close> with its special cases.\<close>

definition i2f :: "int \<Rightarrow> f64" where
  "i2f n = f64_of (of_int n)"

definition fmax :: "f64 \<Rightarrow> f64 \<Rightarrow> f64" where
  "fmax x y =
    (if x = PInf \<or> y = PInf then PInf
     else if isNaN x \<or> isNaN y then NaN
     else if isZeroF x \<and> isZeroF y then (if signbit x then y else x)
     else if y < x then x else y)"

text \<open>
  \<^verbatim>\<open>int(x)\<close> and \<^verbatim>\<open>int64(x)\<close>: truncation towards zero where the result fits 64 bits. The
  language leaves every other case to the implementation: the parameter \<open>impl\<close>.
\<close>

definition rtrunc :: "rat \<Rightarrow> int" where
  "rtrunc r = (if 0 \<le> r then \<lfloor>r\<rfloor> else \<lceil>r\<rceil>)"

definition fits64 :: "int \<Rightarrow> bool" where
  "fits64 n \<longleftrightarrow> - (2 ^ 63) \<le> n \<and> n < 2 ^ 63"

definition f2i :: "(f64 \<Rightarrow> 64 word) \<Rightarrow> f64 \<Rightarrow> 64 word" where
  "f2i impl x =
    (if isNaN x \<or> isInf x \<or> \<not> fits64 (rtrunc (fval x)) then impl x
     else word_of_int (rtrunc (fval x)))"

section \<open>Order\<close>

lemma Fin_le [simp]: "Fin a \<le> Fin b \<longleftrightarrow> a \<le> b"
  by simp

lemma Fin_less [simp]: "Fin a < Fin b \<longleftrightarrow> a < b"
  by (auto simp: less_f64_def)

lemma isNaN_iff [simp]: "isNaN x \<longleftrightarrow> x = NaN"
  by (cases x) auto

lemma isInf_iff: "isInf x \<longleftrightarrow> x = PInf \<or> x = NInf"
  by (cases x) auto

lemma isZeroF_iff: "isZeroF x \<longleftrightarrow> x = NZero \<or> x = Fin 0"
  by (cases x) auto

lemma NaN_le [simp]: "\<not> NaN \<le> x" "\<not> x \<le> NaN"
  by (cases x; simp)+

lemma NaN_less [simp]: "\<not> NaN < x" "\<not> x < NaN"
  by (simp_all add: less_f64_def)

lemma fle_refl: "x \<noteq> NaN \<Longrightarrow> x \<le> (x :: f64)"
  by (cases x) auto

lemma fle_trans [trans]: "x \<le> y \<Longrightarrow> y \<le> z \<Longrightarrow> x \<le> (z :: f64)"
  by (cases x; cases y; cases z) auto

lemma fle_total: "x \<noteq> NaN \<Longrightarrow> y \<noteq> NaN \<Longrightarrow> x \<le> y \<or> y \<le> (x :: f64)"
  by (cases x; cases y) auto

lemma fle_notNaN: "x \<le> y \<Longrightarrow> x \<noteq> NaN \<and> y \<noteq> NaN"
  by auto

lemma fless_le: "x < y \<Longrightarrow> x \<le> (y :: f64)"
  using fle_total [of x y] by (auto simp: less_f64_def)

lemma fnot_le: "x \<noteq> NaN \<Longrightarrow> y \<noteq> NaN \<Longrightarrow> \<not> x \<le> y \<longleftrightarrow> y < (x :: f64)"
  by (simp add: less_f64_def)

lemma fle_less_trans [trans]: "x \<le> y \<Longrightarrow> y < z \<Longrightarrow> x < (z :: f64)"
  unfolding less_f64_def by (auto dest: fle_trans)

lemma fless_le_trans [trans]: "x < y \<Longrightarrow> y \<le> z \<Longrightarrow> x < (z :: f64)"
  unfolding less_f64_def by (auto dest: fle_trans)

section \<open>Rounding as a function into the floats\<close>

lemma overflow_iff: "0 < v \<Longrightarrow> 1024 \<le> flog2 v \<longleftrightarrow> pow2 1024 \<le> v"
proof -
  assume v: "0 < v"
  show ?thesis
  proof
    assume "1024 \<le> flog2 v"
    then show "pow2 1024 \<le> v"
      using flog2_bounds(1) [OF v] pow2_mono by (blast intro: order_trans)
  next
    assume "pow2 1024 \<le> v"
    then have "pow2 1024 < pow2 (flog2 v + 1)"
      using flog2_bounds(2) [OF v] by linarith
    then show "1024 \<le> flog2 v" by (simp add: pow2_less_iff)
  qed
qed

lemma f64_pack_eq: "0 \<le> v \<Longrightarrow> f64_pack pos v =
    (if pow2 1024 \<le> v then (if pos then PInf else NInf)
     else if v = 0 then (if pos then Fin 0 else NZero)
     else Fin (if pos then v else - v))"
  using overflow_iff [of v] pow2_pos [of 1024] by (auto simp: f64_pack_def)

lemma f64_of_eq: "f64_of r = (if r = 0 then Fin 0
    else if pow2 1024 \<le> rnd \<bar>r\<bar> then (if 0 < r then PInf else NInf)
    else if rnd \<bar>r\<bar> = 0 then (if 0 < r then Fin 0 else NZero)
    else Fin (if 0 < r then rnd \<bar>r\<bar> else - rnd \<bar>r\<bar>))"
  by (simp add: f64_of_def f64_pack_eq rnd_nonneg)

lemma f64_of_notNaN [simp]: "f64_of r \<noteq> NaN"
  by (simp add: f64_of_eq)

lemma f64_of_0 [simp]: "f64_of 0 = Fin 0"
  by (simp add: f64_of_eq)

lemma f64_of_pos_cases:
  assumes "0 < r"
  shows "f64_of r = (if pow2 1024 \<le> rnd r then PInf else Fin (rnd r))"
  using assms by (simp add: f64_of_eq)

lemma f64_of_neg_cases:
  assumes "r < 0"
  shows "f64_of r = (if pow2 1024 \<le> rnd (- r) then NInf
                     else if rnd (- r) = 0 then NZero else Fin (- rnd (- r)))"
  using assms by (simp add: f64_of_eq)

lemma f64_of_nonneg: "0 \<le> r \<Longrightarrow> Fin 0 \<le> f64_of r"
  by (cases "r = 0") (auto simp: f64_of_pos_cases rnd_nonneg)

lemma f64_of_nonpos: "r \<le> 0 \<Longrightarrow> f64_of r \<le> Fin 0"
  by (cases "r = 0") (auto simp: f64_of_neg_cases rnd_nonneg)

lemma f64_of_mono:
  assumes "r \<le> s"
  shows "f64_of r \<le> f64_of s"
proof -
  consider "0 < r" | "s < 0" | "r \<le> 0" "0 \<le> s" by linarith
  then show ?thesis
  proof cases
    case 1
    with assms rnd_mono [of r s] show ?thesis
      by (auto simp: f64_of_pos_cases)
  next
    case 2
    have "0 \<le> rnd (- r)" "0 \<le> rnd (- s)"
      using 2 assms by (auto intro: rnd_nonneg)
    with 2 assms rnd_mono [of "- s" "- r"] show ?thesis
      by (auto simp: f64_of_neg_cases)
  next
    case 3
    then show ?thesis
      using f64_of_nonneg [of s] f64_of_nonpos [of r] by (blast intro: fle_trans)
  qed
qed

text \<open>\<open>fok x\<close>: \<open>x\<close> is a value of the type, so a finite \<open>x\<close> is representable.\<close>

definition fok :: "f64 \<Rightarrow> bool" where
  "fok x = (case x of Fin r \<Rightarrow> f64_of r = Fin r | _ \<Rightarrow> True)"

lemma fok_Fin: "fok (Fin r) \<longleftrightarrow> f64_of r = Fin r"
  by (simp add: fok_def)

lemma fok_f64_of [simp]: "fok (f64_of r)"
proof -
  have pos: "f64_of (rnd x) = Fin (rnd x)" if "0 < x" "\<not> pow2 1024 \<le> rnd x" for x
    using that rnd_nonneg [of x]
    by (cases "rnd x = 0") (auto simp: f64_of_pos_cases rnd_rnd)
  have neg: "f64_of (- rnd x) = Fin (- rnd x)"
    if "0 < x" "\<not> pow2 1024 \<le> rnd x" "rnd x \<noteq> 0" for x
    using that rnd_nonneg [of x]
    by (auto simp: f64_of_neg_cases rnd_rnd)
  consider "0 < r" | "r = 0" | "r < 0" by linarith
  then show ?thesis
    by cases (auto simp: f64_of_pos_cases f64_of_neg_cases fok_def pos neg)
qed

lemma fok_consts [simp]: "fok NaN" "fok PInf" "fok NInf" "fok NZero" "fok (Fin 0)"
  by (simp_all add: fok_def)

lemma fok_zeroS [simp]: "fok (zeroS b)" and fok_infS [simp]: "fok (infS b)"
  by (simp_all add: zeroS_def infS_def)

lemma fok_plus: "fok x \<Longrightarrow> fok y \<Longrightarrow> fok (x + y)"
  by (simp add: plus_f64_def)

lemma fok_times: "fok (x * y)" and fok_divide: "fok (x / y)"
  by (simp_all add: times_f64_def divide_f64_def)

lemma i2f_exact: "\<bar>n\<bar> \<le> 2 ^ 53 \<Longrightarrow> i2f n = Fin (of_int n)"
proof -
  have big: "\<not> pow2 1024 \<le> of_int m" if "m \<le> 2 ^ 53" for m
  proof -
    from that have "of_int m \<le> pow2 53"
      using of_int_le_iff [of m "2 ^ 53", where ?'a = rat] by (simp add: pow2_def)
    also have "\<dots> < pow2 1024" by (rule pow2_strict_mono) simp
    finally show ?thesis by simp
  qed
  assume n: "\<bar>n\<bar> \<le> 2 ^ 53"
  consider "0 < n" | "n = 0" | "n < 0" by linarith
  then show ?thesis
  proof cases
    case 1
    with n rnd_of_int [of n] big [of n] show ?thesis
      by (simp add: i2f_def f64_of_pos_cases)
  next
    case 2
    then show ?thesis by (simp add: i2f_def)
  next
    case 3
    with n rnd_of_int [of "- n"] big [of "- n"] show ?thesis
      by (simp add: i2f_def f64_of_neg_cases)
  qed
qed

section \<open>Signs and monotonicity of the operators\<close>

lemma NaN_plus [simp]: "NaN + x = NaN" "x + NaN = NaN"
  by (simp_all add: plus_f64_def)

lemma NaN_times [simp]: "NaN * x = NaN" "x * NaN = NaN"
  by (simp_all add: times_f64_def)

lemma NaN_divide [simp]: "NaN / x = NaN" "x / NaN = NaN"
  by (simp_all add: divide_f64_def)

lemma plus_finite: "Fin a + Fin b = f64_of (a + b)"
  by (simp add: plus_f64_def)

lemma plus_NZero_right: "fok x \<Longrightarrow> x + NZero = x"
  by (cases x) (simp_all add: plus_f64_def fok_Fin)

lemma plus_PInf_right: "Fin 0 \<le> x \<Longrightarrow> x + PInf = PInf"
  by (cases x) (simp_all add: plus_f64_def)

lemma plus_PInf_left: "Fin 0 \<le> y \<Longrightarrow> PInf + y = PInf"
  by (cases y) (simp_all add: plus_f64_def)

lemma plus_NZero_left: "fok y \<Longrightarrow> NZero + y = y"
  by (cases y) (simp_all add: plus_f64_def fok_Fin)

lemma le_PInf [simp]: "x \<noteq> NaN \<Longrightarrow> x \<le> PInf"
  by (cases x) simp_all

lemma plus_ge_left:
  assumes "fok x" and "Fin 0 \<le> x" and y: "fok y" "Fin 0 \<le> y"
  shows "x \<le> x + y"
proof (cases y)
  case PInf
  with assms show ?thesis by (cases x) (simp_all add: plus_PInf_right)
next
  case NZero
  with assms show ?thesis by (auto simp: plus_NZero_right intro: fle_refl)
next
  case b: (Fin b)
  show ?thesis
  proof (cases x)
    case (Fin a)
    have "Fin a = f64_of a" using assms(1) Fin by (simp add: fok_def)
    also have "\<dots> \<le> f64_of (a + b)" using y b by (intro f64_of_mono) simp
    finally show ?thesis by (simp add: Fin b plus_finite)
  next
    case PInf
    with y show ?thesis by (simp add: plus_PInf_left)
  next
    case NZero
    with y b show ?thesis by (simp add: plus_NZero_left)
  qed (use assms in simp_all)
qed (use y in simp_all)

lemma plus_nonneg: "fok x \<Longrightarrow> Fin 0 \<le> x \<Longrightarrow> fok y \<Longrightarrow> Fin 0 \<le> y \<Longrightarrow> Fin 0 \<le> x + y"
  by (blast intro: plus_ge_left fle_trans)

lemma times_nonneg:
  assumes "Fin 0 \<le> x" and "Fin 0 \<le> y" and "x * y \<noteq> NaN"
  shows "Fin 0 \<le> x * y"
  using assms
  by (cases x; cases y) (auto simp: times_f64_def zeroS_def infS_def f64_of_nonneg)

end
