(* ===== verification/GoStrings.thy ===== *)
theory GoStrings
  imports GoFloat
begin

text \<open>
  The part of Go's \<^verbatim>\<open>strconv\<close>, \<^verbatim>\<open>strings\<close> and \<^verbatim>\<open>fmt\<close> the operator uses, on byte strings
  (\<open>char list\<close>): \<^verbatim>\<open>%d\<close> and \<^verbatim>\<open>%.nf\<close>, \<^verbatim>\<open>ParseInt(s, 10, 32)\<close>, \<^verbatim>\<open>ParseFloat(s, 64)\<close> with
  its whole syntax, \<^verbatim>\<open>strings.Split\<close> and \<^verbatim>\<open>strings.Join\<close>. The round-trip lemmas at the end
  say what survives when a number is kept in the cluster as a string.
\<close>

section \<open>Decimal digits\<close>

definition digit_char :: "nat \<Rightarrow> char" where
  "digit_char d = char_of (48 + d)"

definition code_of :: "char \<Rightarrow> nat" where
  "code_of c = of_char c"

definition isDigit :: "char \<Rightarrow> bool" where
  "isDigit c = (48 \<le> code_of c \<and> code_of c \<le> 57)"

definition digitVal :: "char \<Rightarrow> nat" where
  "digitVal c = code_of c - 48"

lemma code_of_digit_char [simp]: "d < 10 \<Longrightarrow> code_of (digit_char d) = 48 + d"
  by (simp add: code_of_def digit_char_def)

lemma isDigit_digit_char [simp]: "d < 10 \<Longrightarrow> isDigit (digit_char d)"
  by (simp add: isDigit_def)

lemma digitVal_digit_char [simp]: "d < 10 \<Longrightarrow> digitVal (digit_char d) = d"
  by (simp add: digitVal_def)

fun show_nat :: "nat \<Rightarrow> string" where
  "show_nat n =
     (if n < 10 then [digit_char n] else show_nat (n div 10) @ [digit_char (n mod 10)])"

declare show_nat.simps [simp del]

text \<open>Exactly \<open>k\<close> digits, zero-padded on the left.\<close>

fun pad :: "nat \<Rightarrow> nat \<Rightarrow> string" where
  "pad 0 m = []"
| "pad (Suc k) m = pad k (m div 10) @ [digit_char (m mod 10)]"

lemma length_pad [simp]: "length (pad k m) = k"
  by (induction k arbitrary: m) auto

lemma show_nat_nonempty [simp]: "show_nat n \<noteq> []"
  by (subst show_nat.simps) simp

lemma set_show_nat: "c \<in> set (show_nat n) \<Longrightarrow> isDigit c"
proof (induction n rule: show_nat.induct)
  case (1 n)
  show ?case
  proof (cases "n < 10")
    case True
    with "1.prems" show ?thesis by (subst (asm) show_nat.simps) simp
  next
    case False
    with 1 show ?thesis by (subst (asm) (2) show_nat.simps) auto
  qed
qed

lemma set_pad: "c \<in> set (pad k m) \<Longrightarrow> isDigit c"
  by (induction k arbitrary: m) auto

lemma hd_show_nat: "isDigit (hd (show_nat n))"
  by (rule set_show_nat) (rule hd_in_set, simp)

text \<open>The value of a digit string read from the left with an accumulator.\<close>

fun digits_val :: "nat \<Rightarrow> string \<Rightarrow> nat" where
  "digits_val m [] = m"
| "digits_val m (c # cs) = digits_val (10 * m + digitVal c) cs"

lemma digits_val_append: "digits_val m (xs @ ys) = digits_val (digits_val m xs) ys"
  by (induction xs arbitrary: m) auto

lemma digits_val_show_nat: "digits_val 0 (show_nat n) = n"
proof (induction n rule: show_nat.induct)
  case (1 n)
  show ?case
  proof (cases "n < 10")
    case True
    then show ?thesis by (subst show_nat.simps) simp
  next
    case False
    with 1 have "digits_val 0 (show_nat (n div 10)) = n div 10" by simp
    with False show ?thesis
      by (subst show_nat.simps) (simp add: digits_val_append)
  qed
qed

lemma digits_val_pad: "digits_val m (pad k n) = m * 10 ^ k + n mod 10 ^ k"
proof (induction k arbitrary: n)
  case 0
  then show ?case by simp
next
  case (Suc k)
  have "n mod (10 * 10 ^ k) = 10 * (n div 10 mod 10 ^ k) + n mod 10"
    by (rule mod_mult2_eq)
  with Suc [of "n div 10"] show ?case
    by (simp add: digits_val_append algebra_simps)
qed

section \<open>Printing: \<open>%d\<close> and \<open>%.nf\<close>\<close>

definition show_int :: "int \<Rightarrow> string" where
  "show_int n = (if n < 0 then CHR ''-'' # show_nat (nat (- n)) else show_nat (nat n))"

text \<open>
  \<^verbatim>\<open>%.nf\<close> prints the exact decimal value of the float rounded to \<open>n\<close> places, ties to
  even; the sign of a value that rounds to zero is kept.
\<close>

definition fixed :: "nat \<Rightarrow> nat \<Rightarrow> string" where
  "fixed n k = show_nat (k div 10 ^ n)
     @ (if n = 0 then [] else CHR ''.'' # pad n (k mod 10 ^ n))"

fun fmtF :: "nat \<Rightarrow> f64 \<Rightarrow> string" where
  "fmtF n NaN = ''NaN''"
| "fmtF n PInf = ''+Inf''"
| "fmtF n NInf = ''-Inf''"
| "fmtF n NZero = CHR ''-'' # fixed n 0"
| "fmtF n (Fin r) = (if r < 0 then [CHR ''-''] else [])
     @ fixed n (nat (rhe (\<bar>r\<bar> * 10 ^ n)))"

section \<open>Parsing integers: \<open>strconv.ParseInt(s, 10, 32)\<close>\<close>

datatype num_err = ErrSyntax | ErrRange

fun parse_uint32 :: "nat \<Rightarrow> string \<Rightarrow> num_err + nat" where
  "parse_uint32 n [] = Inr n"
| "parse_uint32 n (c # cs) =
    (if \<not> isDigit c then Inl ErrSyntax
     else if 2 ^ 32 - 1 < 10 * n + digitVal c then Inl ErrRange
     else parse_uint32 (10 * n + digitVal c) cs)"

definition parse_unsigned :: "bool \<Rightarrow> string \<Rightarrow> num_err + int" where
  "parse_unsigned neg s =
    (if s = [] then Inl ErrSyntax
     else case parse_uint32 0 s of
            Inl e \<Rightarrow> Inl e
          | Inr un \<Rightarrow>
              if \<not> neg \<and> 2 ^ 31 \<le> un then Inl ErrRange
              else if neg \<and> 2 ^ 31 < un then Inl ErrRange
              else Inr (if neg then - int un else int un))"

fun ParseInt32 :: "string \<Rightarrow> num_err + int" where
  "ParseInt32 [] = Inl ErrSyntax"
| "ParseInt32 (c # cs) =
    (if c = CHR ''+'' then parse_unsigned False cs
     else if c = CHR ''-'' then parse_unsigned True cs
     else parse_unsigned False (c # cs))"

section \<open>Parsing floats: \<open>strconv.ParseFloat(s, 64)\<close>\<close>

definition lowerc :: "char \<Rightarrow> char" where
  "lowerc c = (if 65 \<le> code_of c \<and> code_of c \<le> 90 then char_of (code_of c + 32) else c)"

definition mantDigit :: "bool \<Rightarrow> char \<Rightarrow> nat option" where
  "mantDigit hex c =
    (if isDigit c then Some (digitVal c)
     else if hex \<and> 97 \<le> code_of (lowerc c) \<and> code_of (lowerc c) \<le> 102
       then Some (code_of (lowerc c) - 87) else None)"

text \<open>
  The mantissa loop: what has been seen of a dot and of digits, the digits as a number,
  how many of them follow the dot, and what is left of the input. Underscores are skipped
  here and judged by \<open>underscoreOK\<close>.
\<close>

fun scanMant :: "bool \<Rightarrow> bool \<Rightarrow> bool \<Rightarrow> nat \<Rightarrow> nat \<Rightarrow> string
    \<Rightarrow> bool \<times> nat \<times> nat \<times> string" where
  "scanMant hex dot dig m f [] = (dig, m, f, [])"
| "scanMant hex dot dig m f (c # cs) =
    (if c = CHR ''_'' then scanMant hex dot dig m f cs
     else if c = CHR ''.'' then
       (if dot then (dig, m, f, c # cs) else scanMant hex True dig m f cs)
     else if mantDigit hex c = None then (dig, m, f, c # cs)
     else scanMant hex dot True ((if hex then 16 else 10) * m + the (mantDigit hex c))
            (if dot then Suc f else f) cs)"

text \<open>Exponent digits, capped once they pass 10000; underscores are skipped.\<close>

fun scanExpDigits :: "nat \<Rightarrow> string \<Rightarrow> nat \<times> string" where
  "scanExpDigits e [] = (e, [])"
| "scanExpDigits e (c # cs) =
    (if c = CHR ''_'' then scanExpDigits e cs
     else if isDigit c then
       scanExpDigits (if e < 10000 then 10 * e + digitVal c else e) cs
     else (e, c # cs))"

definition startsDigit :: "string \<Rightarrow> bool" where
  "startsDigit s = (case s of [] \<Rightarrow> False | c # _ \<Rightarrow> isDigit c)"

definition signedExp :: "int \<Rightarrow> string \<Rightarrow> int option" where
  "signedExp sg s =
    (if startsDigit s then
       (if snd (scanExpDigits 0 s) = [] then Some (sg * int (fst (scanExpDigits 0 s))) else None)
     else None)"

text \<open>
  The rest after the mantissa must be an exponent (\<^verbatim>\<open>e\<close>, or \<^verbatim>\<open>p\<close> after a hexadecimal mantissa,
  where it is mandatory) that reaches the end of the string.
\<close>

definition scanExp :: "bool \<Rightarrow> string \<Rightarrow> int option" where
  "scanExp hex s =
    (case s of
       [] \<Rightarrow> if hex then None else Some 0
     | c # t \<Rightarrow>
         if lowerc c \<noteq> (if hex then CHR ''p'' else CHR ''e'') then None
         else case t of
             [] \<Rightarrow> None
           | d # u \<Rightarrow>
               if d = CHR ''+'' then signedExp 1 u
               else if d = CHR ''-'' then signedExp (- 1) u
               else signedExp 1 t)"

datatype uclass = UBegin | UDigit | UUnder | UOther

fun underscores_from :: "bool \<Rightarrow> uclass \<Rightarrow> string \<Rightarrow> bool" where
  "underscores_from hex k [] = (k \<noteq> UUnder)"
| "underscores_from hex k (c # cs) =
    (if mantDigit hex c \<noteq> None then underscores_from hex UDigit cs
     else if c = CHR ''_'' then (k = UDigit \<and> underscores_from hex UUnder cs)
     else (k \<noteq> UUnder \<and> underscores_from hex UOther cs))"

definition basePrefix :: "string \<Rightarrow> bool" where
  "basePrefix s = (case s of
       z # x # _ \<Rightarrow> z = CHR ''0'' \<and> lowerc x \<in> {CHR ''b'', CHR ''o'', CHR ''x''}
     | _ \<Rightarrow> False)"

definition underscoreOK :: "string \<Rightarrow> bool" where
  "underscoreOK s =
    (if basePrefix s then underscores_from (lowerc (s ! 1) = CHR ''x'') UDigit (drop 2 s)
     else underscores_from False UBegin s)"

definition hexPrefix :: "string \<Rightarrow> bool" where
  "hexPrefix s = (case s of
       z # x # _ # _ \<Rightarrow> z = CHR ''0'' \<and> lowerc x = CHR ''x'' | _ \<Rightarrow> False)"

text \<open>The magnitude a (sign-stripped) number denotes, or \<open>None\<close> for a syntax error.\<close>

definition scaled :: "bool \<Rightarrow> nat \<Rightarrow> nat \<Rightarrow> int \<Rightarrow> rat" where
  "scaled hex m f e =
    (if hex then of_nat m * pow2 (e - 4 * int f)
     else if int f \<le> e then of_nat m * 10 ^ nat (e - int f)
     else of_nat m / 10 ^ nat (int f - e))"

definition finish_mant :: "bool \<Rightarrow> bool \<times> nat \<times> nat \<times> string \<Rightarrow> rat option" where
  "finish_mant hex r =
    (if fst r then
       (case scanExp hex (snd (snd (snd r))) of
          None \<Rightarrow> None
        | Some e \<Rightarrow> Some (scaled hex (fst (snd r)) (fst (snd (snd r))) e))
     else None)"

definition readMag :: "string \<Rightarrow> rat option" where
  "readMag s =
    (if CHR ''_'' \<in> set s \<and> \<not> underscoreOK s then None
     else if hexPrefix s then finish_mant True (scanMant True False False 0 0 (drop 2 s))
     else finish_mant False (scanMant False False False 0 0 s))"

definition lowerS :: "string \<Rightarrow> string" where
  "lowerS s = map lowerc s"

definition isInfWord :: "string \<Rightarrow> bool" where
  "isInfWord s = (lowerS s = ''inf'' \<or> lowerS s = ''infinity'')"

definition parsed_mag :: "bool \<Rightarrow> rat option \<Rightarrow> f64 \<times> num_err option" where
  "parsed_mag neg mag =
    (case mag of
       None \<Rightarrow> (Fin 0, Some ErrSyntax)
     | Some v \<Rightarrow>
         if isInf (f64_of v) then (infS neg, Some ErrRange)
         else ((if v = 0 then zeroS neg else f64_of (if neg then - v else v)), None))"

definition parse_signed :: "bool \<Rightarrow> string \<Rightarrow> f64 \<times> num_err option" where
  "parse_signed neg s =
    (if isInfWord s then (infS neg, None) else parsed_mag neg (readMag s))"

fun ParseFloat :: "string \<Rightarrow> f64 \<times> num_err option" where
  "ParseFloat [] = (Fin 0, Some ErrSyntax)"
| "ParseFloat (c # cs) =
    (if c = CHR ''+'' then parse_signed False cs
     else if c = CHR ''-'' then parse_signed True cs
     else if lowerS (c # cs) = ''nan'' then (NaN, None)
     else parse_signed False (c # cs))"

text \<open>\<^verbatim>\<open>x, _ := strconv.ParseFloat(s, 64)\<close>: the error is dropped, the value kept.\<close>

definition parseF :: "string \<Rightarrow> f64" where
  "parseF s = fst (ParseFloat s)"

section \<open>\<open>strings.Split\<close> and \<open>strings.Join\<close>\<close>

fun splitOn :: "char \<Rightarrow> string \<Rightarrow> string list" where
  "splitOn c [] = [[]]"
| "splitOn c (x # xs) =
    (if x = c then [] # splitOn c xs
     else case splitOn c xs of [] \<Rightarrow> [[x]] | p # ps \<Rightarrow> (x # p) # ps)"

fun joinWith :: "string \<Rightarrow> string list \<Rightarrow> string" where
  "joinWith sep [] = []"
| "joinWith sep [p] = p"
| "joinWith sep (p # q # ps) = p @ sep @ joinWith sep (q # ps)"

lemma splitOn_nonempty [simp]: "splitOn c s \<noteq> []"
  by (induction s) (auto split: list.splits)

lemma splitOn_none: "c \<notin> set s \<Longrightarrow> splitOn c s = [s]"
  by (induction s) auto

lemma splitOn_append: "splitOn c (xs @ c # ys) = splitOn c xs @ splitOn c ys"
  by (induction xs) (auto split: list.splits)

lemma joinWith_Cons: "ps \<noteq> [] \<Longrightarrow> joinWith sep (p # ps) = p @ sep @ joinWith sep ps"
  by (cases ps) auto

lemma join_split: "joinWith [c] (splitOn c s) = s"
proof (induction s)
  case (Cons x xs)
  obtain p ps where "splitOn c xs = p # ps" by (cases "splitOn c xs") auto
  with Cons show ?case by (cases ps) auto
qed simp

section \<open>Quoting: \<open>%q\<close>\<close>

text \<open>
  \<^verbatim>\<open>strconv.Quote\<close> on ASCII; which characters beyond it are printable is Unicode's table, so
  \<open>high\<close> writes each run of bytes outside ASCII.
\<close>

definition hexLower :: "nat \<Rightarrow> char" where
  "hexLower n = ''0123456789abcdef'' ! n"

definition quotedChar :: "char \<Rightarrow> string" where
  "quotedChar c =
    (if code_of c = 34 \<or> code_of c = 92 then [CHR 0x5C, c]
     else if code_of c = 7 then [CHR 0x5C, CHR ''a'']
     else if code_of c = 8 then [CHR 0x5C, CHR ''b'']
     else if code_of c = 9 then [CHR 0x5C, CHR ''t'']
     else if code_of c = 10 then [CHR 0x5C, CHR ''n'']
     else if code_of c = 11 then [CHR 0x5C, CHR ''v'']
     else if code_of c = 12 then [CHR 0x5C, CHR ''f'']
     else if code_of c = 13 then [CHR 0x5C, CHR ''r'']
     else if code_of c < 32 \<or> code_of c = 127
       then [CHR 0x5C, CHR ''x'', hexLower (code_of c div 16), hexLower (code_of c mod 16)]
     else [c])"

fun quoteRuns :: "(string \<Rightarrow> string) \<Rightarrow> string \<Rightarrow> string \<Rightarrow> string" where
  "quoteRuns high run [] = (if run = [] then [] else high (rev run))"
| "quoteRuns high run (c # cs) =
    (if 128 \<le> code_of c then quoteRuns high (c # run) cs
     else (if run = [] then [] else high (rev run)) @ quotedChar c @ quoteRuns high [] cs)"

definition goQuote :: "(string \<Rightarrow> string) \<Rightarrow> string \<Rightarrow> string" where
  "goQuote high s = [CHR 0x22] @ quoteRuns high [] s @ [CHR 0x22]"

lemma goQuote_plain:
  assumes "\<forall>c\<in>set s. 32 \<le> code_of c \<and> code_of c < 127 \<and> code_of c \<noteq> 34 \<and> code_of c \<noteq> 92"
  shows "goQuote high s = [CHR 0x22] @ s @ [CHR 0x22]"
proof -
  have "quoteRuns high [] s = s"
    using assms by (induction s) (auto simp: quotedChar_def)
  then show ?thesis by (simp add: goQuote_def)
qed

section \<open>Round trips\<close>

lemma isDigit_not_special [simp]:
  assumes "isDigit c"
  shows "c \<noteq> CHR ''_''" "c \<noteq> CHR ''.''" "c \<noteq> CHR ''-''" "c \<noteq> CHR ''+''"
    "c \<noteq> CHR ''n''" "c \<noteq> CHR ''i''" "c \<noteq> CHR ''x''"
  using assms by (auto simp: isDigit_def code_of_def)

lemma isDigit_lowerc [simp]: "isDigit c \<Longrightarrow> lowerc c = c"
  by (auto simp: isDigit_def lowerc_def)

lemma mantDigit_isDigit [simp]: "isDigit c \<Longrightarrow> mantDigit hex c = Some (digitVal c)"
  by (simp add: mantDigit_def)

text \<open>Integers: what \<^verbatim>\<open>%d\<close> writes of a 32-bit value, \<^verbatim>\<open>ParseInt\<close> reads back.\<close>

lemma digits_val_ge: "m \<le> digits_val m ds"
proof (induction ds arbitrary: m)
  case (Cons c ds)
  have "m \<le> 10 * m + digitVal c" by simp
  also have "\<dots> \<le> digits_val (10 * m + digitVal c) ds" by (rule Cons.IH)
  finally show ?case by simp
qed simp

lemma parse_uint32_digits:
  "\<forall>c \<in> set ds. isDigit c \<Longrightarrow> digits_val m ds < 2 ^ 32 \<Longrightarrow>
   parse_uint32 m ds = Inr (digits_val m ds)"
proof (induction ds arbitrary: m)
  case (Cons c ds)
  have "10 * m + digitVal c \<le> digits_val m (c # ds)"
    by (simp add: digits_val_ge)
  with Cons show ?case by simp
qed simp

lemma parse_unsigned_show_nat:
  assumes "n \<le> 2 ^ 31" and "neg \<or> n < 2 ^ 31"
  shows "parse_unsigned neg (show_nat n) = Inr (if neg then - int n else int n)"
proof -
  have "parse_uint32 0 (show_nat n) = Inr (digits_val 0 (show_nat n))"
    using assms by (intro parse_uint32_digits) (auto simp: digits_val_show_nat dest: set_show_nat)
  with assms show ?thesis
    by (auto simp: parse_unsigned_def digits_val_show_nat)
qed

lemma ParseInt32_digit:
  "ds \<noteq> [] \<Longrightarrow> isDigit (hd ds) \<Longrightarrow> ParseInt32 ds = parse_unsigned False ds"
  by (cases ds) auto

lemma ParseInt32_show_int:
  assumes "- (2 ^ 31) \<le> n" and "n < 2 ^ 31"
  shows "ParseInt32 (show_int n) = Inr n"
proof (cases "n < 0")
  case True
  with assms show ?thesis
    by (simp add: show_int_def parse_unsigned_show_nat)
next
  case False
  with assms show ?thesis
    by (simp add: show_int_def ParseInt32_digit hd_show_nat parse_unsigned_show_nat)
qed

text \<open>Floats: \<^verbatim>\<open>%.nf\<close> followed by \<^verbatim>\<open>ParseFloat\<close>.\<close>

lemma scanMant_digits:
  "\<forall>c \<in> set ds. isDigit c \<Longrightarrow>
   scanMant False dot dig m f (ds @ rest) =
   scanMant False dot (dig \<or> ds \<noteq> []) (digits_val m ds)
     (if dot then f + length ds else f) rest"
  by (induction ds arbitrary: dig m f) auto

lemma fixed_chars: "c \<in> set (fixed n k) \<Longrightarrow> isDigit c \<or> c = CHR ''.''"
  by (auto simp: fixed_def split: if_splits dest: set_show_nat set_pad)

lemma fixed_nonempty [simp]: "fixed n k \<noteq> []"
  by (simp add: fixed_def)

lemma hd_fixed: "isDigit (hd (fixed n k))"
  by (simp add: fixed_def hd_append hd_show_nat)

lemma scanMant_fixed: "scanMant False False False 0 0 (fixed n k) = (True, k, n, [])"
proof (cases "n = 0")
  case True
  have "scanMant False False False 0 0 (show_nat k @ []) =
        scanMant False False True k 0 []"
    by (subst scanMant_digits) (auto simp: digits_val_show_nat dest: set_show_nat)
  with True show ?thesis by (simp add: fixed_def)
next
  case False
  let ?q = "k div 10 ^ n"
  have "scanMant False False False 0 0 (fixed n k) =
        scanMant False False True ?q 0 (CHR ''.'' # pad n (k mod 10 ^ n) @ [])"
    using False unfolding fixed_def
    by (subst scanMant_digits) (auto simp: digits_val_show_nat dest: set_show_nat)
  also have "\<dots> = scanMant False True True ?q 0 (pad n (k mod 10 ^ n) @ [])"
    by simp
  also have "\<dots> = (True, k, n, [])"
    by (subst scanMant_digits)
      (auto simp: digits_val_pad div_mult_mod_eq dest: set_pad)
  finally show ?thesis .
qed

lemma not_hexPrefix_fixed: "\<not> hexPrefix (fixed n k)"
proof -
  have "\<forall>c \<in> set (fixed n k). lowerc c \<noteq> CHR ''x''"
  proof
    fix c assume "c \<in> set (fixed n k)"
    then have "isDigit c \<or> c = CHR ''.''" by (rule fixed_chars)
    then show "lowerc c \<noteq> CHR ''x''"
      by (auto simp: lowerc_def code_of_def isDigit_def)
  qed
  then show ?thesis
    by (auto simp: hexPrefix_def split: list.splits)
qed

lemma readMag_fixed: "readMag (fixed n k) = Some (of_nat k / 10 ^ n)"
proof -
  have "CHR ''_'' \<notin> set (fixed n k)"
    using fixed_chars [of "CHR ''_''" n k] by (auto simp: isDigit_def code_of_def)
  then show ?thesis
    by (simp add: readMag_def not_hexPrefix_fixed scanMant_fixed finish_mant_def
        scanExp_def scaled_def)
qed

lemma digit_word_conflict:
  assumes "s \<noteq> []" and "isDigit (hd s)"
  shows "\<not> isInfWord s" and "lowerS s \<noteq> ''nan''"
  using assms by (cases s; simp add: isInfWord_def lowerS_def)+

lemma ParseFloat_fixed: "ParseFloat (fixed n k) = parsed_mag False (Some (of_nat k / 10 ^ n))"
proof (cases "fixed n k")
  case (Cons c cs)
  then have c: "isDigit c" using hd_fixed [of n k] by simp
  have "ParseFloat (fixed n k) = parse_signed False (fixed n k)"
    using digit_word_conflict(2) [of "fixed n k"] c Cons by (simp add: Cons)
  then show ?thesis
    using digit_word_conflict(1) [OF fixed_nonempty hd_fixed]
    by (simp add: parse_signed_def readMag_fixed)
qed simp

lemma parsed_mag_nonneg: "0 \<le> v \<Longrightarrow> fst (parsed_mag False (Some v)) = f64_of v"
  using f64_of_nonneg [of v]
  by (cases "f64_of v") (auto simp: parsed_mag_def infS_def zeroS_def)

lemma parseF_fixed: "parseF (fixed n k) = f64_of (of_nat k / 10 ^ n)"
  by (simp add: parseF_def ParseFloat_fixed parsed_mag_nonneg)

text \<open>
  \<open>reread n x\<close> is what a float becomes when it is written to the cluster with \<^verbatim>\<open>%.nf\<close>
  and read back: rounded to \<open>n\<close> decimal places and then to a float.
\<close>

definition reread :: "nat \<Rightarrow> f64 \<Rightarrow> f64" where
  "reread n x = parseF (fmtF n x)"

lemma reread_Fin:
  assumes "0 \<le> r"
  shows "reread n (Fin r) = f64_of (of_int (rhe (r * 10 ^ n)) / 10 ^ n)"
proof -
  have "0 \<le> rhe (r * 10 ^ n)" using assms by (intro rhe_nonneg) simp
  then have "(of_nat (nat (rhe (r * 10 ^ n))) :: rat) = of_int (rhe (r * 10 ^ n))"
    by simp
  with assms show ?thesis
    by (simp add: reread_def parseF_fixed)
qed

lemma lowerS_words:
  "lowerS ''NaN'' = ''nan''" "isInfWord ''Inf''" "lowerS ''+Inf'' = ''+inf''"
  by code_simp+

lemma reread_NaN [simp]: "reread n NaN = NaN"
  by (simp add: reread_def parseF_def lowerS_words)

lemma reread_PInf [simp]: "reread n PInf = PInf"
  by (simp add: reread_def parseF_def parse_signed_def lowerS_words infS_def)

lemma not_isInfWord_fixed [simp]: "\<not> isInfWord (fixed n k)"
  by (rule digit_word_conflict) (simp_all add: hd_fixed)

lemma reread_NZero [simp]: "reread n NZero = NZero"
  by (simp add: reread_def parseF_def parse_signed_def readMag_fixed parsed_mag_def zeroS_def)

lemma reread_mono:
  assumes "Fin 0 \<le> x" and "x \<le> y"
  shows "reread n x \<le> reread n y"
proof -
  have fin: "reread n (Fin a) \<le> reread n (Fin b)" if "0 \<le> a" "a \<le> b" for a b
  proof -
    have "rhe (a * 10 ^ n) \<le> rhe (b * 10 ^ n)"
      using that by (intro rhe_mono mult_right_mono) auto
    with that show ?thesis
      by (auto simp: reread_Fin intro!: f64_of_mono divide_right_mono)
  qed
  have ge0: "Fin 0 \<le> reread n (Fin a)" if "0 \<le> a" for a
    using fin [of 0 a] that by (simp add: reread_Fin)
  have le0: "reread n (Fin a) \<le> Fin 0" if "a = 0" for a
    using that by (simp add: reread_Fin)
  have notNaN: "reread n (Fin a) \<noteq> NaN" if "0 \<le> a" for a
    using ge0 [OF that] by auto
  from assms show ?thesis
    by (cases x; cases y) (auto simp: fin notNaN intro: fle_trans [OF _ ge0] le0 ge0 fle_trans [OF le0])
qed

text \<open>
  A value the operator has written once is stable: below \<open>2^32\<close> a float that was read
  from six decimals prints the same six decimals again.
\<close>

lemma ulp_exp_small:
  assumes "0 < x" and "x < pow2 k" and "- 1021 \<le> k"
  shows "ulp_exp x \<le> k - 53"
proof -
  have "pow2 (flog2 x) < pow2 k"
    using flog2_bounds(1) [OF assms(1)] assms(2) by linarith
  with assms(3) show ?thesis by (simp add: ulp_exp_def pow2_less_iff)
qed

lemma reread_stable:
  assumes "0 \<le> k" and "k < 10 ^ 6 * 2 ^ 32"
  shows "reread 6 (f64_of (of_int k / 10 ^ 6)) = f64_of (of_int k / 10 ^ 6)"
proof (cases "k = 0")
  case True
  then show ?thesis by (simp add: reread_Fin)
next
  case False
  let ?x = "of_int k / 10 ^ 6 :: rat"
  have pos: "0 < ?x" using assms False by simp
  have "of_int k < (10 ^ 6 * 2 ^ 32 :: rat)"
    using assms(2) of_int_less_iff [of k "10 ^ 6 * 2 ^ 32", where ?'a = rat] by simp
  then have small: "?x < pow2 32" by (simp add: pow2_def)
  then have "ulp_exp ?x \<le> - 21"
    using ulp_exp_small [OF pos, of 32] by simp
  then have "pow2 (ulp_exp ?x) \<le> pow2 (- 21)" by (rule pow2_mono)
  then have err: "\<bar>rnd ?x - ?x\<bar> \<le> 1 / 2 ^ 22"
    using rnd_error [of ?x] by (simp add: pow2_def)
  have "rnd ?x * 10 ^ 6 - of_int k = (rnd ?x - ?x) * 10 ^ 6"
    by (simp add: left_diff_distrib)
  then have "\<bar>rnd ?x * 10 ^ 6 - of_int k\<bar> = \<bar>rnd ?x - ?x\<bar> * 10 ^ 6"
    by (simp only: abs_mult) simp
  also have "\<dots> < 1/2" using err by simp
  finally have same: "rhe (rnd ?x * 10 ^ 6) = k" by (rule rhe_close)
  have "rnd ?x < pow2 1024"
  proof -
    have "\<bar>rnd ?x - ?x\<bar> \<le> 1" using err by (rule order_trans) simp
    with small have "rnd ?x < pow2 32 + 1" by linarith
    also have "\<dots> < pow2 33" by (simp add: pow2_def)
    also have "\<dots> < pow2 1024" by (rule pow2_strict_mono) simp
    finally show ?thesis .
  qed
  then have "f64_of ?x = Fin (rnd ?x)"
    using pos by (simp add: f64_of_pos_cases)
  then show ?thesis
    using same pos rnd_nonneg [of ?x] by (simp add: reread_Fin)
qed

end
