(* ===== verification/GoTime.thy ===== *)
theory GoTime
  imports GoStrings "HOL-Library.Signed_Division"
begin

text \<open>
  The part of Go's \<^verbatim>\<open>time\<close> package the operator uses: instants with a zone offset, durations
  (64-bit nanosecond counts), the proleptic Gregorian calendar, RFC 3339 and
  \<^verbatim>\<open>time.ParseDuration\<close>.
\<close>

section \<open>The calendar\<close>

text \<open>
  Years are counted from the first of March, so that the leap day is the last day of a
  year: \<open>ystart y\<close> is the number of days before year \<open>y\<close>, and day 719468 is 1970-01-01.
\<close>

definition ystart :: "int \<Rightarrow> int" where
  "ystart y = 365 * y + y div 4 - y div 100 + y div 400"

definition year_fix :: "int \<Rightarrow> int \<Rightarrow> int" where
  "year_fix e z =
    (if z < ystart e then e - 1 else if ystart (e + 1) \<le> z then e + 1 else e)"

definition year_of :: "int \<Rightarrow> int" where
  "year_of z = year_fix ((400 * z) div 146097) z"

definition month_of_doy :: "int \<Rightarrow> int" where
  "month_of_doy doy = (5 * doy + 2) div 153"

definition doy_of_month :: "int \<Rightarrow> int" where
  "doy_of_month mp = (153 * mp + 2) div 5"

definition days_from_civil :: "int \<Rightarrow> int \<Rightarrow> int \<Rightarrow> int" where
  "days_from_civil y m d =
    ystart (if m \<le> 2 then y - 1 else y) + doy_of_month ((m + 9) mod 12) + (d - 1) - 719468"

definition civil_of :: "int \<Rightarrow> int \<Rightarrow> int \<times> int \<times> int" where
  "civil_of y doy =
    (let mp = month_of_doy doy; m = (if mp < 10 then mp + 3 else mp - 9)
     in (if m \<le> 2 then y + 1 else y, m, doy - doy_of_month mp + 1))"

definition civil_from_days :: "int \<Rightarrow> int \<times> int \<times> int" where
  "civil_from_days z =
    civil_of (year_of (z + 719468)) (z + 719468 - ystart (year_of (z + 719468)))"

lemma div_step:
  fixes y k :: int
  assumes "0 < k"
  shows "(y + 1) div k = y div k + (if k dvd y + 1 then 1 else 0)"
proof -
  have r: "0 \<le> y mod k" "y mod k < k" using assms by simp_all
  have y: "y = k * (y div k) + y mod k" by simp
  show ?thesis
  proof (cases "y mod k + 1 = k")
    case True
    with y have "y + 1 = k * (y div k) + k" by linarith
    then have "y + 1 = k * (y div k + 1)" by (simp add: distrib_left)
    with assms show ?thesis by simp
  next
    case False
    with r have lt: "y mod k + 1 < k" by simp
    have yk: "y + 1 = k * (y div k) + (y mod k + 1)" using y by linarith
    have "(y + 1) div k = y div k"
      by (rule int_div_pos_eq [OF yk]) (use r lt in linarith)+
    moreover have "(y + 1) mod k = y mod k + 1"
      by (rule int_mod_pos_eq [OF yk]) (use r lt in linarith)+
    moreover note r
    ultimately show ?thesis by (auto simp: dvd_eq_mod_eq_0)
  qed
qed

lemma div_bounds:
  fixes y k :: int
  assumes "0 < k"
  shows "k * (y div k) \<le> y" and "y < k * (y div k) + k"
  using assms pos_mod_bound [of k y] pos_mod_sign [of k y] mult_div_mod_eq [of k y] by linarith+

lemma ystart_step:
  "ystart (y + 1) = ystart y + 365
     + (if 4 dvd y + 1 then 1 else 0) - (if 100 dvd y + 1 then 1 else 0)
     + (if 400 dvd y + 1 then 1 else 0)"
  by (simp add: ystart_def div_step)

lemma ystart_Suc: "ystart y + 365 \<le> ystart (y + 1)" "ystart (y + 1) \<le> ystart y + 366"
proof -
  have "4 dvd y + 1" if "100 dvd y + 1" using that by (rule dvd_trans [rotated]) simp
  moreover have "100 dvd y + 1" if "400 dvd y + 1" using that by (rule dvd_trans [rotated]) simp
  ultimately show "ystart y + 365 \<le> ystart (y + 1)" "ystart (y + 1) \<le> ystart y + 366"
    by (simp_all add: ystart_step)
qed

lemma ystart_mono: "a \<le> b \<Longrightarrow> ystart a \<le> ystart b"
proof (induction b rule: int_ge_induct)
  case (step i)
  then show ?case using ystart_Suc(1) [of i] by linarith
qed simp

lemma year_arith:
  fixes a b c y :: int
  assumes "4 * a \<le> y" "y < 4 * a + 4" "100 * b \<le> y" "y < 100 * b + 100"
    "400 * c \<le> y" "y < 400 * c + 400"
  shows "146097 * y - 800 \<le> 400 * (365 * y + a - b + c)"
    and "400 * (365 * y + a - b + c) \<le> 146097 * y + 400"
  using assms by simp_all

lemma year_est_low:
  "146097 * e \<le> 400 * z \<Longrightarrow> 400 * s \<le> 146097 * (e - 1) + 400 \<Longrightarrow> s \<le> (z :: int)"
  by simp

lemma year_est_high:
  "400 * z < 146097 * e + 146097 \<Longrightarrow> 146097 * (e + 2) - 800 \<le> 400 * s \<Longrightarrow> (z :: int) < s"
  by simp

lemma ystart_bounds:
  "146097 * y - 800 \<le> 400 * ystart y" "400 * ystart y \<le> 146097 * y + 400"
proof -
  have "4 * (y div 4) \<le> y" "y < 4 * (y div 4) + 4"
    "100 * (y div 100) \<le> y" "y < 100 * (y div 100) + 100"
    "400 * (y div 400) \<le> y" "y < 400 * (y div 400) + 400"
    by (rule div_bounds; simp)+
  note b = year_arith [OF this]
  show "146097 * y - 800 \<le> 400 * ystart y" "400 * ystart y \<le> 146097 * y + 400"
    unfolding ystart_def by (rule b)+
qed

lemma year_of_bounds: "ystart (year_of z) \<le> z" "z < ystart (year_of z + 1)"
proof -
  let ?e = "(400 * z) div 146097"
  have e: "146097 * ?e \<le> 400 * z" "400 * z < 146097 * ?e + 146097"
    by (rule div_bounds; simp)+
  have lo: "ystart (?e - 1) \<le> z" by (rule year_est_low [OF e(1) ystart_bounds(2)])
  have hi: "z < ystart (?e + 2)" by (rule year_est_high [OF e(2) ystart_bounds(1)])
  show "ystart (year_of z) \<le> z" "z < ystart (year_of z + 1)"
    using lo hi by (auto simp: year_of_def year_fix_def algebra_simps)
qed

lemma year_of_unique:
  assumes "ystart y \<le> z" and "z < ystart (y + 1)"
  shows "year_of z = y"
proof (rule antisym; rule ccontr)
  assume "\<not> year_of z \<le> y"
  then have "ystart (y + 1) \<le> ystart (year_of z)" by (intro ystart_mono) simp
  with assms(2) year_of_bounds(1) [of z] show False by linarith
next
  assume "\<not> y \<le> year_of z"
  then have "ystart (year_of z + 1) \<le> ystart y" by (intro ystart_mono) simp
  with assms(1) year_of_bounds(2) [of z] show False by linarith
qed

text \<open>Every day has one date, and it is the day that date denotes.\<close>

lemma month_arith:
  fixes doy p q :: int
  assumes "153 * q \<le> 5 * doy + 2" "5 * doy + 2 < 153 * q + 153"
    "5 * p \<le> 153 * q + 2" "153 * q + 2 < 5 * p + 5" "0 \<le> doy" "doy \<le> 365"
  shows "0 \<le> q \<and> q \<le> 11 \<and> p \<le> doy \<and> doy < p + 31"
  using assms by (intro conjI) linarith+

lemma month_of_doy_facts:
  assumes "0 \<le> doy" and "doy \<le> 365"
  shows "0 \<le> month_of_doy doy" "month_of_doy doy \<le> 11"
    "doy_of_month (month_of_doy doy) \<le> doy"
    "doy < doy_of_month (month_of_doy doy) + 31"
proof -
  have "0 \<le> month_of_doy doy \<and> month_of_doy doy \<le> 11
      \<and> doy_of_month (month_of_doy doy) \<le> doy
      \<and> doy < doy_of_month (month_of_doy doy) + 31"
    unfolding month_of_doy_def doy_of_month_def
    by (rule month_arith [OF _ _ _ _ assms]) (rule div_bounds, simp)+
  then show "0 \<le> month_of_doy doy" "month_of_doy doy \<le> 11"
    "doy_of_month (month_of_doy doy) \<le> doy"
    "doy < doy_of_month (month_of_doy doy) + 31" by blast+
qed

lemma shift_month:
  "0 \<le> p \<Longrightarrow> p \<le> 11 \<Longrightarrow> ((if p < 10 then p + 3 else p - 9) + 9) mod 12 = (p :: int)"
  by auto

lemma civil_of_facts:
  assumes "0 \<le> doy" and "doy \<le> 365" and c: "civil_of y doy = (y', m, d)"
  shows "1 \<le> m" "m \<le> 12" "1 \<le> d" "d \<le> 31" "(if m \<le> 2 then y' - 1 else y') = y"
    "doy_of_month ((m + 9) mod 12) + (d - 1) = doy"
proof -
  let ?mp = "month_of_doy doy"
  note f = month_of_doy_facts [OF assms(1,2)]
  have m: "m = (if ?mp < 10 then ?mp + 3 else ?mp - 9)"
    and d: "d = doy - doy_of_month ?mp + 1" and y: "y' = (if m \<le> 2 then y + 1 else y)"
    using c by (auto simp: civil_of_def Let_def)
  have "(m + 9) mod 12 = ?mp"
    using shift_month [OF f(1,2)] unfolding m .
  then show "doy_of_month ((m + 9) mod 12) + (d - 1) = doy" by (simp add: d)
  show "1 \<le> m" "m \<le> 12" "1 \<le> d" "d \<le> 31" "(if m \<le> 2 then y' - 1 else y') = y"
    using f by (auto simp: m d y)
qed

lemma doy_range: "0 \<le> z - ystart (year_of z)" "z - ystart (year_of z) \<le> 365"
  using year_of_bounds [of z] ystart_Suc(2) [of "year_of z"] by linarith+

lemma days_from_civil_from_days:
  assumes "civil_from_days z = (y, m, d)"
  shows "days_from_civil y m d = z"
  using civil_of_facts(5,6) [OF doy_range assms [unfolded civil_from_days_def]]
  by (simp add: days_from_civil_def)

lemma civil_from_days_valid:
  assumes "civil_from_days z = (y, m, d)"
  shows "1 \<le> m \<and> m \<le> 12 \<and> 1 \<le> d \<and> d \<le> 31"
  using civil_of_facts(1-4) [OF doy_range assms [unfolded civil_from_days_def]] by blast

text \<open>
  Conversely a date whose day exists in its month is what the calendar gives back. The
  length of a month is how far the next one starts; the last month of the shifted year is
  February.
\<close>

definition isLeap :: "int \<Rightarrow> bool" where
  "isLeap y = (y mod 4 = 0 \<and> (y mod 100 \<noteq> 0 \<or> y mod 400 = 0))"

definition daysIn :: "int \<Rightarrow> int \<Rightarrow> int" where
  "daysIn y m = (if m = 2 then (if isLeap y then 29 else 28)
     else if m \<in> {4, 6, 9, 11} then 30 else 31)"

lemma leap_if:
  "(b \<longrightarrow> a) \<Longrightarrow> (c \<longrightarrow> b) \<Longrightarrow>
   x + (if a then 1 else 0) - (if b then 1 else 0) + (if c then 1 else 0)
     = x + (if a \<and> (\<not> b \<or> c) then 1 else (0 :: int))"
  by (cases a; cases b; cases c) simp_all

lemma year_length: "ystart (y + 1) = ystart y + 365 + (if isLeap (y + 1) then 1 else 0)"
proof -
  have a: "4 dvd y + 1" if "100 dvd y + 1" using that by (rule dvd_trans [rotated]) simp
  have b: "100 dvd y + 1" if "400 dvd y + 1" using that by (rule dvd_trans [rotated]) simp
  have "isLeap (y + 1) = (4 dvd y + 1 \<and> (\<not> 100 dvd y + 1 \<or> 400 dvd y + 1))"
    by (simp only: isLeap_def dvd_eq_mod_eq_0)
  moreover have "ystart y + 365
     + (if 4 dvd y + 1 then 1 else 0) - (if 100 dvd y + 1 then 1 else 0)
     + (if 400 dvd y + 1 then 1 else 0)
     = ystart y + 365
     + (if 4 dvd y + 1 \<and> (\<not> 100 dvd y + 1 \<or> 400 dvd y + 1) then 1 else 0)"
    by (rule leap_if) (rule impI, erule a b)+
  ultimately show ?thesis
    by (simp only: ystart_step)
qed

lemma doy_in_year:
  assumes "1 \<le> m" "m \<le> 12" "1 \<le> d" "d \<le> daysIn y m"
  defines "y' \<equiv> (if m \<le> 2 then y - 1 else y)"
    and "doy \<equiv> doy_of_month ((m + 9) mod 12) + (d - 1)"
  shows "0 \<le> doy" "doy < 365 + (if isLeap (y' + 1) then 1 else 0)"
    "month_of_doy doy = (m + 9) mod 12"
proof -
  have cases: "m = 1 \<or> m = 2 \<or> m = 3 \<or> m = 4 \<or> m = 5 \<or> m = 6 \<or> m = 7 \<or> m = 8 \<or> m = 9
      \<or> m = 10 \<or> m = 11 \<or> m = 12"
    using assms(1,2) by arith
  have "d \<le> (if m = 2 then 29 else if m \<in> {4, 6, 9, 11} then 30 else 31)"
    using assms(4) by (auto simp: daysIn_def split: if_splits)
  with cases show "month_of_doy doy = (m + 9) mod 12"
    using assms(3) unfolding doy_def month_of_doy_def doy_of_month_def
    by (elim disjE) auto
  show "0 \<le> doy"
    using assms(3) pos_mod_sign [of 12 "m + 9"] unfolding doy_def doy_of_month_def
    by (simp add: add_nonneg_nonneg)
  show "doy < 365 + (if isLeap (y' + 1) then 1 else 0)"
  proof (cases "m = 2")
    case True
    with assms(4) show ?thesis
      by (cases "isLeap y") (simp_all add: doy_def y'_def doy_of_month_def daysIn_def)
  next
    case False
    with cases have "doy_of_month ((m + 9) mod 12) \<le> 306"
      unfolding doy_of_month_def by (elim disjE) simp_all
    moreover have "d \<le> 31" using assms(4) by (auto simp: daysIn_def split: if_splits)
    ultimately show ?thesis by (auto simp: doy_def)
  qed
qed

lemma month_end:
  fixes doy mp :: int
  assumes "0 \<le> doy"
  shows "doy < doy_of_month (month_of_doy doy + 1)"
proof -
  let ?q = "month_of_doy doy"
  have "5 * doy + 2 < 153 * ?q + 153"
    unfolding month_of_doy_def by (rule div_bounds) simp
  moreover have "153 * (?q + 1) + 2 < 5 * doy_of_month (?q + 1) + 5"
    unfolding doy_of_month_def by (rule div_bounds) simp
  ultimately show ?thesis by simp
qed

lemma civil_from_days_day:
  assumes "civil_from_days z = (y, m, d)"
  shows "d \<le> daysIn y m"
proof -
  let ?y = "year_of (z + 719468)"
  let ?doy = "z + 719468 - ystart ?y"
  let ?p = "month_of_doy ?doy"
  note r = doy_range [of "z + 719468"]
  note p = month_of_doy_facts(1,2) [OF r]
  have m: "m = (if ?p < 10 then ?p + 3 else ?p - 9)" and d: "d = ?doy - doy_of_month ?p + 1"
    and y: "y = (if m \<le> 2 then ?y + 1 else ?y)"
    using assms by (auto simp: civil_from_days_def civil_of_def Let_def)
  have e: "?doy < doy_of_month (?p + 1)" using r(1) by (rule month_end)
  have leap: "?doy < 365 + (if isLeap (?y + 1) then 1 else 0)"
    using year_of_bounds(2) [of "z + 719468"] year_length [of ?y] by linarith
  have cases: "?p = 0 \<or> ?p = 1 \<or> ?p = 2 \<or> ?p = 3 \<or> ?p = 4 \<or> ?p = 5 \<or> ?p = 6 \<or> ?p = 7
      \<or> ?p = 8 \<or> ?p = 9 \<or> ?p = 10 \<or> ?p = 11"
    using p by arith
  show ?thesis
  proof (cases "?p = 11")
    case True
    then show ?thesis
      using leap unfolding d m y
      by (cases "isLeap (?y + 1)") (simp_all add: daysIn_def doy_of_month_def)
  next
    case False
    with cases show ?thesis
      using e unfolding d m
      by (elim disjE) (simp_all add: daysIn_def doy_of_month_def)
  qed
qed

lemma civil_from_days_from_civil:
  assumes "1 \<le> m" "m \<le> 12" "1 \<le> d" "d \<le> daysIn y m"
  shows "civil_from_days (days_from_civil y m d) = (y, m, d)"
proof -
  let ?y = "if m \<le> 2 then y - 1 else y"
  let ?doy = "doy_of_month ((m + 9) mod 12) + (d - 1)"
  let ?z = "days_from_civil y m d + 719468"
  note f = doy_in_year [OF assms]
  have z: "?z = ystart ?y + ?doy" by (simp add: days_from_civil_def)
  have "year_of ?z = ?y"
    unfolding z using f(1,2) year_length [of ?y] by (intro year_of_unique) linarith+
  then have "civil_from_days (days_from_civil y m d) = civil_of ?y (?z - ystart ?y)"
    by (simp only: civil_from_days_def)
  also have "?z - ystart ?y = ?doy" using z by linarith
  also have "civil_of ?y ?doy = (y, m, d)"
  proof -
    have "m = 1 \<or> m = 2 \<or> m = 3 \<or> m = 4 \<or> m = 5 \<or> m = 6 \<or> m = 7 \<or> m = 8 \<or> m = 9
        \<or> m = 10 \<or> m = 11 \<or> m = 12"
      using assms(1,2) by arith
    then have "(if (m + 9) mod 12 < 10 then (m + 9) mod 12 + 3 else (m + 9) mod 12 - 9) = m"
      by (elim disjE) simp_all
    then show ?thesis by (simp add: civil_of_def Let_def f(3))
  qed
  finally show ?thesis .
qed

section \<open>Instants\<close>

text \<open>
  \<^verbatim>\<open>time.Time\<close>: seconds since the Unix epoch, nanoseconds within the second, and the offset of
  the zone its calendar fields are read in (seconds east of UTC).
\<close>

record gotime =
  tsec :: int
  tnsec :: int
  tzoff :: int

text \<open>The zero time is the first instant of year 1, UTC.\<close>

definition zeroTime :: gotime where
  "zeroTime = \<lparr>tsec = - 62135596800, tnsec = 0, tzoff = 0\<rparr>"

definition isZeroTime :: "gotime \<Rightarrow> bool" where
  "isZeroTime t = (tsec t = - 62135596800 \<and> tnsec t = 0)"

definition wall :: "gotime \<Rightarrow> int" where
  "wall t = tsec t + tzoff t"

definition dateOf :: "gotime \<Rightarrow> int \<times> int \<times> int" where
  "dateOf t = civil_from_days (wall t div 86400)"

definition yearOf :: "gotime \<Rightarrow> int" where
  "yearOf t = fst (dateOf t)"

definition monthOf :: "gotime \<Rightarrow> int" where
  "monthOf t = fst (snd (dateOf t))"

definition dayOf :: "gotime \<Rightarrow> int" where
  "dayOf t = snd (snd (dateOf t))"

definition clockOf :: "gotime \<Rightarrow> int" where
  "clockOf t = wall t mod 86400"

text \<open>
  \<^verbatim>\<open>time.Date(y, m, d, 0, 0, s, n, UTC)\<close>: the month is brought into 1..12 by carrying into the
  year, days and seconds run over freely.
\<close>

definition dateUTC :: "int \<Rightarrow> int \<Rightarrow> int \<Rightarrow> int \<Rightarrow> int \<Rightarrow> gotime" where
  "dateUTC y m d s n =
    \<lparr>tsec = days_from_civil (y + (m - 1) div 12) ((m - 1) mod 12 + 1) d * 86400 + s,
     tnsec = n, tzoff = 0\<rparr>"

text \<open>\<^verbatim>\<open>t.AddDate(0, k, 0)\<close> for a UTC time.\<close>

definition addMonths :: "int \<Rightarrow> gotime \<Rightarrow> gotime" where
  "addMonths k t = dateUTC (yearOf t) (monthOf t + k) (dayOf t) (clockOf t) (tnsec t)"

section \<open>Durations\<close>

text \<open>A duration is a 64-bit count of nanoseconds.\<close>

type_synonym duration = int

definition clamp64 :: "int \<Rightarrow> duration" where
  "clamp64 n = max (- (2 ^ 63)) (min (2 ^ 63 - 1) n)"

definition wrap64 :: "int \<Rightarrow> int" where
  "wrap64 n = (n + 2 ^ 63) mod 2 ^ 64 - 2 ^ 63"

definition nanos :: "gotime \<Rightarrow> int" where
  "nanos t = tsec t * 1000000000 + tnsec t"

text \<open>\<^verbatim>\<open>t.Sub(u)\<close> saturates; \<^verbatim>\<open>t.Add(d)\<close> keeps the zone.\<close>

definition subT :: "gotime \<Rightarrow> gotime \<Rightarrow> duration" where
  "subT t u = clamp64 (nanos t - nanos u)"

definition addT :: "gotime \<Rightarrow> duration \<Rightarrow> gotime" where
  "addT t d = t\<lparr>tsec := (nanos t + d) div 1000000000, tnsec := (nanos t + d) mod 1000000000\<rparr>"

text \<open>
  \<^verbatim>\<open>d.Hours()\<close> and \<^verbatim>\<open>d.Minutes()\<close>: the whole units and the rest are converted separately;
  Go's integer division truncates towards zero.
\<close>

definition unitsF :: "int \<Rightarrow> duration \<Rightarrow> f64" where
  "unitsF u d = i2f (d sdiv u) + i2f (d smod u) / i2f u"

definition hoursF :: "duration \<Rightarrow> f64" where
  "hoursF d = unitsF 3600000000000 d"

definition minutesF :: "duration \<Rightarrow> f64" where
  "minutesF d = unitsF 60000000000 d"

section \<open>Printing and parsing times\<close>

text \<open>Go zero-pads to the width; a longer number keeps all its digits.\<close>

definition padInt :: "nat \<Rightarrow> int \<Rightarrow> string" where
  "padInt w n =
    (if n < 0 then CHR ''-'' # (if - n < 10 ^ w then pad w (nat (- n)) else show_nat (nat (- n)))
     else if n < 10 ^ w then pad w (nat n) else show_nat (nat n))"

definition formatYM :: "gotime \<Rightarrow> string" where
  "formatYM t = padInt 4 (yearOf t) @ ''-'' @ padInt 2 (monthOf t)"

definition formatZone :: "int \<Rightarrow> string" where
  "formatZone off =
    (if off = 0 then ''Z''
     else (if off sdiv 60 < 0 then ''-'' else ''+'')
       @ padInt 2 (\<bar>off sdiv 60\<bar> div 60) @ '':'' @ padInt 2 (\<bar>off sdiv 60\<bar> mod 60))"

definition formatRFC3339 :: "gotime \<Rightarrow> string" where
  "formatRFC3339 t =
     padInt 4 (yearOf t) @ ''-'' @ padInt 2 (monthOf t) @ ''-'' @ padInt 2 (dayOf t) @ ''T''
     @ padInt 2 (clockOf t div 3600) @ '':'' @ padInt 2 (clockOf t div 60 mod 60) @ '':''
     @ padInt 2 (clockOf t mod 60) @ formatZone (tzoff t)"

text \<open>A field of digits within bounds.\<close>

definition numField :: "nat \<Rightarrow> nat \<Rightarrow> int \<Rightarrow> int \<Rightarrow> string \<Rightarrow> int option" where
  "numField a k lo hi s =
    (if list_all isDigit (take k (drop a s)) \<and> lo \<le> int (digits_val 0 (take k (drop a s)))
       \<and> int (digits_val 0 (take k (drop a s))) \<le> hi
     then Some (int (digits_val 0 (take k (drop a s)))) else None)"

text \<open>Fractional seconds: at most nine digits count, and at least one must follow the dot.\<close>

definition fracDigits :: "string \<Rightarrow> string" where
  "fracDigits s = (case s of c # t \<Rightarrow> if c = CHR ''.'' then takeWhile isDigit t else [] | [] \<Rightarrow> [])"

definition fracNanos :: "string \<Rightarrow> int" where
  "fracNanos ds = int (digits_val 0 (take 9 ds)) * 10 ^ (9 - length (take 9 ds))"

definition zoneOf :: "string \<Rightarrow> int option" where
  "zoneOf s =
    (if s = ''Z'' then Some 0
     else if length s = 6 \<and> s ! 0 \<in> {CHR ''+'', CHR ''-''} \<and> s ! 3 = CHR '':'' then
       (case numField 1 2 0 23 s of None \<Rightarrow> None
        | Some hr \<Rightarrow> (case numField 4 2 0 59 s of None \<Rightarrow> None
          | Some mm \<Rightarrow> Some ((if s ! 0 = CHR ''-'' then - 1 else 1) * ((hr * 60 + mm) * 60))))
     else None)"

definition timeWith :: "int \<Rightarrow> int \<Rightarrow> int \<Rightarrow> int \<Rightarrow> int \<Rightarrow> int \<Rightarrow> string \<Rightarrow> gotime option" where
  "timeWith y mo d h mi se rest =
    (case zoneOf (if fracDigits rest = [] then rest else drop (Suc (length (fracDigits rest))) rest) of
       None \<Rightarrow> None
     | Some off \<Rightarrow> Some \<lparr>tsec = days_from_civil y mo d * 86400 + (h * 3600 + mi * 60 + se) - off,
                        tnsec = fracNanos (fracDigits rest), tzoff = off\<rparr>)"

text \<open>
  \<^verbatim>\<open>time.Parse(time.RFC3339, s)\<close>, its strict grammar (Go falls back to a more lenient
  scanner that also takes a one-digit hour or a comma before the fraction; the operator
  writes neither).
\<close>

definition parseRFC3339 :: "string \<Rightarrow> gotime option" where
  "parseRFC3339 s =
    (if length s < 19 \<or> s ! 4 \<noteq> CHR ''-'' \<or> s ! 7 \<noteq> CHR ''-'' \<or> s ! 10 \<noteq> CHR ''T''
        \<or> s ! 13 \<noteq> CHR '':'' \<or> s ! 16 \<noteq> CHR '':'' then None
     else case numField 0 4 0 9999 s of None \<Rightarrow> None | Some y \<Rightarrow>
       (case numField 5 2 1 12 s of None \<Rightarrow> None | Some mo \<Rightarrow>
       (case numField 8 2 1 (daysIn y mo) s of None \<Rightarrow> None | Some d \<Rightarrow>
       (case numField 11 2 0 23 s of None \<Rightarrow> None | Some h \<Rightarrow>
       (case numField 14 2 0 59 s of None \<Rightarrow> None | Some mi \<Rightarrow>
       (case numField 17 2 0 59 s of None \<Rightarrow> None | Some se \<Rightarrow>
          timeWith y mo d h mi se (drop 19 s)))))))"

section \<open>\<open>time.ParseDuration\<close>\<close>

fun leadingInt :: "nat \<Rightarrow> string \<Rightarrow> nat option" where
  "leadingInt x [] = Some x"
| "leadingInt x (c # cs) =
    (if 2 ^ 63 div 10 < x \<or> 2 ^ 63 < 10 * x + digitVal c then None
     else leadingInt (10 * x + digitVal c) cs)"

text \<open>The digits after the dot, as \<open>f / scale\<close>; digits past the 63-bit range are dropped.\<close>

fun leadingFraction :: "nat \<Rightarrow> f64 \<Rightarrow> string \<Rightarrow> nat \<times> f64" where
  "leadingFraction x scale [] = (x, scale)"
| "leadingFraction x scale (c # cs) =
    (if (2 ^ 63 - 1) div 10 < x \<or> 2 ^ 63 < 10 * x + digitVal c then (x, scale)
     else leadingFraction (10 * x + digitVal c) (scale * i2f 10) cs)"

definition unitNs :: "string \<Rightarrow> nat option" where
  "unitNs u =
    (if u = ''ns'' then Some 1
     else if u = ''us'' \<or> u = [CHR 0xC2, CHR 0xB5, CHR ''s'']
        \<or> u = [CHR 0xCE, CHR 0xBC, CHR ''s''] then Some 1000
     else if u = ''ms'' then Some 1000000
     else if u = ''s'' then Some 1000000000
     else if u = ''m'' then Some 60000000000
     else if u = ''h'' then Some 3600000000000
     else None)"

definition isUnitChar :: "char \<Rightarrow> bool" where
  "isUnitChar c = (c \<noteq> CHR ''.'' \<and> \<not> isDigit c)"

text \<open>One \<open>number unit\<close> group: its nanoseconds and the rest of the input.\<close>

definition afterFrac :: "string \<Rightarrow> string" where
  "afterFrac s = (case s of c # t \<Rightarrow> if c = CHR ''.'' then dropWhile isDigit t else s | [] \<Rightarrow> [])"

definition fracNs :: "nat \<Rightarrow> string \<Rightarrow> nat" where
  "fracNs unit ds =
    (if fst (leadingFraction 0 (Fin 1) ds) = 0 then 0
     else nat (rtrunc (fval (i2f (int (fst (leadingFraction 0 (Fin 1) ds)))
            * (i2f (int unit) / snd (leadingFraction 0 (Fin 1) ds))))))"

definition groupNs :: "nat \<Rightarrow> string \<Rightarrow> string \<Rightarrow> nat option" where
  "groupNs v fr u =
    (case unitNs u of None \<Rightarrow> None
     | Some unit \<Rightarrow>
         if 2 ^ 63 div unit < v \<or> 2 ^ 63 < v * unit + fracNs unit fr then None
         else Some (v * unit + fracNs unit fr))"

definition durGroup :: "string \<Rightarrow> (nat \<times> string) option" where
  "durGroup s =
    (let ds = takeWhile isDigit s; s1 = dropWhile isDigit s;
         fr = fracDigits s1; s2 = afterFrac s1;
         u = takeWhile isUnitChar s2; s3 = dropWhile isUnitChar s2
     in if ds = [] \<and> fr = [] \<or> u = [] then None
        else case leadingInt 0 ds of None \<Rightarrow> None
          | Some v \<Rightarrow> (case groupNs v fr u of None \<Rightarrow> None | Some n \<Rightarrow> Some (n, s3)))"

text \<open>The groups are summed; every group consumes input, so the length bounds the loop.\<close>

fun durGroups :: "nat \<Rightarrow> nat \<Rightarrow> string \<Rightarrow> nat option" where
  "durGroups fuel d [] = Some d"
| "durGroups 0 d s = None"
| "durGroups (Suc fuel) d s =
    (case durGroup s of None \<Rightarrow> None
     | Some (n, rest) \<Rightarrow> if 2 ^ 63 < d + n then None else durGroups fuel (d + n) rest)"

definition unsignedDuration :: "bool \<Rightarrow> string \<Rightarrow> duration option" where
  "unsignedDuration neg s =
    (if s = ''0'' then Some 0
     else if s = [] then None
     else case durGroups (length s) 0 s of None \<Rightarrow> None
       | Some d \<Rightarrow> if neg then Some (- int d) else if 2 ^ 63 - 1 < d then None else Some (int d))"

definition ParseDuration :: "string \<Rightarrow> duration option" where
  "ParseDuration s =
    (case s of [] \<Rightarrow> None
     | c # t \<Rightarrow> if c = CHR ''-'' then unsignedDuration True t
               else if c = CHR ''+'' then unsignedDuration False t
               else unsignedDuration False s)"

section \<open>Facts about dates\<close>

lemma dateOf_valid:
  "1 \<le> monthOf t" "monthOf t \<le> 12" "1 \<le> dayOf t" "dayOf t \<le> 31"
  "dayOf t \<le> daysIn (yearOf t) (monthOf t)"
proof -
  obtain y m d where c: "civil_from_days (wall t div 86400) = (y, m, d)"
    by (metis prod_cases3)
  with civil_from_days_valid [OF c] civil_from_days_day [OF c]
  show "1 \<le> monthOf t" "monthOf t \<le> 12" "1 \<le> dayOf t" "dayOf t \<le> 31"
    "dayOf t \<le> daysIn (yearOf t) (monthOf t)"
    by (simp_all add: monthOf_def dayOf_def yearOf_def dateOf_def)
qed

lemma dateOf_days: "days_from_civil (yearOf t) (monthOf t) (dayOf t) = wall t div 86400"
  by (rule days_from_civil_from_days) (simp add: yearOf_def monthOf_def dayOf_def dateOf_def)

lemma daysIn_ge: "28 \<le> daysIn y m"
  by (simp add: daysIn_def)

text \<open>
  The first of a month made by \<^verbatim>\<open>time.Date\<close> has the carried year and month, day 1 and
  midnight for a clock.
\<close>

lemma dateUTC_first:
  fixes y m n :: int
  defines "y' \<equiv> y + (m - 1) div 12" and "m' \<equiv> (m - 1) mod 12 + 1"
  shows "yearOf (dateUTC y m 1 0 n) = y'" "monthOf (dateUTC y m 1 0 n) = m'"
    "dayOf (dateUTC y m 1 0 n) = 1" "clockOf (dateUTC y m 1 0 n) = 0"
proof -
  have m: "1 \<le> m'" "m' \<le> 12"
    using pos_mod_sign [of 12 "m - 1"] pos_mod_bound [of 12 "m - 1"] by (simp_all add: m'_def)
  have "(days_from_civil y' m' 1 * 86400) div 86400 = days_from_civil y' m' 1" by simp
  then have "dateOf (dateUTC y m 1 0 n) = (y', m', 1)"
    using civil_from_days_from_civil [of m' 1 y'] m daysIn_ge [of y' m']
    by (simp add: dateOf_def wall_def dateUTC_def y'_def m'_def)
  then show "yearOf (dateUTC y m 1 0 n) = y'" "monthOf (dateUTC y m 1 0 n) = m'"
    "dayOf (dateUTC y m 1 0 n) = 1"
    by (simp_all add: yearOf_def monthOf_def dayOf_def)
  show "clockOf (dateUTC y m 1 0 n) = 0"
    by (simp add: clockOf_def wall_def dateUTC_def)
qed

section \<open>RFC 3339 round trip\<close>

lemma numField_pad:
  assumes "take k (drop a s) = pad k n" and "n < 10 ^ k" and "lo \<le> int n" and "int n \<le> hi"
  shows "numField a k lo hi s = Some (int n)"
proof -
  have "list_all isDigit (pad k n)"
    by (auto simp: list_all_iff dest: set_pad)
  moreover have "digits_val 0 (pad k n) = n"
    using assms(2) by (simp add: digits_val_pad)
  ultimately show ?thesis
    using assms by (simp add: numField_def)
qed

lemma numField_padInt:
  assumes "take k (drop a s) = padInt k v" and "0 \<le> v" and "v < 10 ^ k" and "lo \<le> v" and "v \<le> hi"
  shows "numField a k lo hi s = Some v"
proof -
  from assms have "padInt k v = pad k (nat v)" by (simp add: padInt_def)
  moreover have "nat v < 10 ^ k" using assms by (simp add: nat_less_iff)
  ultimately show ?thesis
    using numField_pad [of k a s "nat v" lo hi] assms by simp
qed

lemma length_padInt: "0 \<le> v \<Longrightarrow> v < 10 ^ k \<Longrightarrow> length (padInt k v) = k"
  by (simp add: padInt_def)

lemma fracDigits_none:
  "fracDigits ''Z'' = []" "c \<noteq> CHR ''.'' \<Longrightarrow> fracDigits (c # t) = []"
  by (simp_all add: fracDigits_def)

lemma zoneOf_formatZone:
  assumes "off = 60 * k" and "\<bar>k\<bar> < 1440"
  shows "zoneOf (formatZone off) = Some off" and "fracDigits (formatZone off) = []"
proof -
  have sd: "off sdiv 60 = k"
    using assms(1) by (simp add: signed_divide_int_def sgn_mult abs_mult sgn_if)
  let ?h = "\<bar>k\<bar> div 60" and ?m = "\<bar>k\<bar> mod 60"
  let ?sg = "if k < 0 then CHR ''-'' else CHR ''+''"
  have h: "0 \<le> ?h" "?h \<le> 23" and m: "0 \<le> ?m" "?m \<le> 59"
    using assms(2) by auto
  have len: "length (padInt 2 ?h) = 2" "length (padInt 2 ?m) = 2"
    using h m by (auto intro!: length_padInt)
  show "fracDigits (formatZone off) = []"
    by (simp add: formatZone_def fracDigits_def)
  show "zoneOf (formatZone off) = Some off"
  proof (cases "off = 0")
    case True
    then show ?thesis by (simp add: formatZone_def zoneOf_def)
  next
    case False
    let ?s = "?sg # padInt 2 ?h @ CHR '':'' # padInt 2 ?m"
    have s: "formatZone off = ?s"
      using False by (simp add: formatZone_def sd)
    have f1: "numField 1 2 0 23 ?s = Some ?h"
      using h len by (intro numField_padInt) simp_all
    have f2: "numField 4 2 0 59 ?s = Some ?m"
      using m len by (intro numField_padInt) (simp_all add: drop_Cons')
    have "?s ! 3 = CHR '':''"
      using len by (simp add: nth_Cons' nth_append)
    moreover have "length ?s = 6" using len by simp
    ultimately have "zoneOf ?s = Some ((if k < 0 then - 1 else 1) * ((?h * 60 + ?m) * 60))"
      unfolding zoneOf_def f1 f2 by simp
    moreover have "(if k < 0 then - 1 else 1) * ((?h * 60 + ?m) * 60) = off"
      using assms(1) by (simp add: div_mult_mod_eq)
    ultimately show ?thesis by (simp only: s)
  qed
qed

text \<open>
  A printed instant is read back, at the precision of a second, wherever its year has at
  most four digits and its zone is a whole number of minutes.
\<close>

definition printable :: "gotime \<Rightarrow> bool" where
  "printable t = (0 \<le> yearOf t \<and> yearOf t \<le> 9999 \<and> tzoff t mod 60 = 0 \<and> \<bar>tzoff t\<bar> < 86400)"

lemma clock_parts:
  "0 \<le> clockOf t div 3600" "clockOf t div 3600 \<le> 23"
  "clockOf t div 3600 * 3600 + clockOf t div 60 mod 60 * 60 + clockOf t mod 60 = clockOf t"
proof -
  have c: "0 \<le> clockOf t" "clockOf t < 86400" by (simp_all add: clockOf_def)
  then show "0 \<le> clockOf t div 3600" by (simp add: pos_imp_zdiv_nonneg_iff)
  have "3600 * (clockOf t div 3600) \<le> clockOf t" by (rule div_bounds) simp
  with c show "clockOf t div 3600 \<le> 23" by simp
  have "clockOf t div 3600 = clockOf t div 60 div 60"
    by (simp add: zdiv_zmult2_eq [symmetric])
  then show "clockOf t div 3600 * 3600 + clockOf t div 60 mod 60 * 60 + clockOf t mod 60 = clockOf t"
    using mult_div_mod_eq [of 60 "clockOf t"] mult_div_mod_eq [of 60 "clockOf t div 60"] by linarith
qed

lemma parse_format:
  assumes "printable t"
  shows "parseRFC3339 (formatRFC3339 t) = Some (t\<lparr>tnsec := 0\<rparr>)"
proof -
  define y mo d h mi se where v: "y = yearOf t" "mo = monthOf t" "d = dayOf t"
    "h = clockOf t div 3600" "mi = clockOf t div 60 mod 60" "se = clockOf t mod 60"
  define z where "z = formatZone (tzoff t)"
  define s where "s = padInt 4 y @ ''-'' @ padInt 2 mo @ ''-'' @ padInt 2 d @ ''T''
     @ padInt 2 h @ '':'' @ padInt 2 mi @ '':'' @ padInt 2 se @ z"
  have fmt: "formatRFC3339 t = s" by (simp add: formatRFC3339_def s_def v z_def)
  have y: "0 \<le> y" "y \<le> 9999" using assms by (simp_all add: printable_def v)
  have mo: "1 \<le> mo" "mo \<le> 12" and d: "1 \<le> d" "d \<le> 31" "d \<le> daysIn y mo"
    using dateOf_valid [of t] by (simp_all add: v)
  have h: "0 \<le> h" "h \<le> 23" and mi: "0 \<le> mi" "mi \<le> 59" and se: "0 \<le> se" "se \<le> 59"
    using clock_parts(1,2) [of t] by (simp_all add: v)
  have len: "length (padInt 4 y) = 4" "length (padInt 2 mo) = 2" "length (padInt 2 d) = 2"
    "length (padInt 2 h) = 2" "length (padInt 2 mi) = 2" "length (padInt 2 se) = 2"
    using y mo d h mi se by (auto intro!: length_padInt)
  have fields:
    "numField 0 4 0 9999 s = Some y" "numField 5 2 1 12 s = Some mo"
    "numField 8 2 1 (daysIn y mo) s = Some d" "numField 11 2 0 23 s = Some h"
    "numField 14 2 0 59 s = Some mi" "numField 17 2 0 59 s = Some se"
    by (rule numField_padInt; use y mo d h mi se len in \<open>simp add: s_def\<close>)+
  have seps: "s ! 4 = CHR ''-''" "s ! 7 = CHR ''-''" "s ! 10 = CHR ''T''" "s ! 13 = CHR '':''"
    "s ! 16 = CHR '':''" "\<not> length s < 19" "drop 19 s = z"
    using len by (simp_all add: s_def nth_append)
  obtain k where k: "tzoff t = 60 * k" using assms by (auto simp: printable_def)
  with assms have "\<bar>k\<bar> < 1440" by (simp add: printable_def abs_mult)
  note zone = zoneOf_formatZone [OF k this, folded z_def]
  have "timeWith y mo d h mi se z = Some (t\<lparr>tnsec := 0\<rparr>)"
  proof -
    have "days_from_civil y mo d * 86400 + (h * 3600 + mi * 60 + se) = wall t"
      using dateOf_days [of t] clock_parts(3) [of t] div_mult_mod_eq [of "wall t" 86400]
      by (simp add: v clockOf_def)
    then show ?thesis
      by (simp add: timeWith_def zone fracNanos_def wall_def)
  qed
  with fields seps show ?thesis
    by (simp add: fmt parseRFC3339_def)
qed

end
