(* ===== verification/Api.thy ===== *)
theory Api
  imports GoTime
begin

text \<open>
  The API types of \<^verbatim>\<open>api/v1alpha1\<close>, the part of a Kubernetes Deployment the operator reads and
  writes, and the world the operator runs in: the record \<open>env\<close> of every operation that
  leaves the process (Kubernetes client, Prometheus, Slack, clock) or that the language
  leaves unspecified (iteration order of a map, out-of-range float conversion). What the
  code relies on of the world is stated as the assumptions of the locales at the end.
\<close>

section \<open>NamespaceBudget\<close>

record Usage =
  uCpu :: string
  uMemory :: string

record IdleThreshold =
  itCpuPercent :: "64 word"
  itWindow :: string

record Action =
  aNotify :: string
  aScaleDownIdle :: bool
  aSuspendAll :: bool

record Actions =
  onWarning :: "Action list"
  onExceeded :: "Action list"
  onHardLimit :: "Action list"

text \<open>A label selector is the type \<open>'sel\<close>: its semantics belongs to the Kubernetes library.\<close>

record 'sel Exclusion =
  exName :: string
  exLabelSelector :: "'sel option"

record 'sel NamespaceBudgetSpec =
  sMonthly :: Usage
  sIdleThreshold :: IdleThreshold
  sActions :: Actions
  sExclusions :: "'sel Exclusion list"

record Condition =
  cType :: string
  cStatus :: string
  cReason :: string
  cMessage :: string
  cLastTransitionTime :: gotime

record IdleWorkloadStatus =
  iwName :: string
  iwNamespace :: string
  iwIdleSince :: gotime

record AccumulatedUsage =
  acCoreHours :: string
  acGiBHours :: string
  acSince :: string

record NamespaceBudgetStatus =
  stPhase :: string
  stCurrentUsage :: Usage
  stAccumulated :: AccumulatedUsage
  stLastReconcile :: gotime
  stBudgetPercent :: "64 word"
  stIdleWorkloads :: "IdleWorkloadStatus list"
  stLastReportRef :: string
  stConditions :: "Condition list"

record 'sel NamespaceBudget =
  nbName :: string
  nbNamespace :: string
  nbDeletionTimestamp :: "gotime option"
  nbFinalizers :: "string list"
  nbResourceVersion :: string
  nbSpec :: "'sel NamespaceBudgetSpec"
  nbStatus :: NamespaceBudgetStatus

text \<open>\<^verbatim>\<open>DeletionTimestamp.IsZero()\<close> holds of a nil pointer and of the zero time.\<close>

definition beingDeleted :: "'sel NamespaceBudget \<Rightarrow> bool" where
  "beingDeleted b =
    (case nbDeletionTimestamp b of None \<Rightarrow> False | Some t \<Rightarrow> \<not> isZeroTime t)"

section \<open>CostReport\<close>

record TotalCost =
  tcCoreHours :: string
  tcGiBHours :: string
  tcEstimatedUSD :: string

record TopConsumer =
  tpWorkload :: string
  tpCPUPercent :: "64 word"
  tpMemoryPercent :: "64 word"
  tpEstimatedUSD :: string

record IdleEvent =
  ieWorkload :: string
  ieScaledDownAt :: string
  ieEstimatedSaved :: string

record SuspensionEvent =
  seWorkload :: string
  seScaledDownAt :: string
  seReason :: string

record CostReportStatus =
  rsPeriod :: string
  rsNameSpace :: string
  rsTotalCost :: TotalCost
  rsTopConsumers :: "TopConsumer list"
  rsIdleEvents :: "IdleEvent list"
  rsSuspendedEvents :: "SuspensionEvent list"
  rsConditions :: "Condition list"

record CostReport =
  crName :: string
  crNamespace :: string
  crStatus :: CostReportStatus

text \<open>The zero value of a report status, as Go initialises it.\<close>

definition emptyReportStatus :: CostReportStatus where
  "emptyReportStatus = \<lparr>rsPeriod = [], rsNameSpace = [],
     rsTotalCost = \<lparr>tcCoreHours = [], tcGiBHours = [], tcEstimatedUSD = []\<rparr>,
     rsTopConsumers = [], rsIdleEvents = [], rsSuspendedEvents = [], rsConditions = []\<rparr>"

section \<open>Deployments\<close>

text \<open>
  The fields of \<^verbatim>\<open>appsv1.Deployment\<close> the operator touches. A nil annotation map is \<open>None\<close>,
  a nil replica count (the API default applies) is \<open>None\<close> too.
\<close>

type_synonym strmap = "string \<rightharpoonup> string"

record deployment =
  dName :: string
  dNamespace :: string
  dLabels :: strmap
  dAnnotations :: "strmap option"
  dReplicas :: "32 word option"

type_synonym objkey = "string \<times> string"

definition dkey :: "deployment \<Rightarrow> objkey" where
  "dkey d = (dNamespace d, dName d)"

text \<open>Reading a nil map finds nothing.\<close>

definition annOf :: "deployment \<Rightarrow> strmap" where
  "annOf d = (case dAnnotations d of None \<Rightarrow> Map.empty | Some m \<Rightarrow> m)"

text \<open>
  What survives the wire of a deployment: an empty annotation map and a nil one are the
  same JSON.
\<close>

definition depEq :: "deployment \<Rightarrow> deployment \<Rightarrow> bool" where
  "depEq d e \<longleftrightarrow> dName d = dName e \<and> dNamespace d = dNamespace e \<and> dLabels d = dLabels e
     \<and> annOf d = annOf e \<and> dReplicas d = dReplicas e"

lemma depEq_refl [simp]: "depEq d d"
  by (simp add: depEq_def)

lemma depEq_sym: "depEq d e \<Longrightarrow> depEq e d"
  by (simp add: depEq_def)

lemma depEq_trans: "depEq d e \<Longrightarrow> depEq e f \<Longrightarrow> depEq d f"
  by (simp add: depEq_def)

lemma depEq_dkey: "depEq d e \<Longrightarrow> dkey d = dkey e"
  by (simp add: depEq_def dkey_def)

section \<open>Prometheus and Slack on the wire\<close>

text \<open>
  A decoded JSON value (Go's \<^verbatim>\<open>any\<close>), and the decoded body of a Prometheus answer. The HTTP
  exchange either fails before an answer (bad URL, bad request, transport), or answers
  with a status code, and a body that decodes or does not.
\<close>

datatype any = JNull | JBool bool | JNum f64 | JStr string | JArr "any list"
  | JObj "(string \<times> any) list"

record promSeries =
  psMetric :: strmap
  psValues :: "any list list"
  psValue :: "any list"

record promData =
  pdResultType :: string
  pdResult :: "promSeries list"

record promResp =
  prStatus :: string
  prData :: "promData option"
  prError :: string

text \<open>What the HTTP client of Go answers when there is no answer, and the decoder of JSON, with the cause.\<close>

datatype transport = BadURL error | BadRequest error | DoFailed error

record httpAnswer =
  haCode :: int
  haBody :: string
  haDecoded :: "promResp result"

record SlackField =
  sfTitle :: string
  sfValue :: string
  sfShort :: bool

record SlackAttachment =
  slColor :: string
  slFields :: "SlackField list"

record SlackMessage =
  smText :: string
  smAttachments :: "SlackAttachment list"

section \<open>Merge patches\<close>

text \<open>
  \<^verbatim>\<open>client.MergeFrom(base)\<close> sends the JSON merge patch that turns \<open>base\<close> into the object
  at hand; the server applies it to the object it holds. A field (an annotation key) the
  two agree on is left alone, any other one is overwritten or removed.
\<close>

definition mergePatch :: "deployment \<Rightarrow> deployment \<Rightarrow> deployment \<Rightarrow> deployment" where
  "mergePatch base new s = s\<lparr>
     dAnnotations := Some (\<lambda>k. if annOf base k = annOf new k then annOf s k else annOf new k),
     dReplicas := (if dReplicas base = dReplicas new then dReplicas s else dReplicas new)\<rparr>"

lemma annOf_mergePatch:
  "annOf (mergePatch b n s) k = (if annOf b k = annOf n k then annOf s k else annOf n k)"
  by (simp add: mergePatch_def annOf_def)

lemma mergePatch_simps [simp]:
  "dName (mergePatch b n s) = dName s"
  "dNamespace (mergePatch b n s) = dNamespace s"
  "dLabels (mergePatch b n s) = dLabels s"
  "dkey (mergePatch b n s) = dkey s"
  "dReplicas (mergePatch b n s) = (if dReplicas b = dReplicas n then dReplicas s else dReplicas n)"
  by (simp_all add: mergePatch_def dkey_def)

text \<open>Applied to the object it was computed from, the patch gives the intended object.\<close>

lemma mergePatch_base:
  assumes "depEq s b" and "dName n = dName b" and "dNamespace n = dNamespace b"
    and "dLabels n = dLabels b"
  shows "depEq (mergePatch b n s) n"
  using assms by (auto simp: depEq_def annOf_mergePatch fun_eq_iff)

section \<open>The world\<close>

text \<open>
  One field per operation the code performs outside its own memory. \<open>eRange\<close> is the
  order in which \<^verbatim>\<open>range\<close> visits a map; \<open>eFloatToInt\<close> is \<^verbatim>\<open>int(x)\<close> where the language
  leaves the result to the implementation; \<open>eZone\<close> is the offset of the local time zone
  at an instant; \<open>eQuoteRunes\<close> is how \<^verbatim>\<open>%q\<close> writes bytes outside ASCII. \<open>eSort n lt\<close> is the permutation of the
  indices below \<open>n\<close> that \<^verbatim>\<open>sort.Slice\<close> chooses: its order on equal elements is
  unspecified. A selector that does not convert is \<open>None\<close>.
\<close>

record ('w, 'sel) env =
  eNow :: "('w, gotime) io"
  eGetDeployment :: "string \<Rightarrow> string \<Rightarrow> ('w, kerr + deployment) io"
  eListDeployments :: "string \<Rightarrow> ('w, kerr + deployment list) io"
  ePatchDeployment :: "deployment \<Rightarrow> deployment \<Rightarrow> ('w, kerr + deployment) io"
  eGetBudget :: "string \<Rightarrow> string \<Rightarrow> ('w, kerr + 'sel NamespaceBudget) io"
  eUpdateBudget :: "'sel NamespaceBudget \<Rightarrow> ('w, kerr option) io"
  eUpdateBudgetStatus :: "'sel NamespaceBudget \<Rightarrow> ('w, kerr option) io"
  eGetReport :: "string \<Rightarrow> string \<Rightarrow> ('w, kerr + CostReport) io"
  eListReports :: "string \<Rightarrow> ('w, kerr + CostReport list) io"
  eCreateReport :: "CostReport \<Rightarrow> ('w, kerr + CostReport) io"
  eUpdateReportStatus :: "CostReport \<Rightarrow> ('w, kerr option) io"
  eRetryOnConflict :: "('w, kerr option) io \<Rightarrow> ('w, kerr option) io"
  ePromGet :: "string \<Rightarrow> string \<Rightarrow> ('w, transport + httpAnswer) io"
  eSlackPost :: "string \<Rightarrow> SlackMessage \<Rightarrow> ('w, transport + int) io"
  eRange :: "(string \<times> f64) list \<Rightarrow> ('w, (string \<times> f64) list) io"
  eSort :: "nat \<Rightarrow> (nat \<Rightarrow> nat \<Rightarrow> bool) \<Rightarrow> nat list"
  eSelector :: "'sel \<Rightarrow> (strmap \<Rightarrow> bool) option"
  eFloatToInt :: "f64 \<Rightarrow> 64 word"
  eZone :: "int \<Rightarrow> int"
  eQuoteRunes :: "string \<Rightarrow> string"
  eContainsFinalizer :: "string list \<Rightarrow> string \<Rightarrow> bool"
  eAddFinalizer :: "string list \<Rightarrow> string \<Rightarrow> string list"
  eRemoveFinalizer :: "string list \<Rightarrow> string \<Rightarrow> string list"

definition sortSlice :: "('w, 'sel) env \<Rightarrow> ('a \<Rightarrow> 'a \<Rightarrow> bool) \<Rightarrow> 'a list \<Rightarrow> 'a list" where
  "sortSlice E lt xs = map ((!) xs) (eSort E (length xs) (\<lambda>i j. lt (xs ! i) (xs ! j)))"

text \<open>
  What survives the wire of a budget status: a \<^verbatim>\<open>metav1.Time\<close> is written with a resolution
  of one second.
\<close>

definition wireTime :: "gotime \<Rightarrow> gotime" where
  "wireTime t = t\<lparr>tnsec := 0\<rparr>"

definition wireStatus :: "NamespaceBudgetStatus \<Rightarrow> NamespaceBudgetStatus" where
  "wireStatus st = st\<lparr>
     stLastReconcile := wireTime (stLastReconcile st),
     stIdleWorkloads := map (\<lambda>i. i\<lparr>iwIdleSince := wireTime (iwIdleSince i)\<rparr>) (stIdleWorkloads st),
     stConditions := map (\<lambda>c. c\<lparr>cLastTransitionTime := wireTime (cLastTransitionTime c)\<rparr>)
       (stConditions st)\<rparr>"

text \<open>
  \<open>retryN n f\<close> runs \<open>f\<close> until it answers something other than a conflict, at most
  \<open>n + 1\<close> times, and answers its last answer.
\<close>

fun retryN :: "nat \<Rightarrow> ('w, kerr option) io \<Rightarrow> ('w, kerr option) io" where
  "retryN 0 f = f"
| "retryN (Suc n) f = do {
     r \<leftarrow> f;
     if r = Some Conflict then retryN n f else State_Monad.return r }"

lemma keeps_retryN:
  assumes "transp R" and "reflp R" and "keeps R f"
  shows "keeps R (retryN n f)"
  using assms by (induction n) (auto intro!: keeps_bind keeps_return)

section \<open>What the code relies on of the world\<close>

text \<open>
  What the two writes of a budget do to the stored budgets, under optimistic concurrency:
  \<^verbatim>\<open>Update\<close> replaces metadata and spec (and completes a deletion whose last finalizer goes),
  \<^verbatim>\<open>Status().Update\<close> the status only.
\<close>

definition budgetUpdated ::
  "(objkey \<rightharpoonup> 'sel NamespaceBudget) \<Rightarrow> 'sel NamespaceBudget \<Rightarrow> (objkey \<rightharpoonup> 'sel NamespaceBudget) \<Rightarrow> bool"
where
  "budgetUpdated m nb m' \<longleftrightarrow>
    (\<exists>s. m (nbNamespace nb, nbName nb) = Some s \<and> nbResourceVersion nb = nbResourceVersion s \<and>
      (if beingDeleted s \<and> nbFinalizers nb = [] then m' = m((nbNamespace nb, nbName nb) := None)
       else \<exists>v. m' = m((nbNamespace nb, nbName nb) \<mapsto>
         s\<lparr>nbFinalizers := nbFinalizers nb, nbSpec := nbSpec nb, nbResourceVersion := v\<rparr>)))"

definition statusUpdated ::
  "(objkey \<rightharpoonup> 'sel NamespaceBudget) \<Rightarrow> 'sel NamespaceBudget \<Rightarrow> (objkey \<rightharpoonup> 'sel NamespaceBudget) \<Rightarrow> bool"
where
  "statusUpdated m nb m' \<longleftrightarrow>
    (\<exists>s v. m (nbNamespace nb, nbName nb) = Some s \<and> nbResourceVersion nb = nbResourceVersion s \<and>
      m' = m((nbNamespace nb, nbName nb) \<mapsto>
        s\<lparr>nbStatus := wireStatus (nbStatus nb), nbResourceVersion := v\<rparr>))"

text \<open>
  The deployments an API server holds, as the view \<open>deps\<close> of the world. A read returns
  what is stored; a list returns every Deployment of the namespace once; a patch applies
  the merge patch to the stored object. A patch that answers an error may still have been
  applied (the answer was lost on the way).
\<close>

locale deployment_api =
  fixes E :: "('w, 'sel) env"
    and deps :: "'w \<Rightarrow> objkey \<rightharpoonup> deployment"
  assumes stored_key: "deps w k = Some d \<Longrightarrow> dkey d = k"
    and get_ok: "run_state (eGetDeployment E ns n) w = (Inr d, w') \<Longrightarrow> deps w (ns, n) = Some d"
    and get_missing: "run_state (eGetDeployment E ns n) w = (Inl NotFound, w') \<Longrightarrow>
      deps w (ns, n) = None"
    and get_frame: "keeps (\<lambda>w w'. deps w' = deps w) (eGetDeployment E ns n)"
    and list_ok: "run_state (eListDeployments E ns) w = (Inr ds, w') \<Longrightarrow>
      set ds = {d. \<exists>n. deps w (ns, n) = Some d} \<and> distinct (map dName ds)"
    and list_frame: "keeps (\<lambda>w w'. deps w' = deps w) (eListDeployments E ns)"
    and patch_ok: "run_state (ePatchDeployment E b q) w = (Inr d, w') \<Longrightarrow>
      \<exists>s. deps w (dkey b) = Some s \<and> depEq d (mergePatch b q s) \<and>
          deps w' = (deps w)(dkey b \<mapsto> d)"
    and patch_err: "run_state (ePatchDeployment E b q) w = (Inl e, w') \<Longrightarrow>
      deps w' = deps w \<or>
      (\<exists>s d. deps w (dkey b) = Some s \<and> depEq d (mergePatch b q s) \<and>
          deps w' = (deps w)(dkey b \<mapsto> d))"
    and now_frame: "keeps (\<lambda>w w'. deps w' = deps w) (eNow E)"

text \<open>
  An API server that is up: it answers every read, and every patch of a Deployment that
  exists. Only statements on progress rest on it.
\<close>

locale reliable_api = deployment_api +
  assumes get_up: "deps w (ns, n) \<noteq> None \<Longrightarrow> \<exists>d. fst (run_state (eGetDeployment E ns n) w) = Inr d"
    and list_up: "\<exists>ds. fst (run_state (eListDeployments E ns) w) = Inr ds"
    and patch_up: "deps w (dkey b) \<noteq> None \<Longrightarrow>
      \<exists>d. fst (run_state (ePatchDeployment E b q) w) = Inr d"

text \<open>
  The rest of the cluster: budgets with a status subresource and optimistic concurrency,
  reports, the log of Slack posts. \<open>same\<close> says that two worlds hold the same objects.
\<close>

locale cluster = deployment_api E deps
  for E :: "('w, 'sel) env" and deps :: "'w \<Rightarrow> objkey \<rightharpoonup> deployment" +
  fixes buds :: "'w \<Rightarrow> objkey \<rightharpoonup> 'sel NamespaceBudget"
    and reps :: "'w \<Rightarrow> objkey \<rightharpoonup> CostReport"
    and slack :: "'w \<Rightarrow> SlackMessage list"
    and same :: "'w \<Rightarrow> 'w \<Rightarrow> bool"
  assumes same_def: "same w w' \<longleftrightarrow>
      deps w' = deps w \<and> buds w' = buds w \<and> reps w' = reps w \<and> slack w' = slack w"
    and now_same: "keeps same (eNow E)"
    and get_same: "keeps same (eGetDeployment E ns n)"
    and list_same: "keeps same (eListDeployments E ns)"
    and patch_same: "keeps (\<lambda>w w'. buds w' = buds w \<and> reps w' = reps w \<and> slack w' = slack w)
      (ePatchDeployment E b d)"
    and prom_same: "keeps same (ePromGet E u q)"
    and range_same: "keeps same (eRange E m)"
    and range_perm: "run_state (eRange E m) w = (m', w') \<Longrightarrow> mset m' = mset m"
    and budget_same: "keeps same (eGetBudget E ns n)"
    and budget_ok: "run_state (eGetBudget E ns n) w = (Inr nb, w') \<Longrightarrow> buds w (ns, n) = Some nb"
    and budget_missing: "run_state (eGetBudget E ns n) w = (Inl NotFound, w') \<Longrightarrow>
      buds w (ns, n) = None"
    and budget_key: "buds w (ns, n) = Some nb \<Longrightarrow> nbNamespace nb = ns \<and> nbName nb = n"
    and update_frame: "keeps (\<lambda>w w'. deps w' = deps w \<and> reps w' = reps w \<and> slack w' = slack w)
      (eUpdateBudget E nb)"
    and update_ok: "run_state (eUpdateBudget E nb) w = (None, w') \<Longrightarrow>
      budgetUpdated (buds w) nb (buds w')"
    and update_err: "run_state (eUpdateBudget E nb) w = (Some e, w') \<Longrightarrow>
      buds w' = buds w \<or> budgetUpdated (buds w) nb (buds w')"
    and status_frame: "keeps (\<lambda>w w'. deps w' = deps w \<and> reps w' = reps w \<and> slack w' = slack w)
      (eUpdateBudgetStatus E nb)"
    and status_ok: "run_state (eUpdateBudgetStatus E nb) w = (None, w') \<Longrightarrow>
      statusUpdated (buds w) nb (buds w')"
    and status_err: "run_state (eUpdateBudgetStatus E nb) w = (Some e, w') \<Longrightarrow>
      buds w' = buds w \<or> statusUpdated (buds w) nb (buds w')"
    and retry: "\<exists>n. run_state (eRetryOnConflict E f) w = run_state (retryN n f) w"
    and report_same: "keeps same (eGetReport E ns n)"
    and report_ok: "run_state (eGetReport E ns n) w = (Inr rep, w') \<Longrightarrow> reps w (ns, n) = Some rep"
    and report_missing: "run_state (eGetReport E ns n) w = (Inl NotFound, w') \<Longrightarrow>
      reps w (ns, n) = None"
    and reports_same: "keeps same (eListReports E ns)"
    and reports_ok: "run_state (eListReports E ns) w = (Inr rs, w') \<Longrightarrow>
      set rs = {rep. \<exists>n. reps w (ns, n) = Some rep}"
    and create_frame: "keeps (\<lambda>w w'. deps w' = deps w \<and> buds w' = buds w \<and> slack w' = slack w)
      (eCreateReport E rep)"
    and create_ok: "run_state (eCreateReport E rep) w = (Inr rep', w') \<Longrightarrow>
      reps w (crNamespace rep, crName rep) = None \<and> rep' = rep\<lparr>crStatus := emptyReportStatus\<rparr> \<and>
      reps w' = (reps w)((crNamespace rep, crName rep) \<mapsto> rep')"
    and create_err: "run_state (eCreateReport E rep) w = (Inl e, w') \<Longrightarrow>
      reps w' = reps w \<or> reps w (crNamespace rep, crName rep) = None \<and>
      reps w' = (reps w)((crNamespace rep, crName rep) \<mapsto> rep\<lparr>crStatus := emptyReportStatus\<rparr>)"
    and repstatus_frame: "keeps (\<lambda>w w'. deps w' = deps w \<and> buds w' = buds w \<and> slack w' = slack w)
      (eUpdateReportStatus E rep)"
    and repstatus_ok: "run_state (eUpdateReportStatus E rep) w = (None, w') \<Longrightarrow>
      reps w (crNamespace rep, crName rep) \<noteq> None \<and>
      reps w' = (reps w)((crNamespace rep, crName rep) \<mapsto> rep)"
    and repstatus_err: "run_state (eUpdateReportStatus E rep) w = (Some e, w') \<Longrightarrow>
      reps w' = reps w \<or> reps w (crNamespace rep, crName rep) \<noteq> None \<and>
      reps w' = (reps w)((crNamespace rep, crName rep) \<mapsto> rep)"
    and slack_frame: "keeps (\<lambda>w w'. deps w' = deps w \<and> buds w' = buds w \<and> reps w' = reps w)
      (eSlackPost E u msg)"
    and slack_log: "run_state (eSlackPost E u msg) w = (z, w') \<Longrightarrow>
      slack w' = slack w \<or> slack w' = slack w @ [msg]"

text \<open>The rest of the language runtime and of the Kubernetes helpers.\<close>

locale go_runtime =
  fixes E :: "('w, 'sel) env"
  assumes sort_perm: "mset (eSort E n lt) = mset [0..<n]"
    and sort_sorted: "\<lbrakk>\<And>i. i < n \<Longrightarrow> \<not> lt i i;
       \<And>i j k. \<lbrakk>i < n; j < n; k < n; lt i j; lt j k\<rbrakk> \<Longrightarrow> lt i k;
       \<And>i j k. \<lbrakk>i < n; j < n; k < n; \<not> lt i j; \<not> lt j k\<rbrakk> \<Longrightarrow> \<not> lt i k\<rbrakk>
      \<Longrightarrow> sorted_wrt (\<lambda>i j. \<not> lt j i) (eSort E n lt)"
    and contains_finalizer: "eContainsFinalizer E fs f \<longleftrightarrow> f \<in> set fs"
    and add_finalizer: "set (eAddFinalizer E fs f) = insert f (set fs)"
    and remove_finalizer: "set (eRemoveFinalizer E fs f) = set fs - {f}"
begin

lemma sortSlice_mset: "mset (sortSlice E lt xs) = mset xs"
proof -
  have "mset (sortSlice E lt xs) = image_mset ((!) xs) (mset [0..<length xs])"
    unfolding sortSlice_def mset_map by (simp add: sort_perm)
  also have "\<dots> = mset (map ((!) xs) [0..<length xs])"
    by (simp only: mset_map)
  finally show ?thesis
    by (simp only: map_nth)
qed

lemma sortSlice_length: "length (sortSlice E lt xs) = length xs"
  using sortSlice_mset by (metis size_mset)

lemma sortSlice_sorted:
  assumes "\<And>a. a \<in> set xs \<Longrightarrow> \<not> lt a a"
    and "\<And>a b c. \<lbrakk>a \<in> set xs; b \<in> set xs; c \<in> set xs; lt a b; lt b c\<rbrakk> \<Longrightarrow> lt a c"
    and "\<And>a b c. \<lbrakk>a \<in> set xs; b \<in> set xs; c \<in> set xs; \<not> lt a b; \<not> lt b c\<rbrakk> \<Longrightarrow> \<not> lt a c"
  shows "sorted_wrt (\<lambda>a b. \<not> lt b a) (sortSlice E lt xs)"
proof -
  have "sorted_wrt (\<lambda>i j. \<not> lt (xs ! j) (xs ! i))
      (eSort E (length xs) (\<lambda>i j. lt (xs ! i) (xs ! j)))"
    by (rule sort_sorted) (meson assms nth_mem)+
  then show ?thesis
    by (simp add: sortSlice_def sorted_wrt_map)
qed

end

section \<open>Composing frames\<close>

lemma transp_view: "transp (\<lambda>w w'. v w' = v w)" and reflp_view: "reflp (\<lambda>w w'. v w' = v w)"
  by (auto simp: transp_def reflp_def)

end
