(* ===== verification/MemCluster.thy ===== *)
theory MemCluster
  imports Api
begin

text \<open>
  A concrete world: an API server held in memory, with a clock, a queue of Prometheus
  answers, a log of Slack posts, the lines printed on a terminal and a script of faults. It discharges every assumption the
  development makes about the outside, so that none of them is vacuous, and it is the
  world the concrete runs are evaluated in.
\<close>

section \<open>State\<close>

text \<open>
  One entry of the fault script is used per write: the write is done, is refused with an
  error, or is done while the caller sees an error.
\<close>

datatype fault = Serve | Refuse kerr | Lose kerr

type_synonym labelSel = "(string \<times> string) list"

record mem =
  mClock :: gotime
  mTick :: int
  mDeps :: "deployment list"
  mBuds :: "labelSel NamespaceBudget list"
  mReps :: "CostReport list"
  mSlack :: "SlackMessage list"
  mFaults :: "fault list"
  mProm :: "(transport + httpAnswer) list"
  mVer :: nat
  mOut :: "string list"

definition memDeps :: "mem \<Rightarrow> objkey \<rightharpoonup> deployment" where
  "memDeps w k = find (\<lambda>d. dkey d = k) (mDeps w)"

definition budKey :: "'sel NamespaceBudget \<Rightarrow> objkey" where
  "budKey b = (nbNamespace b, nbName b)"

definition repKey :: "CostReport \<Rightarrow> objkey" where
  "repKey r = (crNamespace r, crName r)"

definition memBuds :: "mem \<Rightarrow> objkey \<rightharpoonup> labelSel NamespaceBudget" where
  "memBuds w k = find (\<lambda>b. budKey b = k) (mBuds w)"

definition memReps :: "mem \<Rightarrow> objkey \<rightharpoonup> CostReport" where
  "memReps w k = find (\<lambda>r. repKey r = k) (mReps w)"

definition memSame :: "mem \<Rightarrow> mem \<Rightarrow> bool" where
  "memSame w w' = (memDeps w' = memDeps w \<and> memBuds w' = memBuds w \<and> memReps w' = memReps w
     \<and> mSlack w' = mSlack w)"

text \<open>Storing by key: the new object goes in front, the old one leaves.\<close>

definition put :: "('a \<Rightarrow> objkey) \<Rightarrow> 'a \<Rightarrow> 'a list \<Rightarrow> 'a list" where
  "put key x xs = x # filter (\<lambda>y. key y \<noteq> key x) xs"

lemma find_filter: "find P (filter Q xs) = find (\<lambda>x. Q x \<and> P x) xs"
  by (induction xs) auto

lemma find_cong_pred: "(\<And>x. P x = Q x) \<Longrightarrow> find P xs = find Q xs"
  by (induction xs) auto

lemma find_put:
  "(\<lambda>k. find (\<lambda>y. key y = k) (put key x xs)) = (\<lambda>k. find (\<lambda>y. key y = k) xs)(key x \<mapsto> x)"
proof
  fix k
  show "find (\<lambda>y. key y = k) (put key x xs) = ((\<lambda>k. find (\<lambda>y. key y = k) xs)(key x \<mapsto> x)) k"
    by (auto simp: put_def find_filter intro: find_cong_pred)
qed

lemma find_delete:
  "(\<lambda>k. find (\<lambda>y. key y = k) (filter (\<lambda>y. key y \<noteq> j) xs)) =
   (\<lambda>k. find (\<lambda>y. key y = k) xs)(j := None)"
proof
  fix k
  show "find (\<lambda>y. key y = k) (filter (\<lambda>y. key y \<noteq> j) xs) =
    ((\<lambda>k. find (\<lambda>y. key y = k) xs)(j := None)) k"
    by (auto simp: find_filter find_None_iff intro: find_cong_pred)
qed

section \<open>Operations\<close>

definition hdFault :: "mem \<Rightarrow> fault" where
  "hdFault w = (case mFaults w of [] \<Rightarrow> Serve | f # _ \<Rightarrow> f)"

definition popFault :: "mem \<Rightarrow> mem" where
  "popFault w = w\<lparr>mFaults := tl (mFaults w)\<rparr>"

text \<open>A write that would succeed with answer \<open>ok\<close> in the world \<open>w1\<close>, under the fault script.\<close>

definition written :: "mem \<Rightarrow> mem \<Rightarrow> 'a \<Rightarrow> (kerr \<Rightarrow> 'a) \<Rightarrow> 'a \<times> mem" where
  "written w w1 ok err =
    (case hdFault w of
       Serve \<Rightarrow> (ok, popFault w1)
     | Refuse e \<Rightarrow> (err e, popFault w)
     | Lose e \<Rightarrow> (err e, popFault w1))"

definition lookupOr404 :: "'a option \<Rightarrow> kerr + 'a" where
  "lookupOr404 x = (case x of None \<Rightarrow> Inl NotFound | Some a \<Rightarrow> Inr a)"

definition memList :: "mem \<Rightarrow> string \<Rightarrow> deployment list" where
  "memList w ns = List.map_filter (\<lambda>n. memDeps w (ns, n))
     (remdups (map dName (filter (\<lambda>d. dNamespace d = ns) (mDeps w))))"

definition memListReps :: "mem \<Rightarrow> string \<Rightarrow> CostReport list" where
  "memListReps w ns = List.map_filter (\<lambda>n. memReps w (ns, n))
     (remdups (map crName (filter (\<lambda>r. crNamespace r = ns) (mReps w))))"

definition memPatch :: "deployment \<Rightarrow> deployment \<Rightarrow> mem \<Rightarrow> (kerr + deployment) \<times> mem" where
  "memPatch b q w =
    (case memDeps w (dkey b) of
       None \<Rightarrow> (Inl NotFound, w)
     | Some s \<Rightarrow> written w (w\<lparr>mDeps := put dkey (mergePatch b q s) (mDeps w)\<rparr>)
                  (Inr (mergePatch b q s)) Inl)"

definition storeBudget :: "labelSel NamespaceBudget \<Rightarrow> mem \<Rightarrow> mem" where
  "storeBudget b w = w\<lparr>mVer := Suc (mVer w),
     mBuds := put budKey (b\<lparr>nbResourceVersion := show_nat (mVer w)\<rparr>) (mBuds w)\<rparr>"

definition memUpdate :: "labelSel NamespaceBudget \<Rightarrow> mem \<Rightarrow> kerr option \<times> mem" where
  "memUpdate b w =
    (case memBuds w (budKey b) of
       None \<Rightarrow> (Some NotFound, w)
     | Some s \<Rightarrow>
         if nbResourceVersion b \<noteq> nbResourceVersion s then (Some Conflict, w)
         else written w
           (if beingDeleted s \<and> nbFinalizers b = []
            then w\<lparr>mBuds := filter (\<lambda>c. budKey c \<noteq> budKey b) (mBuds w)\<rparr>
            else storeBudget (s\<lparr>nbFinalizers := nbFinalizers b, nbSpec := nbSpec b\<rparr>) w)
           None Some)"

definition memUpdateStatus :: "labelSel NamespaceBudget \<Rightarrow> mem \<Rightarrow> kerr option \<times> mem" where
  "memUpdateStatus b w =
    (case memBuds w (budKey b) of
       None \<Rightarrow> (Some NotFound, w)
     | Some s \<Rightarrow>
         if nbResourceVersion b \<noteq> nbResourceVersion s then (Some Conflict, w)
         else written w (storeBudget (s\<lparr>nbStatus := wireStatus (nbStatus b)\<rparr>) w) None Some)"

definition memCreate :: "CostReport \<Rightarrow> mem \<Rightarrow> (kerr + CostReport) \<times> mem" where
  "memCreate r w =
    (case memReps w (repKey r) of
       Some _ \<Rightarrow> (Inl (OtherErr ''AlreadyExists''), w)
     | None \<Rightarrow> written w (w\<lparr>mReps := put repKey (r\<lparr>crStatus := emptyReportStatus\<rparr>) (mReps w)\<rparr>)
                (Inr (r\<lparr>crStatus := emptyReportStatus\<rparr>)) Inl)"

definition memReportStatus :: "CostReport \<Rightarrow> mem \<Rightarrow> kerr option \<times> mem" where
  "memReportStatus r w =
    (case memReps w (repKey r) of
       None \<Rightarrow> (Some NotFound, w)
     | Some _ \<Rightarrow> written w (w\<lparr>mReps := put repKey r (mReps w)\<rparr>) None Some)"

definition memProm :: "string \<Rightarrow> string \<Rightarrow> mem \<Rightarrow> (transport + httpAnswer) \<times> mem" where
  "memProm u q w =
    (case mProm w of [] \<Rightarrow> (Inl (DoFailed (Plain ''no answer'')), w) | a # as \<Rightarrow> (a, w\<lparr>mProm := as\<rparr>))"

definition memSlack :: "string \<Rightarrow> SlackMessage \<Rightarrow> mem \<Rightarrow> (transport + int) \<times> mem" where
  "memSlack u m w = (Inr 200, w\<lparr>mSlack := mSlack w @ [m]\<rparr>)"

text \<open>Insertion sort, and label selectors as lists of required labels.\<close>

fun insertBy :: "('a \<Rightarrow> 'a \<Rightarrow> bool) \<Rightarrow> 'a \<Rightarrow> 'a list \<Rightarrow> 'a list" where
  "insertBy lt x [] = [x]"
| "insertBy lt x (y # ys) = (if lt y x then y # insertBy lt x ys else x # y # ys)"

definition memSort :: "nat \<Rightarrow> (nat \<Rightarrow> nat \<Rightarrow> bool) \<Rightarrow> nat list" where
  "memSort n lt = foldr (insertBy lt) [0..<n] []"

definition memSelector :: "labelSel \<Rightarrow> (strmap \<Rightarrow> bool) option" where
  "memSelector sel =
    (if [] \<in> fst ` set sel then None
     else Some (\<lambda>ls. list_all (\<lambda>(k, v). ls k = Some v) sel))"

definition memEnv :: "(mem, labelSel) env" where
  "memEnv = \<lparr>
     eNow = State (\<lambda>w. (mClock w, w\<lparr>mClock := addT (mClock w) (mTick w * 1000000000)\<rparr>)),
     eGetDeployment = (\<lambda>ns n. State (\<lambda>w. (lookupOr404 (memDeps w (ns, n)), w))),
     eListDeployments = (\<lambda>ns. State (\<lambda>w. (Inr (memList w ns), w))),
     ePatchDeployment = (\<lambda>b q. State (memPatch b q)),
     eGetBudget = (\<lambda>ns n. State (\<lambda>w. (lookupOr404 (memBuds w (ns, n)), w))),
     eUpdateBudget = (\<lambda>b. State (memUpdate b)),
     eUpdateBudgetStatus = (\<lambda>b. State (memUpdateStatus b)),
     eGetReport = (\<lambda>ns n. State (\<lambda>w. (lookupOr404 (memReps w (ns, n)), w))),
     eListReports = (\<lambda>ns. State (\<lambda>w. (Inr (memListReps w ns), w))),
     eCreateReport = (\<lambda>r. State (memCreate r)),
     eUpdateReportStatus = (\<lambda>r. State (memReportStatus r)),
     eRetryOnConflict = retryN 4,
     ePromGet = (\<lambda>u q. State (memProm u q)),
     eSlackPost = (\<lambda>u m. State (memSlack u m)),
     eRange = (\<lambda>m. State (\<lambda>w. (m, w))),
     eSort = memSort,
     eSelector = memSelector,
     eFloatToInt = (\<lambda>_. 0x8000000000000000),
     eZone = (\<lambda>_. 0),
     eQuoteRunes = (\<lambda>s. s),
     eContainsFinalizer = (\<lambda>fs f. f \<in> set fs),
     eAddFinalizer = (\<lambda>fs f. if f \<in> set fs then fs else fs @ [f]),
     eRemoveFinalizer = (\<lambda>fs f. filter (\<lambda>g. g \<noteq> f) fs)\<rparr>"

lemma memEnv_simps [simp]:
  "eNow memEnv = State (\<lambda>w. (mClock w, w\<lparr>mClock := addT (mClock w) (mTick w * 1000000000)\<rparr>))"
  "eGetDeployment memEnv ns n = State (\<lambda>w. (lookupOr404 (memDeps w (ns, n)), w))"
  "eListDeployments memEnv ns = State (\<lambda>w. (Inr (memList w ns), w))"
  "ePatchDeployment memEnv b q = State (memPatch b q)"
  "eGetBudget memEnv ns n = State (\<lambda>w. (lookupOr404 (memBuds w (ns, n)), w))"
  "eUpdateBudget memEnv nb = State (memUpdate nb)"
  "eUpdateBudgetStatus memEnv nb = State (memUpdateStatus nb)"
  "eGetReport memEnv ns n = State (\<lambda>w. (lookupOr404 (memReps w (ns, n)), w))"
  "eListReports memEnv ns = State (\<lambda>w. (Inr (memListReps w ns), w))"
  "eCreateReport memEnv r = State (memCreate r)"
  "eUpdateReportStatus memEnv r = State (memReportStatus r)"
  "eRetryOnConflict memEnv = retryN 4"
  "ePromGet memEnv u v = State (memProm u v)"
  "eSlackPost memEnv u m = State (memSlack u m)"
  "eRange memEnv xs = State (\<lambda>w. (xs, w))"
  "eSort memEnv = memSort"
  "eSelector memEnv = memSelector"
  "eFloatToInt memEnv x = 0x8000000000000000"
  "eZone memEnv z = 0"
  "eContainsFinalizer memEnv fs f \<longleftrightarrow> f \<in> set fs"
  "eAddFinalizer memEnv fs f = (if f \<in> set fs then fs else fs @ [f])"
  "eRemoveFinalizer memEnv fs f = filter (\<lambda>g. g \<noteq> f) fs"
  by (simp_all add: memEnv_def)

section \<open>The laws hold\<close>

lemma keepsS: "(\<And>w. R w (snd (g w))) \<Longrightarrow> keeps R (State g)"
  by (simp add: keeps_def)

lemma mem_views [simp]:
  "memDeps (w\<lparr>mClock := c\<rparr>) = memDeps w" "memBuds (w\<lparr>mClock := c\<rparr>) = memBuds w"
  "memReps (w\<lparr>mClock := c\<rparr>) = memReps w"
  "memDeps (w\<lparr>mProm := p\<rparr>) = memDeps w" "memBuds (w\<lparr>mProm := p\<rparr>) = memBuds w"
  "memReps (w\<lparr>mProm := p\<rparr>) = memReps w"
  "memDeps (w\<lparr>mSlack := m\<rparr>) = memDeps w" "memBuds (w\<lparr>mSlack := m\<rparr>) = memBuds w"
  "memReps (w\<lparr>mSlack := m\<rparr>) = memReps w"
  "memDeps (w\<lparr>mOut := o'\<rparr>) = memDeps w" "memBuds (w\<lparr>mOut := o'\<rparr>) = memBuds w"
  "memReps (w\<lparr>mOut := o'\<rparr>) = memReps w"
  "memBuds (w\<lparr>mDeps := ds\<rparr>) = memBuds w" "memReps (w\<lparr>mDeps := ds\<rparr>) = memReps w"
  "memDeps (w\<lparr>mReps := rs\<rparr>) = memDeps w" "memBuds (w\<lparr>mReps := rs\<rparr>) = memBuds w"
  "memDeps (w\<lparr>mBuds := bs\<rparr>) = memDeps w" "memReps (w\<lparr>mBuds := bs\<rparr>) = memReps w"
  "memDeps (popFault w) = memDeps w" "memBuds (popFault w) = memBuds w"
  "memReps (popFault w) = memReps w" "mSlack (popFault w) = mSlack w"
  "memDeps (storeBudget b w) = memDeps w" "memReps (storeBudget b w) = memReps w"
  "mSlack (storeBudget b w) = mSlack w"
  by (simp_all add: memDeps_def memBuds_def memReps_def popFault_def storeBudget_def fun_eq_iff)

lemma mem_puts:
  "memDeps (w\<lparr>mDeps := put dkey d (mDeps w)\<rparr>) = (memDeps w)(dkey d \<mapsto> d)"
  "memReps (w\<lparr>mReps := put repKey r (mReps w)\<rparr>) = (memReps w)(repKey r \<mapsto> r)"
  "memBuds (storeBudget b w) =
     (memBuds w)(budKey b \<mapsto> b\<lparr>nbResourceVersion := show_nat (mVer w)\<rparr>)"
  "memBuds (w\<lparr>mBuds := filter (\<lambda>c. budKey c \<noteq> k) (mBuds w)\<rparr>) = (memBuds w)(k := None)"
  using find_put [of dkey d "mDeps w"] find_put [of repKey r "mReps w"]
    find_put [of budKey "b\<lparr>nbResourceVersion := show_nat (mVer w)\<rparr>" "mBuds w"]
    find_delete [of budKey k "mBuds w"]
  by (simp_all add: memDeps_def memReps_def memBuds_def storeBudget_def budKey_def fun_eq_iff)

lemma find_key: "find (\<lambda>x. key x = k) xs = Some y \<Longrightarrow> key y = k \<and> y \<in> set xs"
  by (auto simp: find_Some_iff)

lemma memDeps_key: "memDeps w k = Some d \<Longrightarrow> dkey d = k \<and> d \<in> set (mDeps w)"
  unfolding memDeps_def by (rule find_key)

lemma memBuds_key: "memBuds w k = Some b \<Longrightarrow> budKey b = k"
  unfolding memBuds_def by (blast dest: find_key)

lemma memReps_key: "memReps w k = Some r \<Longrightarrow> repKey r = k \<and> r \<in> set (mReps w)"
  unfolding memReps_def by (rule find_key)

lemma set_map_filter: "set (List.map_filter f xs) = {y. \<exists>x \<in> set xs. f x = Some y}"
  by (force simp: List.map_filter_def)

lemma memList_set: "set (memList w ns) = {d. \<exists>n. memDeps w (ns, n) = Some d}"
proof -
  have "n \<in> dName ` {d \<in> set (mDeps w). dNamespace d = ns}"
    if "memDeps w (ns, n) = Some d" for n d
    using memDeps_key [OF that] by (auto simp: dkey_def)
  then show ?thesis
    unfolding memList_def set_map_filter set_remdups set_map set_filter by blast
qed

lemma memListReps_set: "set (memListReps w ns) = {r. \<exists>n. memReps w (ns, n) = Some r}"
proof -
  have "n \<in> crName ` {r \<in> set (mReps w). crNamespace r = ns}"
    if "memReps w (ns, n) = Some r" for n r
    using memReps_key [OF that] by (auto simp: repKey_def)
  then show ?thesis
    unfolding memListReps_def set_map_filter set_remdups set_map set_filter by blast
qed

lemma memList_distinct: "distinct (map dName (memList w ns))"
proof -
  have "dName d = n" if "memDeps w (ns, n) = Some d" for n d
    using memDeps_key [OF that] by (simp add: dkey_def)
  then have "map dName (List.map_filter (\<lambda>n. memDeps w (ns, n)) xs) =
    filter (\<lambda>n. memDeps w (ns, n) \<noteq> None) xs" for xs
    by (induction xs) (auto simp: List.map_filter_simps split: option.splits)
  then show ?thesis
    by (simp add: memList_def)
qed

lemma lookupOr404_simps [simp]:
  "lookupOr404 x = Inr a \<longleftrightarrow> x = Some a" "lookupOr404 x = Inl NotFound \<longleftrightarrow> x = None"
  by (auto simp: lookupOr404_def split: option.splits)

lemma written_cases:
  assumes "written w w1 ok err = (r, w')"
  shows "r = ok \<and> w' = popFault w1 \<or> (\<exists>e. r = err e \<and> w' = popFault w)
     \<or> (\<exists>e. r = err e \<and> w' = popFault w1)"
  using assms by (auto simp: written_def split: fault.splits)

lemma memPatch_cases:
  assumes "memPatch b q w = (r, w')"
  shows "(r = Inl NotFound \<and> w' = w \<and> memDeps w (dkey b) = None) \<or>
    (\<exists>s. memDeps w (dkey b) = Some s \<and>
       ((\<exists>e. r = Inl e \<and> memDeps w' = memDeps w) \<or>
        (memDeps w' = (memDeps w)(dkey b \<mapsto> mergePatch b q s) \<and>
          (r = Inr (mergePatch b q s) \<or> (\<exists>e. r = Inl e)))) \<and>
       memBuds w' = memBuds w \<and> memReps w' = memReps w \<and> mSlack w' = mSlack w)"
proof (cases "memDeps w (dkey b)")
  case None
  with assms show ?thesis by (auto simp: memPatch_def)
next
  case (Some s)
  from memDeps_key [OF Some] have "dkey (mergePatch b q s) = dkey b" by simp
  with assms Some show ?thesis
    by (auto simp: memPatch_def mem_puts dest!: written_cases)
qed

text \<open>Insertion sort sorts.\<close>

lemma insertBy_mset [simp]: "mset (insertBy lt x ys) = add_mset x (mset ys)"
  by (induction ys) auto

lemma insertBy_set [simp]: "set (insertBy lt x ys) = insert x (set ys)"
  by (induction ys) auto

lemma insertBy_sorted:
  assumes "\<And>a. a \<in> A \<Longrightarrow> \<not> lt a a"
    and "\<And>a b c. \<lbrakk>a \<in> A; b \<in> A; c \<in> A; lt a b; lt b c\<rbrakk> \<Longrightarrow> lt a c"
    and "\<And>a b c. \<lbrakk>a \<in> A; b \<in> A; c \<in> A; \<not> lt a b; \<not> lt b c\<rbrakk> \<Longrightarrow> \<not> lt a c"
    and "x \<in> A" and "set ys \<subseteq> A" and "sorted_wrt (\<lambda>a b. \<not> lt b a) ys"
  shows "sorted_wrt (\<lambda>a b. \<not> lt b a) (insertBy lt x ys)"
  using assms(4-)
proof (induction ys)
  case (Cons y ys)
  then have A: "x \<in> A" "y \<in> A" "set ys \<subseteq> A" by auto
  show ?case
  proof (cases "lt y x")
    case True
    then have "\<not> lt x y" using A assms(1,2) by blast
    with True Cons A show ?thesis by auto
  next
    case False
    have "\<not> lt z x" if "z \<in> set ys" for z
    proof -
      from that Cons.prems(3) have "\<not> lt z y" by auto
      with False A that show ?thesis using assms(3) [of z y x] by blast
    qed
    with False Cons A show ?thesis by auto
  qed
qed simp

lemma foldr_insertBy:
  assumes "\<And>a. a \<in> A \<Longrightarrow> \<not> lt a a"
    and "\<And>a b c. \<lbrakk>a \<in> A; b \<in> A; c \<in> A; lt a b; lt b c\<rbrakk> \<Longrightarrow> lt a c"
    and "\<And>a b c. \<lbrakk>a \<in> A; b \<in> A; c \<in> A; \<not> lt a b; \<not> lt b c\<rbrakk> \<Longrightarrow> \<not> lt a c"
    and "set xs \<subseteq> A"
  shows "sorted_wrt (\<lambda>a b. \<not> lt b a) (foldr (insertBy lt) xs []) \<and>
    set (foldr (insertBy lt) xs []) = set xs"
  using assms(4)
proof (induction xs)
  case (Cons x xs)
  then show ?case
    using insertBy_sorted [of A lt x "foldr (insertBy lt) xs []", OF assms(1-3)] by auto
qed simp

lemma memSort_mset: "mset (memSort n lt) = mset [0..<n]"
proof -
  have "mset (foldr (insertBy lt) xs []) = mset xs" for xs
    by (induction xs) auto
  then show ?thesis by (simp only: memSort_def)
qed

lemma memSort_sorted:
  assumes "\<And>i. i < n \<Longrightarrow> \<not> lt i i"
    and "\<And>i j k. \<lbrakk>i < n; j < n; k < n; lt i j; lt j k\<rbrakk> \<Longrightarrow> lt i k"
    and "\<And>i j k. \<lbrakk>i < n; j < n; k < n; \<not> lt i j; \<not> lt j k\<rbrakk> \<Longrightarrow> \<not> lt i k"
  shows "sorted_wrt (\<lambda>i j. \<not> lt j i) (memSort n lt)"
  unfolding memSort_def
proof (rule conjunct1, rule foldr_insertBy [of "{..<n}"])
  show "\<not> lt a a" if "a \<in> {..<n}" for a
    using that assms(1) [of a] by simp
  show "lt a c" if "a \<in> {..<n}" "b \<in> {..<n}" "c \<in> {..<n}" "lt a b" "lt b c" for a b c
    using that assms(2) [of a b c] by simp
  show "\<not> lt a c" if "a \<in> {..<n}" "b \<in> {..<n}" "c \<in> {..<n}" "\<not> lt a b" "\<not> lt b c" for a b c
    using that assms(3) [of a b c] by simp
qed auto

section \<open>Interpretations\<close>

interpretation memrt: go_runtime memEnv
proof
  fix n lt
  show "mset (eSort memEnv n lt) = mset [0..<n]"
    by (simp only: memEnv_simps memSort_mset)
next
  fix n :: nat and lt :: "nat \<Rightarrow> nat \<Rightarrow> bool"
  assume "\<And>i. i < n \<Longrightarrow> \<not> lt i i"
    and "\<And>i j k. \<lbrakk>i < n; j < n; k < n; lt i j; lt j k\<rbrakk> \<Longrightarrow> lt i k"
    and "\<And>i j k. \<lbrakk>i < n; j < n; k < n; \<not> lt i j; \<not> lt j k\<rbrakk> \<Longrightarrow> \<not> lt i k"
  then show "sorted_wrt (\<lambda>i j. \<not> lt j i) (eSort memEnv n lt)"
    unfolding memEnv_simps by (rule memSort_sorted)
qed auto

interpretation mem: deployment_api memEnv memDeps
proof
  fix w k d assume "memDeps w k = Some d"
  then show "dkey d = k" by (rule memDeps_key [THEN conjunct1])
next
  fix ns w ds w' assume "run_state (eListDeployments memEnv ns) w = (Inr ds, w')"
  then show "set ds = {d. \<exists>n. memDeps w (ns, n) = Some d} \<and> distinct (map dName ds)"
    by (auto simp: memList_set memList_distinct)
next
  fix b q w d w' assume "run_state (ePatchDeployment memEnv b q) w = (Inr d, w')"
  then show "\<exists>s. memDeps w (dkey b) = Some s \<and> depEq d (mergePatch b q s) \<and>
      memDeps w' = (memDeps w)(dkey b \<mapsto> d)"
    by (auto dest!: memPatch_cases)
next
  fix b q w e w' assume "run_state (ePatchDeployment memEnv b q) w = (Inl e, w')"
  then show "memDeps w' = memDeps w \<or> (\<exists>s d. memDeps w (dkey b) = Some s \<and>
      depEq d (mergePatch b q s) \<and> memDeps w' = (memDeps w)(dkey b \<mapsto> d))"
    by (auto dest!: memPatch_cases intro: depEq_refl)
qed (auto intro!: keepsS)

lemma memBuds_put: "memBuds w (budKey b) = Some s \<Longrightarrow> budKey s = budKey b"
  by (rule memBuds_key)

lemma memUpdate_cases:
  assumes "memUpdate b w = (r, w')"
  shows "memDeps w' = memDeps w \<and> memReps w' = memReps w \<and> mSlack w' = mSlack w \<and>
    (budgetUpdated (memBuds w) b (memBuds w') \<or> r \<noteq> None \<and> memBuds w' = memBuds w)"
proof (cases "memBuds w (budKey b)")
  case None
  with assms show ?thesis by (auto simp: memUpdate_def)
next
  case (Some s)
  let ?s = "s\<lparr>nbFinalizers := nbFinalizers b, nbSpec := nbSpec b\<rparr>"
  from memBuds_put [OF Some] have k: "budKey ?s = budKey b" by (simp add: budKey_def)
  have st: "memBuds (storeBudget ?s w) = (memBuds w)(budKey b \<mapsto>
      s\<lparr>nbFinalizers := nbFinalizers b, nbSpec := nbSpec b, nbResourceVersion := show_nat (mVer w)\<rparr>)"
    by (simp add: mem_puts(3) k)
  from assms Some show ?thesis
    by (auto simp: memUpdate_def mem_puts(4) st budgetUpdated_def budKey_def [of b, symmetric]
        split: if_splits dest!: written_cases)
qed

lemma memUpdateStatus_cases:
  assumes "memUpdateStatus b w = (r, w')"
  shows "memDeps w' = memDeps w \<and> memReps w' = memReps w \<and> mSlack w' = mSlack w \<and>
    (statusUpdated (memBuds w) b (memBuds w') \<or> r \<noteq> None \<and> memBuds w' = memBuds w)"
proof (cases "memBuds w (budKey b)")
  case None
  with assms show ?thesis by (auto simp: memUpdateStatus_def)
next
  case (Some s)
  let ?s = "s\<lparr>nbStatus := wireStatus (nbStatus b)\<rparr>"
  from memBuds_put [OF Some] have k: "budKey ?s = budKey b" by (simp add: budKey_def)
  have st: "memBuds (storeBudget ?s w) = (memBuds w)(budKey b \<mapsto>
      s\<lparr>nbStatus := wireStatus (nbStatus b), nbResourceVersion := show_nat (mVer w)\<rparr>)"
    by (simp add: mem_puts(3) k)
  from assms Some show ?thesis
    by (auto simp: memUpdateStatus_def st statusUpdated_def budKey_def [of b, symmetric]
        split: if_splits dest!: written_cases)
qed

lemma memCreate_cases:
  assumes "memCreate r w = (x, w')"
  shows "memDeps w' = memDeps w \<and> memBuds w' = memBuds w \<and> mSlack w' = mSlack w \<and>
    (\<forall>r'. x = Inr r' \<longrightarrow> memReps w (repKey r) = None \<and> r' = r\<lparr>crStatus := emptyReportStatus\<rparr>
        \<and> memReps w' = (memReps w)(repKey r \<mapsto> r')) \<and>
    (memReps w' = memReps w \<or> memReps w (repKey r) = None \<and>
       memReps w' = (memReps w)(repKey r \<mapsto> r\<lparr>crStatus := emptyReportStatus\<rparr>))"
proof -
  have "repKey (r\<lparr>crStatus := emptyReportStatus\<rparr>) = repKey r" by (simp add: repKey_def)
  with assms show ?thesis
    by (auto simp: memCreate_def mem_puts split: option.splits dest!: written_cases)
qed

lemma memReportStatus_cases:
  assumes "memReportStatus r w = (x, w')"
  shows "memDeps w' = memDeps w \<and> memBuds w' = memBuds w \<and> mSlack w' = mSlack w \<and>
    (x = None \<longrightarrow> memReps w (repKey r) \<noteq> None \<and> memReps w' = (memReps w)(repKey r \<mapsto> r)) \<and>
    (memReps w' = memReps w \<or> memReps w (repKey r) \<noteq> None \<and>
       memReps w' = (memReps w)(repKey r \<mapsto> r))"
  using assms
  by (auto simp: memReportStatus_def mem_puts split: option.splits dest!: written_cases)

lemma keepsS_of:
  assumes "\<And>w r w'. g w = (r, w') \<Longrightarrow> R w w'"
  shows "keeps R (State g)"
  by (rule keepsI) (use assms in auto)

lemma memSame_refl [simp]: "memSame w w"
  by (simp add: memSame_def)

lemma mem_frames:
  "keeps memSame (eNow memEnv)"
  "keeps memSame (eGetDeployment memEnv ns n)"
  "keeps memSame (eListDeployments memEnv ns)"
  "keeps memSame (ePromGet memEnv u q)"
  "keeps memSame (eRange memEnv m)"
  "keeps memSame (eGetBudget memEnv ns n)"
  "keeps memSame (eGetReport memEnv ns n)"
  "keeps memSame (eListReports memEnv ns)"
  unfolding memEnv_simps
  by (auto intro!: keepsS simp: memProm_def memSame_def split: list.splits)

lemma mem_writes:
  "keeps (\<lambda>w w'. memBuds w' = memBuds w \<and> memReps w' = memReps w \<and> mSlack w' = mSlack w)
     (ePatchDeployment memEnv b q)"
  "keeps (\<lambda>w w'. memDeps w' = memDeps w \<and> memReps w' = memReps w \<and> mSlack w' = mSlack w)
     (eUpdateBudget memEnv nb)"
  "keeps (\<lambda>w w'. memDeps w' = memDeps w \<and> memReps w' = memReps w \<and> mSlack w' = mSlack w)
     (eUpdateBudgetStatus memEnv nb)"
  "keeps (\<lambda>w w'. memDeps w' = memDeps w \<and> memBuds w' = memBuds w \<and> mSlack w' = mSlack w)
     (eCreateReport memEnv rep)"
  "keeps (\<lambda>w w'. memDeps w' = memDeps w \<and> memBuds w' = memBuds w \<and> mSlack w' = mSlack w)
     (eUpdateReportStatus memEnv rep)"
  "keeps (\<lambda>w w'. memDeps w' = memDeps w \<and> memBuds w' = memBuds w \<and> memReps w' = memReps w)
     (eSlackPost memEnv u msg)"
  unfolding memEnv_simps
  by (rule keepsS_of, auto simp: memSlack_def dest!: memPatch_cases memUpdate_cases
        memUpdateStatus_cases memCreate_cases memReportStatus_cases)+

interpretation memc: cluster memEnv memDeps memBuds memReps mSlack memSame
proof
  show "memSame w w' \<longleftrightarrow> memDeps w' = memDeps w \<and> memBuds w' = memBuds w \<and>
      memReps w' = memReps w \<and> mSlack w' = mSlack w" for w w'
    by (simp add: memSame_def)
next
  fix w ns n nb assume "memBuds w (ns, n) = Some nb"
  then show "nbNamespace nb = ns \<and> nbName nb = n"
    by (auto simp: budKey_def dest: memBuds_key)
next
  fix nb w w' assume "run_state (eUpdateBudget memEnv nb) w = (None, w')"
  then show "budgetUpdated (memBuds w) nb (memBuds w')"
    using memUpdate_cases [of nb w None w'] by simp
next
  fix nb w e w' assume "run_state (eUpdateBudget memEnv nb) w = (Some e, w')"
  then show "memBuds w' = memBuds w \<or> budgetUpdated (memBuds w) nb (memBuds w')"
    using memUpdate_cases [of nb w "Some e" w'] by auto
next
  fix nb w w' assume "run_state (eUpdateBudgetStatus memEnv nb) w = (None, w')"
  then show "statusUpdated (memBuds w) nb (memBuds w')"
    using memUpdateStatus_cases [of nb w None w'] by simp
next
  fix nb w e w' assume "run_state (eUpdateBudgetStatus memEnv nb) w = (Some e, w')"
  then show "memBuds w' = memBuds w \<or> statusUpdated (memBuds w) nb (memBuds w')"
    using memUpdateStatus_cases [of nb w "Some e" w'] by auto
next
  show "\<exists>n. run_state (eRetryOnConflict memEnv f) w = run_state (retryN n f) w" for f w
    by (rule exI [of _ 4]) simp
next
  fix ns w rs w' assume "run_state (eListReports memEnv ns) w = (Inr rs, w')"
  then show "set rs = {rep. \<exists>n. memReps w (ns, n) = Some rep}"
    by (auto simp: memListReps_set)
next
  fix rep w r w' assume "run_state (eCreateReport memEnv rep) w = (Inr r, w')"
  then show "memReps w (crNamespace rep, crName rep) = None \<and>
      r = rep\<lparr>crStatus := emptyReportStatus\<rparr> \<and>
      memReps w' = (memReps w)((crNamespace rep, crName rep) \<mapsto> r)"
    using memCreate_cases [of rep w "Inr r" w'] by (simp add: repKey_def)
next
  fix rep w e w' assume "run_state (eCreateReport memEnv rep) w = (Inl e, w')"
  then show "memReps w' = memReps w \<or> memReps w (crNamespace rep, crName rep) = None \<and>
      memReps w' = (memReps w)((crNamespace rep, crName rep) \<mapsto> rep\<lparr>crStatus := emptyReportStatus\<rparr>)"
    using memCreate_cases [of rep w "Inl e" w'] by (simp add: repKey_def)
next
  fix rep w w' assume "run_state (eUpdateReportStatus memEnv rep) w = (None, w')"
  then show "memReps w (crNamespace rep, crName rep) \<noteq> None \<and>
      memReps w' = (memReps w)((crNamespace rep, crName rep) \<mapsto> rep)"
    using memReportStatus_cases [of rep w None w'] by (simp add: repKey_def)
next
  fix rep w e w' assume "run_state (eUpdateReportStatus memEnv rep) w = (Some e, w')"
  then show "memReps w' = memReps w \<or> memReps w (crNamespace rep, crName rep) \<noteq> None \<and>
      memReps w' = (memReps w)((crNamespace rep, crName rep) \<mapsto> rep)"
    using memReportStatus_cases [of rep w "Some e" w'] by (simp add: repKey_def)
next
  fix u msg w z w' assume "run_state (eSlackPost memEnv u msg) w = (z, w')"
  then show "mSlack w' = mSlack w \<or> mSlack w' = mSlack w @ [msg]"
    by (auto simp: memSlack_def)
qed (simp_all only: mem_frames mem_writes, auto)

text \<open>The same server with its fault script switched off is up.\<close>

definition calmEnv :: "(mem, labelSel) env" where
  "calmEnv = memEnv\<lparr>ePatchDeployment := (\<lambda>b q. State (\<lambda>w. memPatch b q (w\<lparr>mFaults := []\<rparr>)))\<rparr>"

lemma calmEnv_simps [simp]:
  "eNow calmEnv = eNow memEnv" "eGetDeployment calmEnv = eGetDeployment memEnv"
  "eListDeployments calmEnv = eListDeployments memEnv"
  "ePatchDeployment calmEnv b q = State (\<lambda>w. memPatch b q (w\<lparr>mFaults := []\<rparr>))"
  "eSelector calmEnv = eSelector memEnv"
  by (simp_all add: calmEnv_def)

lemma memDeps_faults [simp]: "memDeps (w\<lparr>mFaults := fs\<rparr>) = memDeps w"
  by (simp add: memDeps_def fun_eq_iff)

lemma calm_patch:
  "memDeps w (dkey b) = Some s \<Longrightarrow>
   fst (memPatch b q (w\<lparr>mFaults := []\<rparr>)) = Inr (mergePatch b q s)"
  by (simp add: memPatch_def written_def hdFault_def)

interpretation calm: reliable_api calmEnv memDeps
proof
  fix b q w d w' assume "run_state (ePatchDeployment calmEnv b q) w = (Inr d, w')"
  then have "run_state (ePatchDeployment memEnv b q) (w\<lparr>mFaults := []\<rparr>) = (Inr d, w')" by simp
  from mem.patch_ok [OF this]
  show "\<exists>s. memDeps w (dkey b) = Some s \<and> depEq d (mergePatch b q s) \<and>
      memDeps w' = (memDeps w)(dkey b \<mapsto> d)" by simp
next
  fix b q w e w' assume "run_state (ePatchDeployment calmEnv b q) w = (Inl e, w')"
  then have "run_state (ePatchDeployment memEnv b q) (w\<lparr>mFaults := []\<rparr>) = (Inl e, w')" by simp
  from mem.patch_err [OF this]
  show "memDeps w' = memDeps w \<or> (\<exists>s d. memDeps w (dkey b) = Some s \<and>
      depEq d (mergePatch b q s) \<and> memDeps w' = (memDeps w)(dkey b \<mapsto> d))" by simp
next
  fix w ns n assume "memDeps w (ns, n) \<noteq> None"
  then show "\<exists>d. fst (run_state (eGetDeployment calmEnv ns n) w) = Inr d" by auto
next
  fix w b q assume "memDeps w (dkey b) \<noteq> None"
  then show "\<exists>d. fst (run_state (ePatchDeployment calmEnv b q) w) = Inr d"
    by (auto simp: calm_patch)
next
  fix ns w show "\<exists>ds. fst (run_state (eListDeployments calmEnv ns) w) = Inr ds" by simp
qed (simp_all only: calmEnv_simps mem.get_frame mem.list_frame mem.now_frame,
     (erule mem.stored_key mem.get_ok mem.get_missing mem.list_ok)+)

text \<open>The rest of that server is the one above.\<close>

lemma calm_rest:
  "ePromGet calmEnv = ePromGet memEnv" "eRange calmEnv = eRange memEnv"
  "eGetBudget calmEnv = eGetBudget memEnv" "eUpdateBudget calmEnv = eUpdateBudget memEnv"
  "eUpdateBudgetStatus calmEnv = eUpdateBudgetStatus memEnv"
  "eRetryOnConflict calmEnv = eRetryOnConflict memEnv" "eGetReport calmEnv = eGetReport memEnv"
  "eListReports calmEnv = eListReports memEnv" "eCreateReport calmEnv = eCreateReport memEnv"
  "eUpdateReportStatus calmEnv = eUpdateReportStatus memEnv" "eSlackPost calmEnv = eSlackPost memEnv"
  by (simp_all add: calmEnv_def)

interpretation calmc: cluster calmEnv memDeps memBuds memReps mSlack memSame
proof
  fix b q
  show "keeps (\<lambda>w w'. memBuds w' = memBuds w \<and> memReps w' = memReps w \<and> mSlack w' = mSlack w)
     (ePatchDeployment calmEnv b q)"
  proof (rule keepsI)
    fix w r w' assume "run_state (ePatchDeployment calmEnv b q) w = (r, w')"
    then have run: "run_state (ePatchDeployment memEnv b q) (w\<lparr>mFaults := []\<rparr>) = (r, w')" by simp
    from keepsD [OF memc.patch_same run]
    show "memBuds w' = memBuds w \<and> memReps w' = memReps w \<and> mSlack w' = mSlack w"
      by (simp add: memBuds_def memReps_def fun_eq_iff)
  qed
qed (unfold calm_rest calmEnv_simps(1-3),
     (rule memc.same_def memc.now_same memc.get_same memc.list_same memc.prom_same memc.range_same
        memc.budget_same memc.update_frame memc.status_frame memc.retry memc.report_same
        memc.reports_same memc.create_frame memc.repstatus_frame memc.slack_frame |
      erule memc.range_perm memc.budget_ok memc.budget_missing memc.budget_key memc.update_ok
        memc.update_err memc.status_ok memc.status_err memc.report_ok memc.report_missing memc.reports_ok memc.create_ok
        memc.create_err memc.repstatus_ok memc.repstatus_err memc.slack_log)+)

section \<open>A small cluster to run the code in\<close>

text \<open>Two Deployments of the namespace \<open>team\<close>, a clock at noon of 15 January 2026.\<close>

definition exDep :: "string \<Rightarrow> 32 word option \<Rightarrow> deployment" where
  "exDep n r = \<lparr>dName = n, dNamespace = ''team'', dLabels = [''app'' \<mapsto> n], dAnnotations = None,
     dReplicas = r\<rparr>"

lemma exDep_simps [simp]:
  "dName (exDep n r) = n" "dNamespace (exDep n r) = ''team''" "annOf (exDep n r) = Map.empty"
  "dReplicas (exDep n r) = r" "dkey (exDep n r) = (''team'', n)" "dAnnotations (exDep n r) = None"
  by (simp_all add: exDep_def annOf_def dkey_def)

definition exNoon :: gotime where
  "exNoon = \<lparr>tsec = 1768478400, tnsec = 0, tzoff = 0\<rparr>"

definition exMem :: "deployment list \<Rightarrow> fault list \<Rightarrow> (transport + httpAnswer) list \<Rightarrow> mem" where
  "exMem ds fs ps = \<lparr>mClock = exNoon, mTick = 1, mDeps = ds, mBuds = [], mReps = [], mSlack = [],
     mFaults = fs, mProm = ps, mVer = 1, mOut = []\<rparr>"

text \<open>A budget of 100 core-hours and 200 GiB-hours a month for that namespace.\<close>

definition exStatus :: NamespaceBudgetStatus where
  "exStatus = \<lparr>stPhase = [], stCurrentUsage = \<lparr>uCpu = [], uMemory = []\<rparr>,
     stAccumulated = \<lparr>acCoreHours = [], acGiBHours = [], acSince = []\<rparr>, stLastReconcile = zeroTime,
     stBudgetPercent = 0, stIdleWorkloads = [], stLastReportRef = [], stConditions = []\<rparr>"

definition exBudget :: "labelSel NamespaceBudget" where
  "exBudget = \<lparr>nbName = ''budget'', nbNamespace = ''team'', nbDeletionTimestamp = None,
     nbFinalizers = [''cost.platform.io/cleanup''], nbResourceVersion = ''0'',
     nbSpec = \<lparr>sMonthly = \<lparr>uCpu = ''100'', uMemory = ''200''\<rparr>,
       sIdleThreshold = \<lparr>itCpuPercent = 1, itWindow = ''30m''\<rparr>,
       sActions = \<lparr>onWarning = [], onExceeded = [], onHardLimit = []\<rparr>, sExclusions = []\<rparr>,
     nbStatus = exStatus\<rparr>"

lemma exBudget_simps [simp]:
  "nbName exBudget = ''budget''" "nbNamespace exBudget = ''team''"
  "nbDeletionTimestamp exBudget = None" "\<not> beingDeleted exBudget"
  "nbFinalizers exBudget = [''cost.platform.io/cleanup'']" "nbStatus exBudget = exStatus"
  "budKey exBudget = (''team'', ''budget'')" "nbResourceVersion exBudget = ''0''"
  by (simp_all add: exBudget_def beingDeleted_def budKey_def)

end
