(* ===== verification/Metrics.thy ===== *)
theory Metrics
  imports MemCluster "HOL-Library.List_Lexorder" "HOL-Library.Char_ord"
begin

text \<open>
  \<^verbatim>\<open>internal/metrics\<close>: the Prometheus client (query string, HTTP exchange, decoding of the
  samples) and the arithmetic on samples. Shown: what one answer decodes to, on every
  branch; that a decoded list holds exactly the well-formed points in order; that a NaN
  sample makes the sum NaN, and that sums of non-negative samples are non-negative.
\<close>

section \<open>Samples\<close>

record Sample =
  smPod :: string
  smTimeStamp :: gotime
  smValue :: f64

record MetricsClient =
  mcBaseURL :: string

definition NewClient :: "string \<Rightarrow> MetricsClient" where
  "NewClient baseURL = \<lparr>mcBaseURL = baseURL\<rparr>"

section \<open>Query strings\<close>

text \<open>\<^verbatim>\<open>url.QueryEscape\<close> keeps unreserved characters, writes a blank as a plus and the rest in hex.\<close>

definition unreserved :: "char \<Rightarrow> bool" where
  "unreserved c =
    (let k = code_of c in (97 \<le> k \<and> k \<le> 122) \<or> (65 \<le> k \<and> k \<le> 90) \<or> isDigit c
       \<or> c \<in> {CHR ''-'', CHR ''_'', CHR ''.'', CHR ''~''})"

definition hexDigit :: "nat \<Rightarrow> char" where
  "hexDigit d = (if d < 10 then digit_char d else char_of (55 + d))"

definition escapeChar :: "char \<Rightarrow> string" where
  "escapeChar c =
    (if unreserved c then [c]
     else if c = CHR '' '' then ''+''
     else [CHR ''%'', hexDigit (code_of c div 16), hexDigit (code_of c mod 16)])"

definition queryEscape :: "string \<Rightarrow> string" where
  "queryEscape s = concat (map escapeChar s)"

text \<open>\<^verbatim>\<open>url.Values\<close> as an association list: \<^verbatim>\<open>Set\<close> replaces, \<^verbatim>\<open>Encode\<close> sorts by key.\<close>

definition encodeValues :: "(string \<times> string) list \<Rightarrow> string" where
  "encodeValues vs =
    joinWith ''&'' (map (\<lambda>(k, v). queryEscape k @ ''='' @ queryEscape v) (sort_key fst vs))"

definition formatTime :: "gotime \<Rightarrow> string" where
  "formatTime t = show_int (tsec t)"

section \<open>Decoding\<close>

fun typeName :: "any \<Rightarrow> string" where
  "typeName JNull = ''<nil>''"
| "typeName (JBool b) = ''bool''"
| "typeName (JNum x) = ''float64''"
| "typeName (JStr s) = ''string''"
| "typeName (JArr xs) = ''[]interface {}''"
| "typeName (JObj kvs) = ''map[string]interface {}''"

text \<open>\<^verbatim>\<open>time.Unix(sec, nsec)\<close> carries the nanoseconds into range; the result is local.\<close>

definition timeUnix :: "('w, 'sel) env \<Rightarrow> int \<Rightarrow> int \<Rightarrow> gotime" where
  "timeUnix E sec nsec =
    \<lparr>tsec = sec + nsec div 1000000000, tnsec = nsec mod 1000000000,
     tzoff = eZone E (sec + nsec div 1000000000)\<rparr>"

definition subF :: "f64 \<Rightarrow> f64 \<Rightarrow> f64" where
  "subF x y = x + y * Fin (- 1)"

definition toTime :: "('w, 'sel) env \<Rightarrow> any \<Rightarrow> gotime result" where
  "toTime E v =
    (case v of
       JNum sec \<Rightarrow>
         (let secInt = sint (f2i (eFloatToInt E) sec);
              nsec = sint (f2i (eFloatToInt E) (subF sec (i2f secInt) * i2f 1000000000))
          in Inr (timeUnix E secInt nsec))
     | _ \<Rightarrow> Inl (Plain (''expected float64 timestamp, got '' @ typeName v)))"

definition numErrText :: "num_err \<Rightarrow> string" where
  "numErrText e = (case e of ErrSyntax \<Rightarrow> ''invalid syntax'' | ErrRange \<Rightarrow> ''value out of range'')"

definition toFloat64 :: "any \<Rightarrow> f64 result" where
  "toFloat64 v =
    (case v of
       JStr s \<Rightarrow> (case ParseFloat s of
                   (x, None) \<Rightarrow> Inr x
                 | (x, Some e) \<Rightarrow> Inl (Plain (numErrText e)))
     | _ \<Rightarrow> Inl (Plain (''expected string value, got '' @ typeName v)))"

text \<open>One point \<open>[timestamp, value]\<close>; a malformed one is dropped.\<close>

definition decodePoint :: "('w, 'sel) env \<Rightarrow> string \<Rightarrow> any list \<Rightarrow> Sample option" where
  "decodePoint E pod v =
    (if length v < 2 then None
     else case toTime E (v ! 0) of
            Inl _ \<Rightarrow> None
          | Inr ts \<Rightarrow> (case toFloat64 (v ! 1) of
                        Inl _ \<Rightarrow> None
                      | Inr val \<Rightarrow> Some \<lparr>smPod = pod, smTimeStamp = ts, smValue = val\<rparr>))"

text \<open>A range series carries \<open>values\<close>, an instant one \<open>value\<close>; a missing label reads as empty.\<close>

definition decodeSeries :: "('w, 'sel) env \<Rightarrow> promSeries \<Rightarrow> Sample list" where
  "decodeSeries E r =
    (let pod = (case psMetric r ''pod'' of None \<Rightarrow> [] | Some p \<Rightarrow> p)
     in List.map_filter (decodePoint E pod) (psValues r)
        @ (case decodePoint E pod (psValue r) of None \<Rightarrow> [] | Some s \<Rightarrow> [s]))"

definition decodeAnswer :: "('w, 'sel) env \<Rightarrow> httpAnswer \<Rightarrow> Sample list result" where
  "decodeAnswer E a =
    (if haCode a \<noteq> 200 then
       Inl (Plain (''unexpected status '' @ show_int (haCode a) @ '': '' @ haBody a))
     else case haDecoded a of
       Inl e \<Rightarrow> Inl (Wrapped ''failed to decode response'' e)
     | Inr resp \<Rightarrow>
         if prStatus resp \<noteq> ''success'' then
           Inl (Plain (''prometheus API error: '' @ prError resp))
         else case prData resp of
           None \<Rightarrow> Inr []
         | Some d \<Rightarrow> Inr (concat (map (decodeSeries E) (pdResult d))))"

definition transportErr :: "transport \<Rightarrow> error" where
  "transportErr t = (case t of
      BadURL e \<Rightarrow> Wrapped ''invalid URL'' e | BadRequest e \<Rightarrow> Wrapped ''failed to create request'' e
    | DoFailed e \<Rightarrow> Wrapped ''request failed'' e)"

definition doRequest ::
  "('w, 'sel) env \<Rightarrow> MetricsClient \<Rightarrow> string \<Rightarrow> (string \<times> string) list
     \<Rightarrow> ('w, Sample list result) io" where
  "doRequest E c path params = do {
     a \<leftarrow> ePromGet E (mcBaseURL c @ path) (encodeValues params);
     State_Monad.return (case a of
         Inl t \<Rightarrow> Inl (transportErr t)
       | Inr ans \<Rightarrow> decodeAnswer E ans) }"

definition QueryRange ::
  "('w, 'sel) env \<Rightarrow> MetricsClient \<Rightarrow> string \<Rightarrow> gotime \<Rightarrow> gotime \<Rightarrow> int
     \<Rightarrow> ('w, Sample list result) io" where
  "QueryRange E c query start stop step =
    doRequest E c ''/api/v1/query_range''
      [(''query'', query), (''start'', formatTime start), (''end'', formatTime stop),
       (''step'', show_int step)]"

definition QueryInstant ::
  "('w, 'sel) env \<Rightarrow> MetricsClient \<Rightarrow> string \<Rightarrow> ('w, Sample list result) io" where
  "QueryInstant E c query = doRequest E c ''/api/v1/query'' [(''query'', query)]"

section \<open>Arithmetic on samples\<close>

text \<open>\<^verbatim>\<open>for _, s := range samples { total += s.Value }\<close>, from the left, in floats.\<close>

definition sumFrom :: "f64 \<Rightarrow> f64 list \<Rightarrow> f64" where
  "sumFrom z vs = foldl (+) z vs"

definition SumValues :: "Sample list \<Rightarrow> f64" where
  "SumValues samples = sumFrom (Fin 0) (map smValue samples)"

definition gibi :: f64 where
  "gibi = Fin 1073741824"

definition ComputeCoreHours :: "Sample list \<Rightarrow> f64 \<Rightarrow> f64" where
  "ComputeCoreHours samples elapsedHours =
    (if samples = [] then Fin 0
     else sumFrom (Fin 0) (map smValue samples) / i2f (int (length samples)) * elapsedHours)"

definition ComputeGiBHours :: "Sample list \<Rightarrow> f64 \<Rightarrow> f64" where
  "ComputeGiBHours samples elapsedHours =
    (if samples = [] then Fin 0
     else sumFrom (Fin 0) (map smValue samples) / i2f (int (length samples)) / gibi * elapsedHours)"

definition AverageCPUPercent :: "Sample list \<Rightarrow> f64" where
  "AverageCPUPercent samples =
    (if samples = [] then Fin 0
     else sumFrom (Fin 0) (map smValue samples) / i2f (int (length samples)) * i2f 100)"

section \<open>Sums\<close>

lemma sumFrom_simps [simp]:
  "sumFrom z [] = z"
  "sumFrom z (v # vs) = sumFrom (z + v) vs"
  "sumFrom z (vs @ us) = sumFrom (sumFrom z vs) us"
  by (simp_all add: sumFrom_def)

lemma sumFrom_NaN [simp]: "sumFrom NaN vs = NaN"
  by (induction vs) auto

lemma sumFrom_NaN_mem: "NaN \<in> set vs \<Longrightarrow> sumFrom z vs = NaN"
  by (induction vs arbitrary: z) auto

text \<open>A measurement: a representable float that is neither negative nor NaN.\<close>

definition measured :: "f64 \<Rightarrow> bool" where
  "measured x = (fok x \<and> Fin 0 \<le> x)"

lemma measured_0 [simp]: "measured (Fin 0)"
  by (simp add: measured_def)

lemma measured_plus [intro]: "measured x \<Longrightarrow> measured y \<Longrightarrow> measured (x + y)"
  by (simp add: measured_def fok_plus plus_nonneg)

lemma measured_le_plus: "measured x \<Longrightarrow> measured y \<Longrightarrow> x \<le> x + y"
  by (simp add: measured_def plus_ge_left)

lemma measured_notNaN: "measured x \<Longrightarrow> x \<noteq> NaN"
  by (auto simp: measured_def)

lemma sumFrom_measured:
  "measured z \<Longrightarrow> list_all measured vs \<Longrightarrow> measured (sumFrom z vs) \<and> z \<le> sumFrom z vs"
proof (induction vs arbitrary: z)
  case Nil
  then show ?case by (auto intro: fle_refl dest: measured_notNaN)
next
  case (Cons v vs)
  then have "measured v" and vs: "list_all measured vs" by auto
  with Cons.prems(1) have "measured (z + v)" and "z \<le> z + v"
    by (auto intro: measured_le_plus)
  with Cons.IH [OF _ vs, of "z + v"] show ?case
    by (auto intro: fle_trans)
qed

lemma plus_comm: "x + y = (y + x :: f64)"
  by (cases x; cases y) (simp_all add: plus_f64_def add.commute)

lemma sumFrom_ge_mem:
  assumes "measured z" and "list_all measured vs" and "v \<in> set vs"
  shows "v \<le> sumFrom z vs"
  using assms
proof (induction vs arbitrary: z)
  case (Cons u vs)
  then have u: "measured u" and vs: "list_all measured vs" by auto
  with Cons.prems(1) have zu: "measured (z + u)" by auto
  show ?case
  proof (cases "v = u")
    case True
    have "u \<le> z + u" using u Cons.prems(1) by (simp add: plus_comm [of z] measured_le_plus)
    with True sumFrom_measured [OF zu vs] show ?thesis by (auto intro: fle_trans)
  next
    case False
    with Cons zu vs show ?thesis by simp
  qed
qed simp

lemma SumValues_ge_mem:
  "list_all measured (map smValue samples) \<Longrightarrow> s \<in> set samples \<Longrightarrow>
   smValue s \<le> SumValues samples"
  unfolding SumValues_def by (rule sumFrom_ge_mem) auto

lemma SumValues_measured:
  "list_all measured (map smValue samples) \<Longrightarrow> measured (SumValues samples)"
  unfolding SumValues_def by (rule conjunct1, rule sumFrom_measured) auto

lemma SumValues_NaN: "NaN \<in> set (map smValue samples) \<Longrightarrow> SumValues samples = NaN"
  unfolding SumValues_def by (rule sumFrom_NaN_mem)

section \<open>Prometheus answers\<close>

lemma doRequest_keeps:
  assumes "transp R" and "reflp R" and "\<And>u q. keeps R (ePromGet E u q)"
  shows "keeps R (doRequest E c path ps)"
  unfolding doRequest_def by (intro keeps_bind keeps_return assms)

lemma QueryRange_keeps:
  assumes "transp R" and "reflp R" and "\<And>u q. keeps R (ePromGet E u q)"
  shows "keeps R (QueryRange E c q a b n)"
  unfolding QueryRange_def by (rule doRequest_keeps [OF assms])

lemma QueryInstant_keeps:
  assumes "transp R" and "reflp R" and "\<And>u q. keeps R (ePromGet E u q)"
  shows "keeps R (QueryInstant E c q)"
  unfolding QueryInstant_def by (rule doRequest_keeps [OF assms])

text \<open>
  What Prometheus writes for one pod of an instant vector: a timestamp in milliseconds, as a
  JSON number of seconds, which the decoder rounds to the nearest float; and the text of the
  value, a decimal of any number of places or one of the special values.
\<close>

datatype reading = Decimal bool nat nat | ReadNaN | ReadInf bool

fun readingText :: "reading \<Rightarrow> string" where
  "readingText (Decimal neg n k) = (if neg then [CHR ''-''] else []) @ fixed n k"
| "readingText ReadNaN = ''NaN''"
| "readingText (ReadInf neg) = (if neg then ''-Inf'' else ''+Inf'')"

text \<open>The float a reading denotes, and that a decimal is not beyond the largest one.\<close>

fun readingValue :: "reading \<Rightarrow> f64" where
  "readingValue (Decimal neg n k) =
    (if k = 0 then zeroS neg else f64_of ((if neg then - 1 else 1) * (of_nat k / 10 ^ n)))"
| "readingValue ReadNaN = NaN"
| "readingValue (ReadInf neg) = infS neg"

fun inRange :: "reading \<Rightarrow> bool" where
  "inRange (Decimal neg n k) \<longleftrightarrow> \<not> isInf (f64_of (of_nat k / 10 ^ n))"
| "inRange _ \<longleftrightarrow> True"

definition vectorRow :: "string \<times> int \<times> reading \<Rightarrow> promSeries" where
  "vectorRow row = (case row of (pod, ms, x) \<Rightarrow>
     \<lparr>psMetric = [''pod'' \<mapsto> pod], psValues = [],
      psValue = [JNum (f64_of (of_int ms / 1000)), JStr (readingText x)]\<rparr>)"

definition vectorAnswer :: "(string \<times> int \<times> reading) list \<Rightarrow> httpAnswer" where
  "vectorAnswer rows = \<lparr>haCode = 200, haBody = [], haDecoded = Inr
     \<lparr>prStatus = ''success'', prData = Some \<lparr>pdResultType = ''vector'', pdResult = map vectorRow rows\<rparr>,
      prError = []\<rparr>\<rparr>"

lemma subF_self: "\<bar>n\<bar> \<le> 2 ^ 53 \<Longrightarrow> subF (i2f n) (i2f n) = Fin 0"
  using i2f_exact [of n] i2f_exact [of "- n"]
  by (auto simp: subF_def plus_f64_def times_f64_def zeroS_def i2f_def isZeroF_iff)

lemma f2i_i2f: "\<bar>n\<bar> \<le> 2 ^ 53 \<Longrightarrow> sint (f2i impl (i2f n)) = n"
proof -
  assume n: "\<bar>n\<bar> \<le> 2 ^ 53"
  then have "rtrunc (of_int n) = n" by (simp add: rtrunc_def)
  moreover from n have "- (2 ^ 63) \<le> n" and "n < 2 ^ 63" by auto
  ultimately show ?thesis
    using n by (simp add: i2f_exact f2i_def fits64_def sint_sbintrunc' signed_take_bit_int_eq_self)
qed

lemma toTime_seconds:
  assumes "\<bar>n\<bar> \<le> 2 ^ 53"
  shows "toTime E (JNum (i2f n)) = Inr (timeUnix E n 0)"
proof -
  have "Fin 0 * i2f 1000000000 = i2f 0"
    by (simp add: times_f64_def i2f_exact zeroS_def)
  then have "subF (i2f n) (i2f n) * i2f 1000000000 = i2f 0"
    using assms by (simp add: subF_self)
  with assms show ?thesis
    by (simp add: toTime_def Let_def f2i_i2f)
qed

lemma ParseFloat_minus: "ParseFloat (CHR ''-'' # fixed n k) = parsed_mag True (Some (of_nat k / 10 ^ n))"
  by (simp add: parse_signed_def readMag_fixed)

lemma toFloat64_reading:
  assumes "inRange x"
  shows "toFloat64 (JStr (readingText x)) = Inr (readingValue x)"
proof (cases x)
  case (Decimal neg n k)
  with assms show ?thesis
    by (cases neg) (auto simp: toFloat64_def ParseFloat_minus ParseFloat_fixed parsed_mag_def simp del: ParseFloat.simps)
qed (simp_all add: toFloat64_def parse_signed_def lowerS_words infS_def)

text \<open>The error of one rounding, for floats of moderate size.\<close>

lemma f64_near:
  assumes "0 \<le> r" and "r < pow2 k" and "- 1021 \<le> k" and "k \<le> 1023"
  obtains v where "f64_of r = Fin v" and "0 \<le> v" and "\<bar>v - r\<bar> \<le> pow2 (k - 54)"
proof (cases "r = 0")
  case True
  then show ?thesis by (intro that [of 0]) simp_all
next
  case False
  with assms(1) have pos: "0 < r" by simp
  have ulp: "ulp_exp r \<le> k - 53" using ulp_exp_small [OF pos assms(2,3)] .
  have "rnd r \<le> pow2 k" using pos assms(2) ulp by (intro rnd_le_pow2) simp_all
  also have "\<dots> < pow2 1024" using assms(4) by (intro pow2_strict_mono) simp
  finally have "f64_of r = Fin (rnd r)" using pos by (simp add: f64_of_pos_cases)
  moreover have "\<bar>rnd r - r\<bar> \<le> pow2 (k - 54)"
  proof -
    have "\<bar>rnd r - r\<bar> \<le> pow2 (ulp_exp r) / 2" by (rule rnd_error)
    also have "\<dots> \<le> pow2 (k - 53) / 2" using pow2_mono [OF ulp] by simp
    also have "\<dots> = pow2 (k - 54)" using pow2_add [of "k - 54" 1] by (simp add: pow2_def [of 1])
    finally show ?thesis .
  qed
  ultimately show ?thesis using pos by (intro that [of "rnd r"]) (simp_all add: rnd_nonneg)
qed

lemma times_Fin: "0 \<le> a \<Longrightarrow> 0 \<le> b \<Longrightarrow> Fin a * Fin b = f64_of (a * b)"
  by (auto simp: times_f64_def zeroS_def isZeroF_iff)

text \<open>
  A timestamp in milliseconds, up to the year 2106, is off by less than a quarter of a
  microsecond once it is an instant.
\<close>

lemma f2i_Fin:
  assumes "0 \<le> v" and "v < pow2 62"
  shows "sint (f2i impl (Fin v)) = \<lfloor>v\<rfloor>"
proof -
  have f: "0 \<le> \<lfloor>v\<rfloor>" using assms(1) by simp
  have "\<lfloor>v\<rfloor> < 2 ^ 62" using assms(2) by (simp add: floor_less_iff pow2_def)
  with f assms(1) show ?thesis
    by (simp add: f2i_def rtrunc_def fits64_def sint_sbintrunc' signed_take_bit_int_eq_self)
qed

lemma subF_floor:
  assumes "0 \<le> v" and "v < pow2 53"
  shows "subF (Fin v) (i2f \<lfloor>v\<rfloor>) = f64_of (v - of_int \<lfloor>v\<rfloor>)"
proof -
  have f: "0 \<le> \<lfloor>v\<rfloor>" using assms(1) by simp
  have le: "\<lfloor>v\<rfloor> \<le> 2 ^ 53"
    using assms(2) floor_less_iff [of v "2 ^ 53"] by (simp add: pow2_def)
  with f have "i2f \<lfloor>v\<rfloor> = Fin (of_int \<lfloor>v\<rfloor>)" "f64_of (- of_int \<lfloor>v\<rfloor>) = Fin (- of_int \<lfloor>v\<rfloor>)"
    using i2f_exact [of "\<lfloor>v\<rfloor>"] i2f_exact [of "- \<lfloor>v\<rfloor>"] by (simp_all add: i2f_def)
  then show ?thesis
    by (auto simp: subF_def plus_f64_def times_f64_def zeroS_def isZeroF_iff)
qed

lemma toTime_near:
  assumes "0 \<le> ms" and "ms < 2 ^ 32 * 1000"
  obtains t where "toTime E (JNum (f64_of (of_int ms / 1000))) = Inr t"
    and "\<bar>nanos t - ms * 1000000\<bar> < 250" and "0 \<le> tnsec t" and "tnsec t < 1000000000"
proof -
  define x where "x = (of_int ms / 1000 :: rat)"
  have x: "0 \<le> x" "x < pow2 32"
    using assms of_int_less_iff [of ms "2 ^ 32 * 1000", where ?'a = rat]
    by (simp_all add: x_def pow2_def pos_divide_less_eq)
  obtain v where v: "f64_of x = Fin v" "0 \<le> v" "\<bar>v - x\<bar> \<le> pow2 (32 - 54)"
    by (rule f64_near [OF x]) simp_all
  have c: "pow2 (32 - 54) = (1 / 4194304 :: rat)" "pow2 32 = (4294967296 :: rat)"
    "pow2 (0 - 54) = (1 / 18014398509481984 :: rat)" "pow2 (31 - 54) = (1 / 8388608 :: rat)"
    "pow2 31 = (2147483648 :: rat)" "pow2 0 = (1 :: rat)" by (simp_all add: pow2_def)
  have "v < 4294967297" using v(3) x(2) unfolding c by linarith
  then have small: "v < pow2 62" "v < pow2 53" by (simp_all add: pow2_def)
  define n where "n = \<lfloor>v\<rfloor>"
  have frac: "0 \<le> v - of_int n" "v - of_int n < pow2 0"
    unfolding n_def by (simp add: pow2_def, simp add: pow2_def) linarith
  obtain u where u: "f64_of (v - of_int n) = Fin u" "0 \<le> u" "\<bar>u - (v - of_int n)\<bar> \<le> pow2 (0 - 54)"
    by (rule f64_near [OF frac]) simp_all
  have "u < 2" using u(3) frac(2) unfolding c by linarith
  then have big: "u * 1000000000 < pow2 31" unfolding c by linarith
  obtain z where z: "f64_of (u * 1000000000) = Fin z" "0 \<le> z" "\<bar>z - u * 1000000000\<bar> \<le> pow2 (31 - 54)"
    by (rule f64_near [OF _ big]) (use u(2) in simp_all)
  have "z < 2147483649" using z(3) big unfolding c by linarith
  then have zlt: "z < pow2 62" by (simp add: pow2_def)
  have "i2f 1000000000 = Fin 1000000000" using i2f_exact [of 1000000000] by simp
  then have "toTime E (JNum (Fin v)) = Inr (timeUnix E n \<lfloor>z\<rfloor>)"
    using z(1) times_Fin [OF u(2), of 1000000000] f2i_Fin [OF v(2) small(1)] f2i_Fin [OF z(2) zlt]
      subF_floor [OF v(2) small(2)] u(1)
    by (simp add: toTime_def Let_def n_def)
  moreover have "nanos (timeUnix E n \<lfloor>z\<rfloor>) = n * 1000000000 + \<lfloor>z\<rfloor>"
    by (simp add: timeUnix_def nanos_def algebra_simps)
  moreover have "\<bar>n * 1000000000 + \<lfloor>z\<rfloor> - ms * 1000000\<bar> < 250"
  proof -
    have fl: "of_int \<lfloor>z\<rfloor> \<le> z" "z < of_int \<lfloor>z\<rfloor> + 1" by linarith+
    have ms: "(of_int ms * 1000000 :: rat) = x * 1000000000" by (simp add: x_def)
    have "\<bar>of_int n * 1000000000 + of_int \<lfloor>z\<rfloor> - x * 1000000000\<bar> < (250 :: rat)"
      using fl z(3) u(3) v(3) unfolding c by linarith
    then have "\<bar>of_int (n * 1000000000 + \<lfloor>z\<rfloor> - ms * 1000000)\<bar> < (of_int 250 :: rat)"
      by (simp add: ms)
    then show ?thesis by (simp only: of_int_abs [symmetric] of_int_less_iff)
  qed
  ultimately show ?thesis
    using v(1) by (intro that [of "timeUnix E n \<lfloor>z\<rfloor>"]) (simp_all add: x_def timeUnix_def)
qed

lemma decodeSeries_row:
  "inRange x \<Longrightarrow> toTime E (JNum (f64_of (of_int ms / 1000))) = Inr t \<Longrightarrow>
   decodeSeries E (vectorRow (pod, ms, x)) = [\<lparr>smPod = pod, smTimeStamp = t, smValue = readingValue x\<rparr>]"
  by (simp add: decodeSeries_def vectorRow_def decodePoint_def toFloat64_reading)

lemma decodeSeries_whole:
  assumes "inRange x" and "\<bar>t\<bar> \<le> 2 ^ 53"
  shows "decodeSeries E (vectorRow (pod, t * 1000, x)) =
    [\<lparr>smPod = pod, smTimeStamp = timeUnix E t 0, smValue = readingValue x\<rparr>]"
  using toTime_seconds [OF assms(2), of E] by (intro decodeSeries_row [OF assms(1)]) (simp add: i2f_def)

text \<open>That a sample is the one a row denotes.\<close>

definition sampleOf :: "string \<times> int \<times> reading \<Rightarrow> Sample \<Rightarrow> bool" where
  "sampleOf row s \<longleftrightarrow> (case row of (pod, ms, x) \<Rightarrow>
     smPod s = pod \<and> smValue s = readingValue x \<and> \<bar>nanos (smTimeStamp s) - ms * 1000000\<bar> < 250 \<and>
     0 \<le> tnsec (smTimeStamp s) \<and> tnsec (smTimeStamp s) < 1000000000)"

lemma decodeSeries_sample:
  assumes "inRange x" and "0 \<le> ms" and "ms < 2 ^ 32 * 1000"
  obtains s where "decodeSeries E (vectorRow (pod, ms, x)) = [s]" and "sampleOf (pod, ms, x) s"
proof -
  obtain t where "toTime E (JNum (f64_of (of_int ms / 1000))) = Inr t"
    and "\<bar>nanos t - ms * 1000000\<bar> < 250" and "0 \<le> tnsec t" and "tnsec t < 1000000000"
    using toTime_near [OF assms(2,3)] .
  with decodeSeries_row [OF assms(1)] show ?thesis
    by (intro that [of "\<lparr>smPod = pod, smTimeStamp = t, smValue = readingValue x\<rparr>"]) (simp_all add: sampleOf_def)
qed

lemma vector_samples:
  assumes "\<forall>(pod, ms, x) \<in> set rows. 0 \<le> ms \<and> ms < 2 ^ 32 * 1000 \<and> inRange x"
  obtains samples where "decodeAnswer E (vectorAnswer rows) = Inr samples" and "list_all2 sampleOf rows samples"
proof -
  have "\<exists>samples. concat (map (decodeSeries E) (map vectorRow rows)) = samples \<and> list_all2 sampleOf rows samples"
    using assms
  proof (induction rows)
    case (Cons row rows)
    obtain pod ms x where row: "row = (pod, ms, x)" by (cases row) auto
    with Cons.prems have "inRange x" "0 \<le> ms" "ms < 2 ^ 32 * 1000" by simp_all
    then obtain s where "decodeSeries E (vectorRow row) = [s]" and "sampleOf row s"
      unfolding row by (rule decodeSeries_sample [where E = E and pod = pod])
    with Cons show ?case by simp
  qed simp
  then show ?thesis by (intro that) (simp_all add: decodeAnswer_def vectorAnswer_def)
qed

section \<open>Properties\<close>

text \<open>
  C37. An answered instant query gives exactly the samples the server wrote, in its order: the
  text of every value, a decimal of any length and sign that does not round to an infinity, or
  NaN or an infinity itself, decodes to
  the float it denotes, and every timestamp, in milliseconds of the years 1970 to 2106, to an
  instant less than 250 nanoseconds away. No sample is dropped, duplicated or attributed to
  another pod.
\<close>

theorem decode_vector:
  assumes "\<forall>(pod, ms, x) \<in> set rows. 0 \<le> ms \<and> ms < 2 ^ 32 * 1000 \<and> inRange x"
  shows "\<exists>samples. decodeAnswer E (vectorAnswer rows) = Inr samples \<and> list_all2 sampleOf rows samples"
  using vector_samples [OF assms, of E] by blast

theorem decode_vector_witness:
  "\<exists>s. decodeAnswer memEnv (vectorAnswer [(''api-7d-x'', 1700000000123, Decimal False 1 999)]) = Inr [s] \<and>
    readingText (Decimal False 1 999) = ''99.9'' \<and>
    smPod s = ''api-7d-x'' \<and> smValue s = f64_of (999 / 10) \<and>
    \<bar>nanos (smTimeStamp s) - 1700000000123000000\<bar> < 250"
proof -
  have "inRange (Decimal False 1 999)" and t: "readingText (Decimal False 1 999) = ''99.9''" by code_simp+
  then have "\<exists>samples. decodeAnswer memEnv (vectorAnswer [(''api-7d-x'', 1700000000123, Decimal False 1 999)]) =
      Inr samples \<and> list_all2 sampleOf [(''api-7d-x'', 1700000000123, Decimal False 1 999)] samples"
    by (intro decode_vector) simp
  then show ?thesis using t by (auto simp: list_all2_Cons1 sampleOf_def)
qed

text \<open>
  A query succeeds exactly when the exchange succeeded, the status is 200, the body
  decodes and Prometheus itself says success; every failure is an error, never an empty
  list of samples that would read as zero usage.
\<close>

lemma doRequest_ok_iff:
  "(\<exists>samples. fst (run_state (doRequest E c path params) w) = Inr samples) \<longleftrightarrow>
   (\<exists>a resp. fst (run_state (ePromGet E (mcBaseURL c @ path) (encodeValues params)) w) = Inr a
      \<and> haCode a = 200 \<and> haDecoded a = Inr resp \<and> prStatus resp = ''success'')"
  by (auto simp: doRequest_def decodeAnswer_def split: prod.splits sum.splits option.splits)

text \<open>
  The namespace figure is a sum in floats: over measurements (representable, not
  negative) it is a measurement no smaller than any pod's, and one NaN sample makes the
  whole figure NaN whatever the others are.
\<close>

lemma SumValues_bounds:
  "(list_all measured (map smValue samples) \<longrightarrow>
      measured (SumValues samples) \<and> (\<forall>s \<in> set samples. smValue s \<le> SumValues samples)) \<and>
   (NaN \<in> set (map smValue samples) \<longrightarrow> SumValues samples = NaN)"
  by (simp add: SumValues_measured SumValues_ge_mem SumValues_NaN)

theorem SumValues_bounds_witness:
  "measured (SumValues [\<lparr>smPod = ''a'', smTimeStamp = zeroTime, smValue = Fin 1\<rparr>,
                        \<lparr>smPod = ''b'', smTimeStamp = zeroTime, smValue = Fin 2\<rparr>])
   \<and> SumValues [\<lparr>smPod = ''a'', smTimeStamp = zeroTime, smValue = NaN\<rparr>,
                \<lparr>smPod = ''b'', smTimeStamp = zeroTime, smValue = Fin 2\<rparr>] = NaN"
proof -
  have m: "measured (Fin 1)" "measured (Fin 2)" by code_simp+
  show ?thesis
    using SumValues_bounds [of "[\<lparr>smPod = ''a'', smTimeStamp = zeroTime, smValue = Fin 1\<rparr>,
        \<lparr>smPod = ''b'', smTimeStamp = zeroTime, smValue = Fin 2\<rparr>]"]
      SumValues_bounds [of "[\<lparr>smPod = ''a'', smTimeStamp = zeroTime, smValue = NaN\<rparr>,
        \<lparr>smPod = ''b'', smTimeStamp = zeroTime, smValue = Fin 2\<rparr>]"] m
    by simp
qed

end
