(* ===== verification/Idle.thy ===== *)
theory Idle
  imports Metrics
begin

text \<open>
  \<^verbatim>\<open>internal/idle/detector.go\<close>: grouping samples by pod and by Deployment, the idle decision,
  the exclusions. Shown: the averages are the per-key means, the pod name heuristic
  inverts the naming scheme of Deployments, and every workload reported idle is a
  Deployment that exists and whose mean usage is below the threshold.
\<close>

section \<open>Types and helpers\<close>

record IdleWorkload =
  wlName :: string
  wlNamespace :: string
  wlIdleSince :: gotime

text \<open>\<^verbatim>\<open>m[key] += v\<close> and \<^verbatim>\<open>n[key]++\<close> over a list, into maps that start empty.\<close>

definition groupSums :: "('a \<Rightarrow> string) \<Rightarrow> ('a \<Rightarrow> f64) \<Rightarrow> 'a list \<Rightarrow> (string \<times> f64) list" where
  "groupSums key val xs =
    foldl (\<lambda>m x. AList.update (key x) (alookup (Fin 0) m (key x) + val x) m) [] xs"

definition groupCounts :: "('a \<Rightarrow> string) \<Rightarrow> 'a list \<Rightarrow> (string \<times> int) list" where
  "groupCounts key xs =
    foldl (\<lambda>m x. AList.update (key x) (alookup 0 m (key x) + 1) m) [] xs"

text \<open>\<^verbatim>\<open>sum / float64(counts[key])\<close> for every entry of the totals.\<close>

definition divideCounts :: "(string \<times> f64) list \<Rightarrow> (string \<times> int) list \<Rightarrow> (string \<times> f64) list" where
  "divideCounts totals counts = map (\<lambda>(k, s). (k, s / i2f (alookup 0 counts k))) totals"

definition averageByPod :: "Sample list \<Rightarrow> (string \<times> f64) list" where
  "averageByPod samples =
    divideCounts (groupSums smPod smValue samples) (groupCounts smPod samples)"

definition promDuration :: "duration \<Rightarrow> string" where
  "promDuration d =
    (if i2f 1 \<le> hoursF d then fmtF 0 (hoursF d) @ ''h'' else fmtF 0 (minutesF d) @ ''m'')"

definition PodToDeployment :: "string \<Rightarrow> string" where
  "PodToDeployment podName =
    (let parts = splitOn (CHR ''-'') podName
     in if length parts \<le> 2 then podName else joinWith ''-'' (take (length parts - 2) parts))"

fun IsExcluded :: "string \<Rightarrow> 'sel Exclusion list \<Rightarrow> bool" where
  "IsExcluded workloadName [] = False"
| "IsExcluded workloadName (ex # exs) =
    (if exName ex \<noteq> [] \<and> exName ex = workloadName then True else IsExcluded workloadName exs)"

fun IsLabelExcluded :: "('w, 'sel) env \<Rightarrow> deployment \<Rightarrow> 'sel Exclusion list \<Rightarrow> bool" where
  "IsLabelExcluded E d [] = False"
| "IsLabelExcluded E d (ex # exs) =
    (case exLabelSelector ex of
       None \<Rightarrow> IsLabelExcluded E d exs
     | Some sel \<Rightarrow>
         (case eSelector E sel of
            None \<Rightarrow> IsLabelExcluded E d exs
          | Some matches \<Rightarrow> if matches (dLabels d) then True else IsLabelExcluded E d exs))"

section \<open>Detection\<close>

definition nl :: string where
  "nl = [CHR 0x0A]"

definition idleQuery :: "string \<Rightarrow> duration \<Rightarrow> string" where
  "idleQuery namespace window =
     ''avg_over_time('' @ nl
     @ ''            rate(container_cpu_usage_seconds_total{namespace=\"'' @ namespace
     @ ''\", container!=\"\"}[5m])'' @ nl
     @ ''        ['' @ promDuration window @ '':1m])''"

text \<open>Per Deployment, in the order the pods are visited: the sum and the number of pod averages.\<close>

definition depSums :: "(string \<times> f64) list \<Rightarrow> (string \<times> f64) list" where
  "depSums podAvg = groupSums (\<lambda>p. PodToDeployment (fst p)) snd podAvg"

definition depCounts :: "(string \<times> f64) list \<Rightarrow> (string \<times> int) list" where
  "depCounts podAvg = groupCounts (\<lambda>p. PodToDeployment (fst p)) podAvg"

definition idleList ::
  "string \<Rightarrow> f64 \<Rightarrow> gotime \<Rightarrow> (string \<times> int) list \<Rightarrow> (string \<times> f64) list \<Rightarrow> IdleWorkload list" where
  "idleList namespace threshold start counts totals =
    map (\<lambda>(dep, sum). \<lparr>wlName = dep, wlNamespace = namespace, wlIdleSince = start\<rparr>)
      (filter (\<lambda>(dep, sum). sum / i2f (alookup 0 counts dep) < threshold) totals)"

text \<open>Only names a Deployment can be fetched for are kept; a failed read drops the name.\<close>

fun verifyIdle :: "('w, 'sel) env \<Rightarrow> IdleWorkload list \<Rightarrow> ('w, IdleWorkload list) io" where
  "verifyIdle E [] = State_Monad.return []"
| "verifyIdle E (wl # wls) = do {
     r \<leftarrow> eGetDeployment E (wlNamespace wl) (wlName wl);
     rest \<leftarrow> verifyIdle E wls;
     State_Monad.return (case r of Inl _ \<Rightarrow> rest | Inr _ \<Rightarrow> wl # rest) }"

definition DetectIdle ::
  "('w, 'sel) env \<Rightarrow> MetricsClient \<Rightarrow> string \<Rightarrow> f64 \<Rightarrow> duration \<Rightarrow> ('w, IdleWorkload list result) io"
where
  "DetectIdle E metricsClient namespace threshold window = do {
     stop \<leftarrow> eNow E;
     r \<leftarrow> QueryRange E metricsClient (idleQuery namespace window) (addT stop (wrap64 (- window))) stop 60;
     (case r of
        Inl e \<Rightarrow> State_Monad.return (Inl (Wrapped ''querying idle metrics'' e))
      | Inr samples \<Rightarrow> do {
          pods \<leftarrow> eRange E (averageByPod samples);
          totals \<leftarrow> eRange E (depSums pods);
          verified \<leftarrow> verifyIdle E
            (idleList namespace threshold (addT stop (wrap64 (- window))) (depCounts pods) totals);
          State_Monad.return (Inr verified) }) }"

section \<open>Grouping\<close>

lemma groupSums_append:
  "groupSums key val (xs @ [x]) =
   AList.update (key x) (alookup (Fin 0) (groupSums key val xs) (key x) + val x)
     (groupSums key val xs)"
  by (simp add: groupSums_def)

lemma groupCounts_append:
  "groupCounts key (xs @ [x]) =
   AList.update (key x) (alookup 0 (groupCounts key xs) (key x) + 1) (groupCounts key xs)"
  by (simp add: groupCounts_def)

text \<open>The values of one key, in order.\<close>

definition ofKey :: "('a \<Rightarrow> string) \<Rightarrow> ('a \<Rightarrow> f64) \<Rightarrow> string \<Rightarrow> 'a list \<Rightarrow> f64 list" where
  "ofKey key val k xs = map val (filter (\<lambda>x. key x = k) xs)"

lemma ofKey_append [simp]:
  "ofKey key val k (xs @ [x]) = ofKey key val k xs @ (if key x = k then [val x] else [])"
  by (simp add: ofKey_def)

lemma ofKey_empty: "ofKey key val k xs = [] \<longleftrightarrow> k \<notin> key ` set xs"
  by (auto simp: ofKey_def filter_empty_conv)

lemma map_of_groupSums:
  "map_of (groupSums key val xs) k =
    (if k \<in> key ` set xs then Some (sumFrom (Fin 0) (ofKey key val k xs)) else None)"
proof (induction xs rule: rev_induct)
  case Nil
  then show ?case by (simp add: groupSums_def)
next
  case (snoc x xs)
  have "ofKey key val k xs = []" if "k \<notin> key ` set xs"
    using that by (simp add: ofKey_empty)
  with snoc show ?case
    by (auto simp: groupSums_append map_of_update_cases alookup_def split: if_splits)
qed

lemma map_of_groupCounts:
  "map_of (groupCounts key xs) k =
    (if k \<in> key ` set xs then Some (int (length (filter (\<lambda>x. key x = k) xs))) else None)"
proof (induction xs rule: rev_induct)
  case Nil
  then show ?case by (simp add: groupCounts_def)
next
  case (snoc x xs)
  have "filter (\<lambda>y. key y = k) xs = []" if "k \<notin> key ` set xs"
    using that by (auto simp: filter_empty_conv)
  with snoc show ?case
    by (auto simp: groupCounts_append map_of_update_cases alookup_def split: if_splits)
qed

lemma groupSums_keys: "distinct (map fst (groupSums key val xs))"
proof (induction xs rule: rev_induct)
  case Nil
  then show ?case by (simp add: groupSums_def)
next
  case (snoc x xs)
  then show ?case by (simp add: groupSums_append distinct_update)
qed

text \<open>The mean of a list of floats as the code computes it: summed from the left.\<close>

definition mean :: "f64 list \<Rightarrow> f64" where
  "mean vs = sumFrom (Fin 0) vs / i2f (int (length vs))"

lemma divideCounts_keys [simp]: "map fst (divideCounts totals counts) = map fst totals"
  by (auto simp: divideCounts_def)

lemma alookup_groupCounts:
  "alookup 0 (groupCounts key xs) k = int (length (filter (\<lambda>x. key x = k) xs))"
proof (cases "k \<in> key ` set xs")
  case True
  then show ?thesis by (simp add: alookup_def map_of_groupCounts)
next
  case False
  then have "filter (\<lambda>x. key x = k) xs = []" by (auto simp: filter_empty_conv)
  with False show ?thesis by (simp add: alookup_def map_of_groupCounts)
qed

lemma map_of_divideCounts:
  "map_of (divideCounts (groupSums key val xs) (groupCounts key xs)) k =
    (if k \<in> key ` set xs then Some (mean (ofKey key val k xs)) else None)"
  by (simp add: divideCounts_def map_of_map_snd map_of_groupSums alookup_groupCounts mean_def
      ofKey_def)

section \<open>Pod names\<close>

lemma PodToDeployment_two_suffixes:
  assumes "CHR ''-'' \<notin> set rs" and "CHR ''-'' \<notin> set pod"
  shows "PodToDeployment (name @ ''-'' @ rs @ ''-'' @ pod) = name"
proof -
  have "splitOn (CHR ''-'') (name @ ''-'' @ rs @ ''-'' @ pod) =
      splitOn (CHR ''-'') name @ [rs, pod]"
    using splitOn_append [of "CHR ''-''" name "rs @ ''-'' @ pod"]
      splitOn_append [of "CHR ''-''" rs pod] assms
    by (simp add: splitOn_none)
  moreover have "length (splitOn (CHR ''-'') name) \<noteq> 0" by simp
  ultimately show ?thesis
    by (simp add: PodToDeployment_def join_split Let_def)
qed

section \<open>Exclusions\<close>

lemma IsExcluded_iff: "IsExcluded n exs \<longleftrightarrow> n \<noteq> [] \<and> n \<in> exName ` set exs"
  by (induction exs) auto

lemma IsLabelExcluded_iff:
  "IsLabelExcluded E d exs \<longleftrightarrow>
   (\<exists>ex \<in> set exs. \<exists>sel matches. exLabelSelector ex = Some sel \<and> eSelector E sel = Some matches
      \<and> matches (dLabels d))"
  by (induction exs) (auto split: option.splits)

section \<open>Detection\<close>

context deployment_api
begin

lemma verifyIdle_frame: "keeps (\<lambda>w w'. deps w' = deps w) (verifyIdle E wls)"
  by (induction wls)
     (auto intro!: keeps_bind keeps_return get_frame simp: transp_view reflp_view)

lemma verifyIdle_sound:
  assumes "run_state (verifyIdle E wls) w = (kept, w')"
  shows "set kept \<subseteq> {wl \<in> set wls. deps w (wlNamespace wl, wlName wl) \<noteq> None} \<and>
    (distinct (map wlName wls) \<longrightarrow> distinct (map wlName kept))"
  using assms
proof (induction wls arbitrary: w w' kept)
  case Nil
  then show ?case by auto
next
  case (Cons wl wls)
  obtain r w1 rest w2 where
    r: "run_state (eGetDeployment E (wlNamespace wl) (wlName wl)) w = (r, w1)" and
    rest: "run_state (verifyIdle E wls) w1 = (rest, w2)" and
    kept: "kept = (case r of Inl _ \<Rightarrow> rest | Inr _ \<Rightarrow> wl # rest)"
    using Cons.prems by (auto split: prod.splits)
  from keepsD [OF get_frame r] have d: "deps w1 = deps w" .
  from Cons.IH [OF rest] have IH:
    "set rest \<subseteq> {wl \<in> set wls. deps w (wlNamespace wl, wlName wl) \<noteq> None}"
    "distinct (map wlName wls) \<longrightarrow> distinct (map wlName rest)"
    by (simp_all add: d)
  have "r = Inr x \<Longrightarrow> deps w (wlNamespace wl, wlName wl) \<noteq> None" for x
    using get_ok r by auto
  with IH show ?case
    by (cases r) (auto simp: kept)
qed

text \<open>When no read fails, nothing that exists is dropped.\<close>

lemma verifyIdle_complete:
  assumes "run_state (verifyIdle E wls) w = (kept, w')"
    and "\<And>ns n w v. \<lbrakk>deps w (ns, n) \<noteq> None; run_state (eGetDeployment E ns n) w = v\<rbrakk> \<Longrightarrow>
       \<exists>d. fst v = Inr d"
  shows "kept = filter (\<lambda>wl. deps w (wlNamespace wl, wlName wl) \<noteq> None) wls"
  using assms(1)
proof (induction wls arbitrary: w w' kept)
  case Nil
  then show ?case by auto
next
  case (Cons wl wls)
  obtain r w1 rest w2 where
    r: "run_state (eGetDeployment E (wlNamespace wl) (wlName wl)) w = (r, w1)" and
    rest: "run_state (verifyIdle E wls) w1 = (rest, w2)" and
    kept: "kept = (case r of Inl _ \<Rightarrow> rest | Inr _ \<Rightarrow> wl # rest)"
    using Cons.prems by (auto split: prod.splits)
  from keepsD [OF get_frame r] have d: "deps w1 = deps w" .
  have "r = Inr x \<Longrightarrow> deps w (wlNamespace wl, wlName wl) \<noteq> None" for x
    using get_ok r by auto
  moreover have "deps w (wlNamespace wl, wlName wl) = None \<or> (\<exists>x. r = Inr x)"
    using assms(2) [OF _ r] by (cases "deps w (wlNamespace wl, wlName wl)") auto
  ultimately show ?case
    using Cons.IH [OF rest] by (cases r) (auto simp: kept d)
qed

end

context cluster
begin

lemma same_refl [simp]: "same w w"
  by (simp add: same_def)

lemma transp_same: "transp same" and reflp_same: "reflp same"
  by (auto simp: transp_def reflp_def same_def)

lemmas same_intros = keeps_bind [OF transp_same] keeps_return [OF reflp_same]
  now_same get_same list_same prom_same range_same budget_same report_same reports_same
  QueryRange_keeps [OF transp_same reflp_same prom_same]
  QueryInstant_keeps [OF transp_same reflp_same prom_same]

lemma verifyIdle_same: "keeps same (verifyIdle E wls)"
  by (induction wls) (auto intro!: same_intros)

lemma DetectIdle_same: "keeps same (DetectIdle E c ns thr win)"
  unfolding DetectIdle_def
  by (intro same_intros verifyIdle_same) (auto split: sum.split intro!: same_intros verifyIdle_same)

end

lemma idleList_set:
  "set (idleList ns thr start counts tot) =
   {\<lparr>wlName = dep, wlNamespace = ns, wlIdleSince = start\<rparr> | dep s.
      (dep, s) \<in> set tot \<and> s / i2f (alookup 0 counts dep) < thr}"
  by (auto simp: idleList_def image_iff)

lemma idleList_names:
  assumes "distinct (map fst tot)"
  shows "distinct (map wlName (idleList ns thr start counts tot))"
proof -
  have "map wlName (idleList ns thr start counts tot) =
    map fst (filter (\<lambda>(dep, s). s / i2f (alookup 0 counts dep) < thr) tot)"
    by (simp add: idleList_def comp_def case_prod_beta)
  with assms show ?thesis by (simp only: distinct_map_fst_filter)
qed

text \<open>The mean of the pod averages of one Deployment, in the order the pods are visited.\<close>

definition depMean :: "(string \<times> f64) list \<Rightarrow> string \<Rightarrow> f64" where
  "depMean pods dep = mean (map snd (filter (\<lambda>p. PodToDeployment (fst p) = dep) pods))"

lemma depSums_entry:
  "(dep, s) \<in> set (depSums pods) \<longleftrightarrow>
   dep \<in> (\<lambda>p. PodToDeployment (fst p)) ` set pods \<and>
   s = sumFrom (Fin 0) (map snd (filter (\<lambda>p. PodToDeployment (fst p) = dep) pods))"
proof -
  have "(dep, s) \<in> set (depSums pods) \<longleftrightarrow> map_of (depSums pods) dep = Some s"
    by (simp add: depSums_def groupSums_keys map_of_eq_Some_iff)
  then show ?thesis
    by (auto simp: depSums_def map_of_groupSums ofKey_def)
qed

lemma depMean_eq:
  "sumFrom (Fin 0) (map snd (filter (\<lambda>p. PodToDeployment (fst p) = dep) pods))
     / i2f (alookup 0 (depCounts pods) dep) = depMean pods dep"
  by (simp add: depMean_def mean_def depCounts_def alookup_groupCounts)

lemma averageByPod_pods: "fst ` set (averageByPod samples) = smPod ` set samples"
proof -
  have "fst ` set (averageByPod samples) = set (map fst (groupSums smPod smValue samples))"
    unfolding averageByPod_def set_map [symmetric] divideCounts_keys ..
  also have "\<dots> = dom (map_of (groupSums smPod smValue samples))"
    by (simp add: dom_map_of_conv_image_fst)
  also have "\<dots> = smPod ` set samples"
    by (auto simp: map_of_groupSums dom_def)
  finally show ?thesis .
qed

text \<open>What the decision loop lists, over any visiting order of the two maps.\<close>

lemma idleList_spec:
  assumes "mset pods = mset (averageByPod samples)" and "mset tot = mset (depSums pods)"
  shows "set (idleList ns thr start (depCounts pods) tot) =
      {\<lparr>wlName = dep, wlNamespace = ns, wlIdleSince = start\<rparr> | dep.
         dep \<in> (PodToDeployment \<circ> smPod) ` set samples \<and> depMean pods dep < thr}"
    and "distinct (map wlName (idleList ns thr start (depCounts pods) tot))"
proof -
  have "set tot = set (depSums pods)" and pods: "set pods = set (averageByPod samples)"
    by (rule set_perm [OF assms(2)], rule set_perm [OF assms(1)])
  moreover have "(\<lambda>p. PodToDeployment (fst p)) ` set pods = (PodToDeployment \<circ> smPod) ` set samples"
  proof -
    have "(\<lambda>p. PodToDeployment (fst p)) ` set pods = PodToDeployment ` (fst ` set pods)"
      by (simp only: image_image)
    also have "\<dots> = (PodToDeployment \<circ> smPod) ` set samples"
      by (simp only: pods averageByPod_pods image_comp)
    finally show ?thesis .
  qed
  ultimately show "set (idleList ns thr start (depCounts pods) tot) =
      {\<lparr>wlName = dep, wlNamespace = ns, wlIdleSince = start\<rparr> | dep.
         dep \<in> (PodToDeployment \<circ> smPod) ` set samples \<and> depMean pods dep < thr}"
    by (auto simp: idleList_set depSums_entry depMean_eq)
  have "distinct (map fst tot)"
    using distinct_perm [of "map fst tot" "map fst (depSums pods)"] assms(2)
    by (simp add: depSums_def groupSums_keys)
  then show "distinct (map wlName (idleList ns thr start (depCounts pods) tot))"
    by (rule idleList_names)
qed

text \<open>
  The specification of a detection: the Deployments that exist in \<open>m\<close>, own a pod there is a
  sample of, and have a mean below the threshold.
\<close>

definition idleSpec ::
  "(objkey \<rightharpoonup> deployment) \<Rightarrow> string \<Rightarrow> f64 \<Rightarrow> gotime \<Rightarrow> Sample list \<Rightarrow> (string \<times> f64) list
     \<Rightarrow> IdleWorkload set" where
  "idleSpec m ns thr start samples pods =
    {\<lparr>wlName = dep, wlNamespace = ns, wlIdleSince = start\<rparr> | dep.
       dep \<in> (PodToDeployment \<circ> smPod) ` set samples \<and> depMean pods dep < thr \<and> m (ns, dep) \<noteq> None}"

lemma idleSpec_names:
  "wlName ` idleSpec m ns thr start samples pods =
    {dep. dep \<in> (PodToDeployment \<circ> smPod) ` set samples \<and> depMean pods dep < thr \<and> m (ns, dep) \<noteq> None}"
  unfolding idleSpec_def setcompr_eq_image image_image by simp

text \<open>The steps of one detection that succeeds.\<close>

lemma DetectIdle_steps:
  assumes "run_state (DetectIdle E c ns thr win) w = (Inr found, w')"
  obtains stop w1 samples w2 pods w3 tot w4 where
    "run_state (eNow E) w = (stop, w1)"
    "run_state (QueryRange E c (idleQuery ns win) (addT stop (wrap64 (- win))) stop 60) w1
       = (Inr samples, w2)"
    "run_state (eRange E (averageByPod samples)) w2 = (pods, w3)"
    "run_state (eRange E (depSums pods)) w3 = (tot, w4)"
    "run_state (verifyIdle E (idleList ns thr (addT stop (wrap64 (- win))) (depCounts pods) tot)) w4
       = (found, w')"
  using assms unfolding DetectIdle_def
  by (auto split: prod.splits sum.splits)

context cluster
begin

lemma detect_steps_world:
  assumes "run_state (DetectIdle E c ns thr win) w = (Inr found, w')"
  obtains stop w1 samples w2 pods tot w4 where
    "run_state (eNow E) w = (stop, w1)"
    "run_state (QueryRange E c (idleQuery ns win) (addT stop (wrap64 (- win))) stop 60) w1
       = (Inr samples, w2)"
    "mset pods = mset (averageByPod samples)"
    "mset tot = mset (depSums pods)"
    "deps w4 = deps w"
    "run_state (verifyIdle E (idleList ns thr (addT stop (wrap64 (- win))) (depCounts pods) tot)) w4
       = (found, w')"
proof -
  from assms obtain stop w1 samples w2 pods w3 tot w4 where
    1: "run_state (eNow E) w = (stop, w1)" and
    2: "run_state (QueryRange E c (idleQuery ns win) (addT stop (wrap64 (- win))) stop 60) w1
       = (Inr samples, w2)" and
    3: "run_state (eRange E (averageByPod samples)) w2 = (pods, w3)" and
    4: "run_state (eRange E (depSums pods)) w3 = (tot, w4)" and
    5: "run_state (verifyIdle E (idleList ns thr (addT stop (wrap64 (- win))) (depCounts pods) tot))
       w4 = (found, w')"
    by (rule DetectIdle_steps)
  have "same w w1" "same w1 w2" "same w2 w3" "same w3 w4"
    using keepsD [OF now_same 1] keepsD [OF _ 2] keepsD [OF range_same 3] keepsD [OF range_same 4]
    by (auto intro: same_intros)
  then have "deps w4 = deps w" by (simp add: same_def)
  then show ?thesis by (rule that [OF 1 2 range_perm [OF 3] range_perm [OF 4] _ 5])
qed

lemma verifyIdle_idle:
  assumes "mset pods = mset (averageByPod samples)" and "mset tot = mset (depSums pods)"
    and "deps w = m" and "run_state (verifyIdle E (idleList ns thr start (depCounts pods) tot)) w = (found, w')"
  shows "distinct (map wlName found)" and "set found \<subseteq> idleSpec m ns thr start samples pods"
    and "reliable_api E deps \<Longrightarrow> set found = idleSpec m ns thr start samples pods"
proof -
  note spec = idleList_spec [OF assms(1,2), of ns thr start]
  from verifyIdle_sound [OF assms(4)] spec(2) show "distinct (map wlName found)" by blast
  have all: "idleSpec m ns thr start samples pods =
      {wl \<in> set (idleList ns thr start (depCounts pods) tot). m (wlNamespace wl, wlName wl) \<noteq> None}"
    unfolding spec(1) by (auto simp: idleSpec_def)
  from verifyIdle_sound [OF assms(4)] show "set found \<subseteq> idleSpec m ns thr start samples pods"
    unfolding all assms(3) by blast
  show "set found = idleSpec m ns thr start samples pods" if "reliable_api E deps"
  proof -
    have "found = filter (\<lambda>wl. deps w (wlNamespace wl, wlName wl) \<noteq> None)
        (idleList ns thr start (depCounts pods) tot)"
      by (rule verifyIdle_complete [OF assms(4)]) (use reliable_api.get_up [OF that] in blast)
    then show ?thesis unfolding all assms(3) by simp
  qed
qed

lemma detect_exact:
  assumes run: "run_state (DetectIdle E c ns thr win) w = (Inr found, w')"
  defines "answered \<equiv> \<lambda>stop w1 samples pods. run_state (eNow E) w = (stop, w1) \<and>
       fst (run_state (QueryRange E c (idleQuery ns win) (addT stop (wrap64 (- win))) stop 60) w1)
         = Inr samples \<and> mset pods = mset (averageByPod samples)"
  shows "same w w' \<and> distinct (map wlName found) \<and> (\<exists>stop w1 samples pods. answered stop w1 samples pods \<and>
       set found \<subseteq> idleSpec (deps w) ns thr (addT stop (wrap64 (- win))) samples pods \<and>
       (reliable_api E deps \<longrightarrow>
         set found = idleSpec (deps w) ns thr (addT stop (wrap64 (- win))) samples pods))"
  using run
proof (rule detect_steps_world)
  fix stop w1 samples w2 pods tot w4
  assume now: "run_state (eNow E) w = (stop, w1)"
    and query: "run_state (QueryRange E c (idleQuery ns win) (addT stop (wrap64 (- win))) stop 60) w1
       = (Inr samples, w2)"
    and pods: "mset pods = mset (averageByPod samples)" and tot: "mset tot = mset (depSums pods)"
    and w4: "deps w4 = deps w"
    and v: "run_state (verifyIdle E (idleList ns thr (addT stop (wrap64 (- win))) (depCounts pods) tot))
       w4 = (found, w')"
  note idle = verifyIdle_idle [OF pods tot w4 v]
  have "answered stop w1 samples pods" by (simp add: answered_def now query pods)
  with idle keepsD [OF DetectIdle_same run] show ?thesis by blast
qed

end

section \<open>Properties\<close>

text \<open>
  C36. The owner of a pod named by a Deployment's scheme (name, replica-set hash, pod hash,
  the hashes without dashes) is found again, whatever dashes the name itself contains.
\<close>

theorem pod_owner:
  assumes "CHR ''-'' \<notin> set rs" and "CHR ''-'' \<notin> set pod"
  shows "PodToDeployment (name @ ''-'' @ rs @ ''-'' @ pod) = name"
  by (rule PodToDeployment_two_suffixes [OF assms])

theorem pod_owner_witness:
  "PodToDeployment (''payments-api'' @ ''-'' @ ''6d4f9b'' @ ''-'' @ ''xkq2p'') = ''payments-api''"
  by (rule pod_owner) simp_all

text \<open>
  The grouping loops compute, for every pod that has a sample and for no other, the mean
  of that pod's values in the order they arrived, and list every pod once.
\<close>

lemma averageByPod_mean:
  "map_of (averageByPod samples) pod =
     (if pod \<in> smPod ` set samples
      then Some (mean (map smValue (filter (\<lambda>s. smPod s = pod) samples))) else None)
   \<and> distinct (map fst (averageByPod samples))"
  by (simp add: averageByPod_def map_of_divideCounts ofKey_def groupSums_keys)

text \<open>
  C35. Whatever order the maps are visited in, a successful detection changes nothing in the
  cluster and reports each workload once; every reported workload is a Deployment of the
  namespace that exists, owns a pod the query answered for, has a mean below the threshold
  and is reported idle since the start of the window that was queried. With the API server
  up no such Deployment is missed.
\<close>

theorem DetectIdle_exact:
  assumes "cluster E deps buds reps slack same"
    and "run_state (DetectIdle E c ns thr win) w = (Inr found, w')"
  shows "same w w' \<and> distinct (map wlName found) \<and>
    (\<exists>stop w1 samples pods. (run_state (eNow E) w = (stop, w1) \<and>
       fst (run_state (QueryRange E c (idleQuery ns win) (addT stop (wrap64 (- win))) stop 60) w1)
         = Inr samples \<and> mset pods = mset (averageByPod samples)) \<and>
       set found \<subseteq> idleSpec (deps w) ns thr (addT stop (wrap64 (- win))) samples pods \<and>
       (reliable_api E deps \<longrightarrow>
         set found = idleSpec (deps w) ns thr (addT stop (wrap64 (- win))) samples pods))"
  by (rule cluster.detect_exact [OF assms])

text \<open>Two Deployments with one pod each, one of them below the threshold.\<close>

lemma depMean_single:
  assumes "distinct (map (PodToDeployment \<circ> fst) pods)" and "p \<in> set pods"
  shows "depMean pods (PodToDeployment (fst p)) = mean [snd p]"
proof -
  have "filter (\<lambda>q. PodToDeployment (fst q) = PodToDeployment (fst p)) pods = [p]"
    using assms by (induction pods) (auto simp: filter_empty_conv rev_image_eqI)
  then show ?thesis by (simp add: depMean_def)
qed

lemma calm_detects:
  assumes "mProm w = Inr ans # as" and "decodeAnswer calmEnv ans = Inr samples"
  shows "\<exists>found w'. run_state (DetectIdle calmEnv c ns thr win) w = (Inr found, w')"
    and "run_state (eNow calmEnv) w = (stop, w1) \<Longrightarrow> fst (run_state (QueryRange calmEnv c q t u n) w1) = Inr samples"
  using assms
  by (auto simp: DetectIdle_def QueryRange_def doRequest_def memProm_def calm_rest split: prod.splits)

definition exIdle :: mem where
  "exIdle = exMem [exDep ''api'' (Some 3), exDep ''web'' (Some 2)] []
     [Inr (vectorAnswer [(''api-7d-x1'', 1768478400000, Decimal False 6 1000),
      (''web-5c-y2'', 1768478400000, Decimal False 6 2000000)])]"

definition exIdleSamples :: "Sample list" where
  "exIdleSamples = [\<lparr>smPod = ''api-7d-x1'', smTimeStamp = exNoon,
      smValue = f64_of (of_nat 1000 / 10 ^ 6)\<rparr>,
     \<lparr>smPod = ''web-5c-y2'', smTimeStamp = exNoon,
      smValue = f64_of (of_nat 2000000 / 10 ^ 6)\<rparr>]"

lemma exIdle_owner [simp]:
  "PodToDeployment ''api-7d-x1'' = ''api''" "PodToDeployment ''web-5c-y2'' = ''web''"
  using PodToDeployment_two_suffixes [of "''7d''" "''x1''" "''api''"]
    PodToDeployment_two_suffixes [of "''5c''" "''y2''" "''web''"] by simp_all

lemma exIdle_average:
  "averageByPod exIdleSamples = [(''api-7d-x1'', mean [f64_of (of_nat 1000 / 10 ^ 6)]),
     (''web-5c-y2'', mean [f64_of (of_nat 2000000 / 10 ^ 6)])]"
  by (simp add: averageByPod_def groupSums_def groupCounts_def divideCounts_def exIdleSamples_def mean_def
      alookup_def)

lemma exIdle_deps: "map (PodToDeployment \<circ> fst) (averageByPod exIdleSamples) = [''api'', ''web'']"
  by (simp add: exIdle_average)

lemma exIdle_mean:
  "mean [mean [f64_of (of_nat 1000 / 10 ^ 6)]] < Fin 1 \<and> \<not> mean [mean [f64_of (of_nat 2000000 / 10 ^ 6)]] < Fin 1"
  by code_simp

lemma exIdle_means:
  "list_all (\<lambda>p. mean [snd p] < Fin 1 \<longleftrightarrow> PodToDeployment (fst p) = ''api'') (averageByPod exIdleSamples)"
  using exIdle_mean by (simp add: exIdle_average)

lemma exIdle_owners: "map (PodToDeployment \<circ> smPod) exIdleSamples = [''api'', ''web'']"
  by (simp add: exIdleSamples_def)

lemma exIdle_idle:
  assumes "mset pods = mset (averageByPod exIdleSamples)"
  shows "wlName ` idleSpec (memDeps exIdle) ''team'' (Fin 1) start exIdleSamples pods = {''api''}"
proof -
  have "distinct (map (PodToDeployment \<circ> fst) pods) \<longleftrightarrow> distinct (map (PodToDeployment \<circ> fst) (averageByPod exIdleSamples))"
    by (rule distinct_perm) (simp add: assms)
  then have d: "distinct (map (PodToDeployment \<circ> fst) pods)" by (simp add: exIdle_deps)
  have pods: "set pods = set (averageByPod exIdleSamples)" using assms by (rule set_perm)
  have "depMean pods dep < Fin 1 \<longleftrightarrow> dep = ''api''" if "dep \<in> {''api'', ''web''}" for dep
  proof -
    from that exIdle_deps have "dep \<in> set (map (PodToDeployment \<circ> fst) (averageByPod exIdleSamples))" by simp
    then obtain p where p: "p \<in> set pods" "dep = PodToDeployment (fst p)" unfolding pods by auto
    with depMean_single [OF d p(1)] exIdle_means pods show ?thesis by (simp add: list_all_iff)
  qed
  moreover have "memDeps exIdle (''team'', ''api'') \<noteq> None"
    by (simp add: exIdle_def exMem_def memDeps_def)
  moreover have "(PodToDeployment \<circ> smPod) ` set exIdleSamples = {''api'', ''web''}"
    unfolding set_map [symmetric] exIdle_owners by simp
  ultimately show ?thesis unfolding idleSpec_names by blast
qed

theorem DetectIdle_exact_witness:
  "\<exists>found w'. run_state (DetectIdle calmEnv (NewClient ''http://prometheus'') ''team'' (Fin 1) 1800000000000)
      exIdle = (Inr found, w') \<and> wlName ` set found = {''api''}"
proof -
  have p: "mProm exIdle = [Inr (vectorAnswer [(''api-7d-x1'', 1768478400000, Decimal False 6 1000),
      (''web-5c-y2'', 1768478400000, Decimal False 6 2000000)])]"
    by (simp add: exIdle_def exMem_def)
  have f: "inRange (Decimal False 6 1000)" "inRange (Decimal False 6 2000000)" by code_simp+
  have "decodeSeries calmEnv (vectorRow (''api-7d-x1'', 1768478400000, Decimal False 6 1000)) = [exIdleSamples ! 0]"
    using decodeSeries_whole [OF f(1), of 1768478400 calmEnv "''api-7d-x1''"]
    by (simp add: exIdleSamples_def timeUnix_def calmEnv_def exNoon_def)
  moreover have "decodeSeries calmEnv (vectorRow (''web-5c-y2'', 1768478400000, Decimal False 6 2000000)) = [exIdleSamples ! 1]"
    using decodeSeries_whole [OF f(2), of 1768478400 calmEnv "''web-5c-y2''"]
    by (simp add: exIdleSamples_def timeUnix_def calmEnv_def exNoon_def)
  ultimately have "decodeAnswer calmEnv (vectorAnswer [(''api-7d-x1'', 1768478400000, Decimal False 6 1000),
      (''web-5c-y2'', 1768478400000, Decimal False 6 2000000)]) = Inr exIdleSamples"
    by (simp add: decodeAnswer_def vectorAnswer_def) (simp add: exIdleSamples_def)
  note calm = calm_detects [OF p this]
  from calm(1) obtain found w' where run:
    "run_state (DetectIdle calmEnv (NewClient ''http://prometheus'') ''team'' (Fin 1) 1800000000000) exIdle = (Inr found, w')"
    by blast
  from DetectIdle_exact [OF calmc.cluster_axioms run] calm.reliable_api_axioms obtain stop w1 samples pods where
    now: "run_state (eNow calmEnv) exIdle = (stop, w1)"
    and q: "fst (run_state (QueryRange calmEnv (NewClient ''http://prometheus'') (idleQuery ''team'' 1800000000000)
         (addT stop (wrap64 (- 1800000000000))) stop 60) w1) = Inr samples"
    and pods: "mset pods = mset (averageByPod samples)"
    and found: "set found = idleSpec (memDeps exIdle) ''team'' (Fin 1) (addT stop (wrap64 (- 1800000000000))) samples pods"
    by blast
  from q calm(2) [OF now] have "samples = exIdleSamples" by simp
  with pods found exIdle_idle have "wlName ` set found = {''api''}" by simp
  with run show ?thesis by blast
qed

end
