(* ===== verification/Actions.thy ===== *)
theory Actions
  imports Idle
begin

text \<open>
  \<^verbatim>\<open>internal/actions\<close>: scaling a Deployment down with a recovery record, restoring it,
  suspending a namespace, and the Slack notification. Shown: the exact outcomes of the two
  operations under every failure of the API server, that neither can lose the replica
  count the owner asked for, that they invert each other, and that exclusions hold.
\<close>

section \<open>Annotations\<close>

definition AnnotationScaledDownBy :: string where
  "AnnotationScaledDownBy = ''cost.platform.io/scaled-down-by''"

definition AnnotationScaledDownAt :: string where
  "AnnotationScaledDownAt = ''cost.platform.io/scaled-down-at''"

definition AnnotationOriginalReplicas :: string where
  "AnnotationOriginalReplicas = ''cost.platform.io/original-replicas''"

definition AnnotationReason :: string where
  "AnnotationReason = ''cost.platform.io/reason''"

definition governorName :: string where
  "governorName = ''namespace-cost-governor''"

text \<open>
  \<^verbatim>\<open>m[k] = v\<close> on a map that is made when it is nil, and \<^verbatim>\<open>delete(m, k)\<close>, which does nothing
  to a nil map.
\<close>

definition setAnn :: "string \<Rightarrow> string \<Rightarrow> deployment \<Rightarrow> deployment" where
  "setAnn k v d = d\<lparr>dAnnotations := Some ((annOf d)(k \<mapsto> v))\<rparr>"

definition deleteAnn :: "string \<Rightarrow> deployment \<Rightarrow> deployment" where
  "deleteAnn k d = d\<lparr>dAnnotations := map_option (\<lambda>m. m(k := None)) (dAnnotations d)\<rparr>"

definition IsScaledDownByOperator :: "deployment \<Rightarrow> bool" where
  "IsScaledDownByOperator d =
    (case dAnnotations d of None \<Rightarrow> False | Some m \<Rightarrow> m AnnotationScaledDownBy = Some governorName)"

section \<open>Scale down and restore\<close>

definition toUTC :: "gotime \<Rightarrow> gotime" where
  "toUTC t = t\<lparr>tzoff := 0\<rparr>"

definition originalReplicas :: "deployment \<Rightarrow> 32 word" where
  "originalReplicas d = (case dReplicas d of None \<Rightarrow> 1 | Some r \<Rightarrow> r)"

text \<open>The recovery record, written before the replica count is touched.\<close>

definition recorded :: "gotime \<Rightarrow> deployment \<Rightarrow> deployment" where
  "recorded now d =
     setAnn AnnotationReason ''idle:cpu<threshold:30m''
    (setAnn AnnotationOriginalReplicas (show_int (sint (originalReplicas d)))
    (setAnn AnnotationScaledDownAt (formatRFC3339 (toUTC now))
    (setAnn AnnotationScaledDownBy governorName d)))"

definition ScaleDown :: "('w, 'sel) env \<Rightarrow> IdleWorkload \<Rightarrow> ('w, error option) io" where
  "ScaleDown E workload = do {
     r \<leftarrow> eGetDeployment E (wlNamespace workload) (wlName workload);
     (case r of
        Inl e \<Rightarrow> State_Monad.return (Some (wrapErr (''fetching deployment '' @ wlName workload) e))
      | Inr d \<Rightarrow>
          if IsScaledDownByOperator d then State_Monad.return None
          else if dReplicas d = Some 0 then State_Monad.return None
          else do {
            now \<leftarrow> eNow E;
            r1 \<leftarrow> ePatchDeployment E d (recorded now d);
            (case r1 of
               Inl e \<Rightarrow> State_Monad.return
                 (Some (wrapErr (''writing annotations on '' @ wlName workload) e))
             | Inr d1 \<Rightarrow> do {
                 r2 \<leftarrow> ePatchDeployment E d1 (d1\<lparr>dReplicas := Some 0\<rparr>);
                 State_Monad.return (case r2 of
                     Inl e \<Rightarrow> Some (wrapErr (''scaling down '' @ wlName workload) e)
                   | Inr _ \<Rightarrow> None) }) }) }"

text \<open>The four annotations removed.\<close>

definition unrecorded :: "deployment \<Rightarrow> deployment" where
  "unrecorded d =
     deleteAnn AnnotationReason (deleteAnn AnnotationOriginalReplicas
    (deleteAnn AnnotationScaledDownAt (deleteAnn AnnotationScaledDownBy d)))"

definition Restore :: "('w, 'sel) env \<Rightarrow> string \<Rightarrow> string \<Rightarrow> ('w, error option) io" where
  "Restore E namespace deploymentName = do {
     r \<leftarrow> eGetDeployment E namespace deploymentName;
     (case r of
        Inl e \<Rightarrow> State_Monad.return (Some (wrapErr (''fetching deployment '' @ deploymentName) e))
      | Inr d \<Rightarrow>
          if \<not> IsScaledDownByOperator d then State_Monad.return None
          else case annOf d AnnotationOriginalReplicas of
            None \<Rightarrow> State_Monad.return
              (Some (Plain (''deployment '' @ deploymentName @ '' missing original-replicas annotation'')))
          | Some originalStr \<Rightarrow>
              (case ParseInt32 originalStr of
                 Inl e \<Rightarrow> State_Monad.return (Some (Wrapped
                   (''parsing original replicas for '' @ deploymentName) (Plain (numErrText e))))
               | Inr original \<Rightarrow> do {
                   r1 \<leftarrow> ePatchDeployment E d (d\<lparr>dReplicas := Some (word_of_int original)\<rparr>);
                   (case r1 of
                      Inl e \<Rightarrow> State_Monad.return
                        (Some (wrapErr (''restoring replicas on '' @ deploymentName) e))
                    | Inr d1 \<Rightarrow> do {
                        r2 \<leftarrow> ePatchDeployment E d1 (unrecorded d1);
                        State_Monad.return (case r2 of
                            Inl e \<Rightarrow> Some (wrapErr (''removing annotations on '' @ deploymentName) e)
                          | Inr _ \<Rightarrow> None) }) })) }"

section \<open>Suspending a namespace\<close>

text \<open>The Deployments the loop passes over.\<close>

definition suspendSkips :: "('w, 'sel) env \<Rightarrow> 'sel Exclusion list \<Rightarrow> deployment \<Rightarrow> bool" where
  "suspendSkips E exclusions d =
    (IsExcluded (dName d) exclusions \<or> IsLabelExcluded E d exclusions
     \<or> IsScaledDownByOperator d \<or> dReplicas d = Some 0)"

text \<open>A failure is printed and does not stop the loop; the name is listed all the same.\<close>

fun suspendLoop ::
  "('w, 'sel) env \<Rightarrow> 'sel Exclusion list \<Rightarrow> deployment list \<Rightarrow> ('w, string list) io" where
  "suspendLoop E exclusions [] = State_Monad.return []"
| "suspendLoop E exclusions (d # ds) =
    (if suspendSkips E exclusions d then suspendLoop E exclusions ds
     else do {
       _ \<leftarrow> ScaleDown E \<lparr>wlName = dName d, wlNamespace = dNamespace d, wlIdleSince = zeroTime\<rparr>;
       suspended \<leftarrow> suspendLoop E exclusions ds;
       State_Monad.return (dName d # suspended) })"

definition SuspendAll ::
  "('w, 'sel) env \<Rightarrow> string \<Rightarrow> 'sel Exclusion list \<Rightarrow> ('w, string list result) io" where
  "SuspendAll E namespace exclusions = do {
     r \<leftarrow> eListDeployments E namespace;
     (case r of
        Inl e \<Rightarrow> State_Monad.return (Inl (wrapErr (''listing deployments in '' @ namespace) e))
      | Inr items \<Rightarrow> do {
          suspended \<leftarrow> suspendLoop E exclusions items;
          State_Monad.return (Inr suspended) }) }"

section \<open>Slack\<close>

definition SendSlack :: "('w, 'sel) env \<Rightarrow> string \<Rightarrow> SlackMessage \<Rightarrow> ('w, error option) io" where
  "SendSlack E webhookURL msg = do {
     r \<leftarrow> eSlackPost E webhookURL msg;
     State_Monad.return (case r of
         Inl (DoFailed e) \<Rightarrow> Some (Wrapped ''sending slack message'' e)
       | Inl (BadURL e) \<Rightarrow> Some (Wrapped ''building slack request'' e)
       | Inl (BadRequest e) \<Rightarrow> Some (Wrapped ''building slack request'' e)
       | Inr code \<Rightarrow>
           if code \<noteq> 200 then Some (Plain (''slack returned non-200: '' @ show_int code)) else None) }"

definition BuildMessage :: "string \<Rightarrow> string \<Rightarrow> 64 word \<Rightarrow> string list \<Rightarrow> SlackMessage" where
  "BuildMessage namespace phase budgetPercent affected =
    (let color = (if phase = ''Exceeded'' \<or> phase = ''Suspended'' then ''danger'' else ''warning'');
         affectedStr = (if affected \<noteq> [] then joinWith '', '' affected else ''none'')
     in \<lparr>smText = ''*['' @ phase @ '']* namespace `'' @ namespace @ ''` budget alert'',
         smAttachments = [\<lparr>slColor = color, slFields =
           [\<lparr>sfTitle = ''Namespace'', sfValue = namespace, sfShort = True\<rparr>,
            \<lparr>sfTitle = ''Phase'', sfValue = phase, sfShort = True\<rparr>,
            \<lparr>sfTitle = ''Budget used'', sfValue = show_int (sint budgetPercent) @ ''%'', sfShort = True\<rparr>,
            \<lparr>sfTitle = ''Workloads affected'', sfValue = affectedStr, sfShort = False\<rparr>]\<rparr>]\<rparr>)"

section \<open>The intended replica count\<close>

text \<open>
  What the owner wants of a Deployment: its replica count, or, once the operator has marked
  it, the count the recovery record names (\<open>None\<close>: no usable record).
\<close>

definition intended :: "deployment \<Rightarrow> 32 word option" where
  "intended d =
    (if annOf d AnnotationScaledDownBy = Some governorName then
       (case annOf d AnnotationOriginalReplicas of
          None \<Rightarrow> None
        | Some s \<Rightarrow> (case ParseInt32 s of Inl _ \<Rightarrow> None | Inr n \<Rightarrow> Some (word_of_int n)))
     else Some (originalReplicas d))"

definition operatorKeys :: "string set" where
  "operatorKeys = {AnnotationScaledDownBy, AnnotationScaledDownAt, AnnotationOriginalReplicas,
     AnnotationReason}"

text \<open>Everything of a Deployment that is not the operator's to change, and the intent, agree.\<close>

definition sameIntent :: "deployment \<Rightarrow> deployment \<Rightarrow> bool" where
  "sameIntent d d' =
    (dName d' = dName d \<and> dNamespace d' = dNamespace d \<and> dLabels d' = dLabels d \<and>
     (\<forall>k. k \<notin> operatorKeys \<longrightarrow> annOf d' k = annOf d k) \<and> intended d' = intended d)"

lemma operatorKeys_distinct [simp]:
  "AnnotationScaledDownBy \<noteq> AnnotationScaledDownAt" "AnnotationScaledDownAt \<noteq> AnnotationScaledDownBy"
  "AnnotationScaledDownBy \<noteq> AnnotationOriginalReplicas"
  "AnnotationOriginalReplicas \<noteq> AnnotationScaledDownBy"
  "AnnotationScaledDownBy \<noteq> AnnotationReason" "AnnotationReason \<noteq> AnnotationScaledDownBy"
  "AnnotationScaledDownAt \<noteq> AnnotationOriginalReplicas"
  "AnnotationOriginalReplicas \<noteq> AnnotationScaledDownAt"
  "AnnotationScaledDownAt \<noteq> AnnotationReason" "AnnotationReason \<noteq> AnnotationScaledDownAt"
  "AnnotationOriginalReplicas \<noteq> AnnotationReason" "AnnotationReason \<noteq> AnnotationOriginalReplicas"
  by (simp_all add: AnnotationScaledDownBy_def AnnotationScaledDownAt_def
      AnnotationOriginalReplicas_def AnnotationReason_def)

lemma IsScaledDown_annOf:
  "IsScaledDownByOperator d \<longleftrightarrow> annOf d AnnotationScaledDownBy = Some governorName"
  by (simp add: IsScaledDownByOperator_def annOf_def split: option.splits)

lemma setAnn_simps [simp]:
  "annOf (setAnn k v d) = (annOf d)(k \<mapsto> v)" "dName (setAnn k v d) = dName d"
  "dNamespace (setAnn k v d) = dNamespace d" "dLabels (setAnn k v d) = dLabels d"
  "dReplicas (setAnn k v d) = dReplicas d"
  by (simp_all add: setAnn_def annOf_def)

lemma deleteAnn_simps [simp]:
  "annOf (deleteAnn k d) = (annOf d)(k := None)" "dName (deleteAnn k d) = dName d"
  "dNamespace (deleteAnn k d) = dNamespace d" "dLabels (deleteAnn k d) = dLabels d"
  "dReplicas (deleteAnn k d) = dReplicas d"
  by (auto simp: deleteAnn_def annOf_def split: option.splits)

lemma recorded_simps [simp]:
  "dName (recorded t d) = dName d" "dNamespace (recorded t d) = dNamespace d"
  "dLabels (recorded t d) = dLabels d" "dReplicas (recorded t d) = dReplicas d"
  "annOf (recorded t d) AnnotationScaledDownBy = Some governorName"
  "annOf (recorded t d) AnnotationOriginalReplicas = Some (show_int (sint (originalReplicas d)))"
  "IsScaledDownByOperator (recorded t d)"
  by (simp_all add: recorded_def IsScaledDown_annOf)

lemma recorded_other: "k \<notin> operatorKeys \<Longrightarrow> annOf (recorded t d) k = annOf d k"
  by (auto simp: recorded_def operatorKeys_def)

lemma unrecorded_simps [simp]:
  "dName (unrecorded d) = dName d" "dNamespace (unrecorded d) = dNamespace d"
  "dLabels (unrecorded d) = dLabels d" "dReplicas (unrecorded d) = dReplicas d"
  "\<not> IsScaledDownByOperator (unrecorded d)"
  by (simp_all add: unrecorded_def IsScaledDown_annOf)

lemma annOf_unrecorded: "annOf (unrecorded d) k = (if k \<in> operatorKeys then None else annOf d k)"
  by (auto simp: unrecorded_def operatorKeys_def)

lemma originalReplicas_cong: "dReplicas d = dReplicas e \<Longrightarrow> originalReplicas d = originalReplicas e"
  by (simp add: originalReplicas_def)

lemma intended_cong: "annOf d = annOf e \<Longrightarrow> dReplicas d = dReplicas e \<Longrightarrow> intended d = intended e"
  by (simp add: intended_def originalReplicas_def)

lemma depEq_intended: "depEq d e \<Longrightarrow> intended d = intended e"
  by (auto simp: depEq_def intro: intended_cong)

lemma depEq_scaled: "depEq d e \<Longrightarrow> IsScaledDownByOperator d = IsScaledDownByOperator e"
  by (simp add: depEq_def IsScaledDown_annOf)

lemma replica_round_trip: "ParseInt32 (show_int (sint (r :: 32 word))) = Inr (sint r)"
  using sint_range_size [of r] by (intro ParseInt32_show_int) (auto simp: word_size)

lemma annOf_replicas [simp]: "annOf (d\<lparr>dReplicas := r\<rparr>) = annOf d"
  by (simp add: annOf_def)

lemma sameIntent_refl [simp]: "sameIntent d d"
  by (simp add: sameIntent_def)

lemma sameIntent_trans: "sameIntent d e \<Longrightarrow> sameIntent e f \<Longrightarrow> sameIntent d f"
  by (simp add: sameIntent_def)

lemma sameIntent_depEq: "sameIntent b q \<Longrightarrow> depEq s b \<Longrightarrow> depEq q' q \<Longrightarrow> sameIntent s q'"
  using depEq_intended [of s b] depEq_intended [of q' q] by (simp add: sameIntent_def depEq_def)

text \<open>Each of the four patches keeps the intent.\<close>

lemma intent_recorded:
  assumes "\<not> IsScaledDownByOperator d"
  shows "sameIntent d (recorded t d)"
  using assms
  by (simp add: sameIntent_def recorded_other intended_def IsScaledDown_annOf replica_round_trip)

lemma intent_replicas:
  assumes "IsScaledDownByOperator d"
  shows "sameIntent d (d\<lparr>dReplicas := r\<rparr>)"
  using assms by (simp add: sameIntent_def intended_def IsScaledDown_annOf)

lemma intent_unrecorded:
  assumes "intended d = Some n" and "dReplicas d = Some n"
  shows "sameIntent d (unrecorded d)"
proof -
  have "intended (unrecorded d) = Some n"
    using assms(2) by (simp add: intended_def annOf_unrecorded operatorKeys_def originalReplicas_def)
  with assms(1) show ?thesis
    by (simp add: sameIntent_def annOf_unrecorded)
qed

section \<open>Outcomes\<close>

text \<open>Two stores with the same Deployments, each with its intent kept.\<close>

definition depsSafe :: "(objkey \<rightharpoonup> deployment) \<Rightarrow> (objkey \<rightharpoonup> deployment) \<Rightarrow> bool" where
  "depsSafe m m' = (\<forall>k. rel_option sameIntent (m k) (m' k))"

lemma depsSafe_refl [simp]: "depsSafe m m"
  by (auto simp: depsSafe_def intro: option.rel_refl)

lemma depsSafe_trans: "depsSafe m n \<Longrightarrow> depsSafe n p \<Longrightarrow> depsSafe m p"
  unfolding depsSafe_def by (blast intro: option.rel_transp [THEN transpD] transpI sameIntent_trans)

lemma depsSafe_dom:
  assumes "depsSafe m m'"
  shows "m k \<noteq> None \<longleftrightarrow> m' k \<noteq> None"
proof -
  from assms have "rel_option sameIntent (m k) (m' k)" unfolding depsSafe_def by (rule spec)
  then show ?thesis by (cases "m k"; cases "m' k") auto
qed

lemma depsSafe_update:
  "m k = Some d \<Longrightarrow> sameIntent d d' \<Longrightarrow> depsSafe m (m(k \<mapsto> d'))"
  by (auto simp: depsSafe_def intro: option.rel_refl)

lemma transp_depsSafe: "transp (\<lambda>w w'. depsSafe (v w) (v w'))"
  and reflp_depsSafe: "reflp (\<lambda>w w'. depsSafe (v w) (v w'))"
  by (auto simp: transp_def reflp_def intro: depsSafe_trans)

text \<open>The Deployment after both patches.\<close>

definition suspended :: "gotime \<Rightarrow> deployment \<Rightarrow> deployment" where
  "suspended t d = (recorded t d)\<lparr>dReplicas := Some 0\<rparr>"

definition restored :: "deployment \<Rightarrow> deployment" where
  "restored d = unrecorded (d\<lparr>dReplicas := intended d\<rparr>)"

context deployment_api
begin

lemma patch_result:
  assumes "run_state (ePatchDeployment E b q) w = (r, w')"
    and "deps w (dkey b) = Some s" and "depEq s b"
    and "dName q = dName b" "dNamespace q = dNamespace b" "dLabels q = dLabels b"
  shows "(deps w' = deps w \<and> (\<exists>e. r = Inl e)) \<or>
    (\<exists>d. depEq d q \<and> deps w' = (deps w)(dkey b \<mapsto> d) \<and> (r = Inr d \<or> (\<exists>e. r = Inl e)))"
proof -
  have "depEq (mergePatch b q s) q"
    using assms by (intro mergePatch_base)
  then have m: "depEq d (mergePatch b q s) \<Longrightarrow> depEq d q" for d
    by (blast intro: depEq_trans)
  show ?thesis
  proof (cases r)
    case (Inl e)
    from patch_err [OF assms(1) [unfolded Inl]] assms(2) m show ?thesis
      by (auto simp: Inl)
  next
    case (Inr d)
    from patch_ok [OF assms(1) [unfolded Inr]] assms(2) m show ?thesis
      by (auto simp: Inr)
  qed
qed

text \<open>
  Both operations are two patches of one Deployment: the second is tried on the answer of the
  first. \<open>q1\<close> is the Deployment after one patch, \<open>q\<close> the one after both.
\<close>

lemma two_patches:
  assumes "run_state (do {
      r1 \<leftarrow> ePatchDeployment E d q1;
      (case r1 of
         Inl e \<Rightarrow> State_Monad.return (Some (f1 e))
       | Inr d1 \<Rightarrow> do {
           r2 \<leftarrow> ePatchDeployment E d1 (g d1);
           State_Monad.return (case r2 of Inl e \<Rightarrow> Some (f2 e) | Inr _ \<Rightarrow> None) }) }) w = (r, w')"
    and "deps w k = Some d"
    and "dName q1 = dName d" "dNamespace q1 = dNamespace d" "dLabels q1 = dLabels d"
    and "\<And>e. dName (g e) = dName e \<and> dNamespace (g e) = dNamespace e \<and> dLabels (g e) = dLabels e"
    and "\<And>e. depEq e q1 \<Longrightarrow> depEq (g e) q"
  shows "(deps w' = deps w \<and> r \<noteq> None) \<or>
    (\<exists>d'. deps w' = (deps w)(k \<mapsto> d') \<and> (depEq d' q \<or> r \<noteq> None \<and> depEq d' q1))"
proof -
  from stored_key [OF assms(2)] have dk: "dkey d = k" .
  obtain r1 w1 where p1: "run_state (ePatchDeployment E d q1) w = (r1, w1)"
    by (cases "run_state (ePatchDeployment E d q1) w") auto
  note o1 = patch_result [OF p1 assms(2) [folded dk] depEq_refl assms(3-5), unfolded dk]
  show ?thesis
  proof (cases r1)
    case (Inl e)
    with assms(1) p1 have "r \<noteq> None" "w' = w1" by auto
    with o1 Inl show ?thesis by auto
  next
    case (Inr d1)
    with o1 have d1: "depEq d1 q1" and w1: "deps w1 = (deps w)(k \<mapsto> d1)" by auto
    from w1 have "deps w1 k = Some d1" by simp
    with stored_key have k1: "dkey d1 = k" by blast
    obtain r2 w2 where p2: "run_state (ePatchDeployment E d1 (g d1)) w1 = (r2, w2)"
      by (cases "run_state (ePatchDeployment E d1 (g d1)) w1") auto
    from assms(1) p1 Inr p2 have r: "r = None \<longleftrightarrow> (\<exists>d2. r2 = Inr d2)" and w': "w' = w2"
      by (auto split: sum.splits)
    from patch_result [OF p2, of d1] k1 w1 assms(6)
    have "(deps w2 = deps w1 \<and> (\<exists>e. r2 = Inl e)) \<or> (\<exists>d2. depEq d2 q \<and> deps w2 = (deps w)(k \<mapsto> d2))"
      by (auto dest: depEq_trans [OF _ assms(7) [OF d1]])
    with r w' w1 d1 show ?thesis by auto
  qed
qed

lemma ScaleDown_outcome:
  assumes "run_state (ScaleDown E wl) w = (r, w')"
  defines "k \<equiv> (wlNamespace wl, wlName wl)"
  shows "(deps w' = deps w \<and>
      (r = None \<longrightarrow> (\<exists>d. deps w k = Some d \<and> (IsScaledDownByOperator d \<or> dReplicas d = Some 0)))) \<or>
    (\<exists>d t d'. deps w k = Some d \<and> \<not> IsScaledDownByOperator d \<and> dReplicas d \<noteq> Some 0 \<and>
       deps w' = (deps w)(k \<mapsto> d') \<and>
       (depEq d' (suspended t d) \<or> r \<noteq> None \<and> depEq d' (recorded t d)))"
proof -
  obtain r0 w0 where get: "run_state (eGetDeployment E (wlNamespace wl) (wlName wl)) w = (r0, w0)"
    by (cases "run_state (eGetDeployment E (wlNamespace wl) (wlName wl)) w") auto
  from keepsD [OF get_frame get] have w0: "deps w0 = deps w" .
  show ?thesis
  proof (cases r0)
    case (Inl e)
    with assms(1) get w0 show ?thesis by (auto simp: ScaleDown_def)
  next
    case (Inr d)
    with get_ok get have d: "deps w k = Some d" by (simp add: k_def)
    show ?thesis
    proof (cases "IsScaledDownByOperator d \<or> dReplicas d = Some 0")
      case True
      with assms(1) get w0 Inr d show ?thesis by (auto simp: ScaleDown_def split: if_splits)
    next
      case False
      obtain t w1 where now: "run_state (eNow E) w0 = (t, w1)"
        by (cases "run_state (eNow E) w0") auto
      from keepsD [OF now_frame now] w0 have w1: "deps w1 = deps w" by simp
      have "(deps w' = deps w1 \<and> r \<noteq> None) \<or> (\<exists>d'. deps w' = (deps w1)(k \<mapsto> d') \<and>
          (depEq d' (suspended t d) \<or> r \<noteq> None \<and> depEq d' (recorded t d)))"
      proof (rule two_patches)
        show "run_state (do {
            r1 \<leftarrow> ePatchDeployment E d (recorded t d);
            (case r1 of
               Inl e \<Rightarrow> State_Monad.return (Some (wrapErr (''writing annotations on '' @ wlName wl) e))
             | Inr d1 \<Rightarrow> do {
                 r2 \<leftarrow> ePatchDeployment E d1 (d1\<lparr>dReplicas := Some 0\<rparr>);
                 State_Monad.return (case r2 of
                     Inl e \<Rightarrow> Some (wrapErr (''scaling down '' @ wlName wl) e)
                   | Inr _ \<Rightarrow> None) }) }) w1 = (r, w')"
          using assms(1) get Inr False now by (simp add: ScaleDown_def del: append_Cons)
      qed (auto simp: d w1 depEq_def suspended_def)
      with w1 d False show ?thesis by auto
    qed
  qed
qed

lemma Restore_outcome:
  assumes "run_state (Restore E ns n) w = (r, w')"
  shows "(deps w' = deps w \<and>
      (r = None \<longrightarrow> (\<exists>d. deps w (ns, n) = Some d \<and> \<not> IsScaledDownByOperator d))) \<or>
    (\<exists>d m d'. deps w (ns, n) = Some d \<and> IsScaledDownByOperator d \<and> intended d = Some m \<and>
       deps w' = (deps w)((ns, n) \<mapsto> d') \<and>
       (depEq d' (restored d) \<or> r \<noteq> None \<and> depEq d' (d\<lparr>dReplicas := Some m\<rparr>)))"
proof -
  obtain r0 w0 where get: "run_state (eGetDeployment E ns n) w = (r0, w0)"
    by (cases "run_state (eGetDeployment E ns n) w") auto
  from keepsD [OF get_frame get] have w0: "deps w0 = deps w" .
  show ?thesis
  proof (cases "\<exists>d m. r0 = Inr d \<and> IsScaledDownByOperator d \<and> intended d = Some m")
    case False
    with assms get get_ok get w0 show ?thesis
      by (auto simp: Restore_def intended_def IsScaledDown_annOf split: if_splits option.splits sum.splits)
  next
    case True
    then obtain d m where r0: "r0 = Inr d" and m: "IsScaledDownByOperator d" "intended d = Some m" by blast
    with get_ok get have d: "deps w (ns, n) = Some d" by simp
    from m obtain s v where s: "annOf d AnnotationOriginalReplicas = Some s" "ParseInt32 s = Inr v"
        "m = word_of_int v"
      by (auto simp: intended_def IsScaledDown_annOf split: option.splits sum.splits)
    have "(deps w' = deps w0 \<and> r \<noteq> None) \<or> (\<exists>d'. deps w' = (deps w0)((ns, n) \<mapsto> d') \<and>
        (depEq d' (restored d) \<or> r \<noteq> None \<and> depEq d' (d\<lparr>dReplicas := Some m\<rparr>)))"
    proof (rule two_patches)
      show "run_state (do {
          r1 \<leftarrow> ePatchDeployment E d (d\<lparr>dReplicas := Some m\<rparr>);
          (case r1 of
             Inl e \<Rightarrow> State_Monad.return (Some (wrapErr (''restoring replicas on '' @ n) e))
           | Inr d1 \<Rightarrow> do {
               r2 \<leftarrow> ePatchDeployment E d1 (unrecorded d1);
               State_Monad.return (case r2 of
                   Inl e \<Rightarrow> Some (wrapErr (''removing annotations on '' @ n) e)
                 | Inr _ \<Rightarrow> None) }) }) w0 = (r, w')"
        using assms get r0 m s by (simp add: Restore_def del: append_Cons)
    qed (auto simp: d w0 m depEq_def restored_def annOf_unrecorded)
    with w0 d m show ?thesis by auto
  qed
qed

text \<open>Both operations keep every intent, and touch one Deployment only.\<close>

lemma intent_suspended:
  assumes "\<not> IsScaledDownByOperator d"
  shows "sameIntent d (suspended t d)"
  unfolding suspended_def
  using intent_recorded [OF assms] by (rule sameIntent_trans) (rule intent_replicas, simp)

lemma intent_restored:
  assumes "IsScaledDownByOperator d" and "intended d = Some m"
  shows "sameIntent d (restored d)"
proof -
  let ?d = "d\<lparr>dReplicas := intended d\<rparr>"
  from assms have "intended ?d = Some m" by (simp add: intended_def IsScaledDown_annOf)
  with assms(2) have "sameIntent ?d (unrecorded ?d)" by (intro intent_unrecorded) auto
  with intent_replicas [OF assms(1)] show ?thesis
    unfolding restored_def by (rule sameIntent_trans)
qed

lemma ScaleDown_safe: "keeps (\<lambda>w w'. depsSafe (deps w) (deps w')) (ScaleDown E wl)"
proof (rule keepsI)
  fix w r w' assume "run_state (ScaleDown E wl) w = (r, w')"
  from ScaleDown_outcome [OF this] show "depsSafe (deps w) (deps w')"
    by (auto intro!: depsSafe_update intro: sameIntent_depEq [OF intent_suspended depEq_refl]
        sameIntent_depEq [OF intent_recorded depEq_refl])
qed

lemma Restore_safe: "keeps (\<lambda>w w'. depsSafe (deps w) (deps w')) (Restore E ns n)"
proof (rule keepsI)
  fix w r w' assume "run_state (Restore E ns n) w = (r, w')"
  from Restore_outcome [OF this] show "depsSafe (deps w) (deps w')"
    by (auto intro!: depsSafe_update intro: sameIntent_depEq [OF intent_restored depEq_refl]
        sameIntent_depEq [OF intent_replicas depEq_refl])
qed

lemma ScaleDown_frame:
  "run_state (ScaleDown E wl) w = (r, w') \<Longrightarrow> k \<noteq> (wlNamespace wl, wlName wl) \<Longrightarrow> deps w' k = deps w k"
  by (drule ScaleDown_outcome) auto

lemma Restore_frame:
  "run_state (Restore E ns n) w = (r, w') \<Longrightarrow> k \<noteq> (ns, n) \<Longrightarrow> deps w' k = deps w k"
  by (drule Restore_outcome) auto

end

section \<open>The contract of a workload action\<close>

text \<open>
  What a loop over Deployments relies on of the operation it applies: it touches that
  Deployment only, keeps every intent, and settles the Deployment when it answers no error.
\<close>

locale workload_action =
  fixes act :: "string \<Rightarrow> string \<Rightarrow> ('w, error option) io"
    and deps :: "'w \<Rightarrow> objkey \<rightharpoonup> deployment"
    and settled :: "deployment \<Rightarrow> bool"
  assumes act_frame: "run_state (act ns n) w = (r, w') \<Longrightarrow> k \<noteq> (ns, n) \<Longrightarrow> deps w' k = deps w k"
    and act_safe: "keeps (\<lambda>w w'. depsSafe (deps w) (deps w')) (act ns n)"
    and act_done: "run_state (act ns n) w = (None, w') \<Longrightarrow> \<exists>d. deps w' (ns, n) = Some d \<and> settled d"
begin

lemma loop_safe: "keeps (\<lambda>w w'. depsSafe (deps w) (deps w')) (forEach (act ns) names)"
  by (intro keeps_forEach transp_depsSafe reflp_depsSafe act_safe)

lemma loop_frame:
  assumes "run_state (forEach (act ns) names) w = (rs, w')" and "k \<notin> Pair ns ` set names"
  shows "deps w' k = deps w k"
  using assms
proof (induction names arbitrary: w rs)
  case (Cons n names)
  obtain r w1 rs' where 1: "run_state (act ns n) w = (r, w1)"
    and 2: "run_state (forEach (act ns) names) w1 = (rs', w')"
    using Cons.prems(1) by (auto split: prod.splits)
  from Cons.IH [OF 2] Cons.prems(2) act_frame [OF 1] show ?case by auto
qed simp

text \<open>With distinct names, what one round settles stays settled.\<close>

lemma loop_done:
  assumes "run_state (forEach (act ns) names) w = (rs, w')" and "distinct names"
    and "i < length names" and "rs ! i = None"
  shows "\<exists>d. deps w' (ns, names ! i) = Some d \<and> settled d"
  using assms
proof (induction names arbitrary: w rs i)
  case (Cons n names)
  obtain r w1 rs' where 1: "run_state (act ns n) w = (r, w1)"
    and 2: "run_state (forEach (act ns) names) w1 = (rs', w')" and rs: "rs = r # rs'"
    using Cons.prems(1) by (auto split: prod.splits)
  show ?case
  proof (cases i)
    case 0
    with Cons.prems rs have "r = None" by simp
    with act_done 1 obtain d where "deps w1 (ns, n) = Some d" "settled d" by blast
    moreover have "deps w' (ns, n) = deps w1 (ns, n)"
      using Cons.prems(2) by (intro loop_frame [OF 2]) auto
    ultimately show ?thesis using 0 by simp
  next
    case (Suc j)
    with Cons.IH [OF 2, of j] Cons.prems rs show ?thesis by simp
  qed
qed simp

end

text \<open>A Deployment \<open>ScaleDown\<close> leaves alone: marked already, or at zero.\<close>

definition stopped :: "deployment \<Rightarrow> bool" where
  "stopped d = (IsScaledDownByOperator d \<or> dReplicas d = Some 0)"

definition scaleDownAt :: "('w, 'sel) env \<Rightarrow> string \<Rightarrow> string \<Rightarrow> ('w, error option) io" where
  "scaleDownAt E ns n = ScaleDown E \<lparr>wlName = n, wlNamespace = ns, wlIdleSince = zeroTime\<rparr>"

lemma ScaleDown_at: "ScaleDown E wl = scaleDownAt E (wlNamespace wl) (wlName wl)"
  unfolding scaleDownAt_def ScaleDown_def IdleWorkload.select_convs ..

lemma stopped_depEq: "depEq d d' \<Longrightarrow> stopped d = stopped d'"
  using depEq_scaled [of d d'] by (auto simp: stopped_def depEq_def)

lemma stopped_suspended [simp]: "stopped (suspended t d)"
  by (simp add: stopped_def suspended_def)

lemma restored_unmarked [simp]: "\<not> IsScaledDownByOperator (restored d)"
  by (simp add: restored_def)

sublocale deployment_api \<subseteq> down: workload_action "scaleDownAt E" deps stopped
proof
  fix ns n w r w' k assume "run_state (scaleDownAt E ns n) w = (r, w')" "k \<noteq> (ns, n)"
  then show "deps w' k = deps w k"
    unfolding scaleDownAt_def by (auto dest: ScaleDown_frame)
next
  show "keeps (\<lambda>w w'. depsSafe (deps w) (deps w')) (scaleDownAt E ns n)" for ns n
    unfolding scaleDownAt_def by (rule ScaleDown_safe)
next
  fix ns n w w' assume "run_state (scaleDownAt E ns n) w = (None, w')"
  from ScaleDown_outcome [OF this [unfolded scaleDownAt_def]]
  show "\<exists>d. deps w' (ns, n) = Some d \<and> stopped d"
    by (auto simp: stopped_def [symmetric] dest: stopped_depEq)
qed

sublocale deployment_api \<subseteq> up: workload_action "Restore E" deps "\<lambda>d. \<not> IsScaledDownByOperator d"
proof
  fix ns n w w' assume "run_state (Restore E ns n) w = (None, w')"
  from Restore_outcome [OF this] show "\<exists>d. deps w' (ns, n) = Some d \<and> \<not> IsScaledDownByOperator d"
    by (auto dest: depEq_scaled)
qed (simp_all only: Restore_safe, erule Restore_frame)

interpretation memdown: workload_action "scaleDownAt memEnv" memDeps stopped
  by (rule mem.down.workload_action_axioms)

interpretation memup: workload_action "Restore memEnv" memDeps "\<lambda>d. \<not> IsScaledDownByOperator d"
  by (rule mem.up.workload_action_axioms)

section \<open>Suspension\<close>

text \<open>What a suspension must leave alone, said of the Deployment and the list of exclusions.\<close>

definition spared :: "('w, 'sel) env \<Rightarrow> 'sel Exclusion list \<Rightarrow> deployment \<Rightarrow> bool" where
  "spared E exs d \<longleftrightarrow>
    dName d \<noteq> [] \<and> (\<exists>ex \<in> set exs. exName ex = dName d) \<or>
    (\<exists>ex \<in> set exs. \<exists>sel matches. exLabelSelector ex = Some sel \<and> eSelector E sel = Some matches \<and>
       matches (dLabels d)) \<or>
    annOf d AnnotationScaledDownBy = Some governorName \<or> dReplicas d = Some 0"

lemma suspendSkips_spared: "suspendSkips E exs d \<longleftrightarrow> spared E exs d"
proof -
  have "dName d \<in> exName ` set exs \<longleftrightarrow> (\<exists>ex \<in> set exs. exName ex = dName d)" by (metis imageE imageI)
  then show ?thesis
    by (simp add: suspendSkips_def spared_def IsExcluded_iff IsLabelExcluded_iff IsScaledDown_annOf)
qed

lemma suspendLoop_run:
  "run_state (suspendLoop E exs ds) w =
   (map dName (filter (\<lambda>d. \<not> suspendSkips E exs d) ds),
    snd (run_state (forEach (\<lambda>d. scaleDownAt E (dNamespace d) (dName d))
          (filter (\<lambda>d. \<not> suspendSkips E exs d) ds)) w))"
  by (induction ds arbitrary: w) (auto simp: ScaleDown_at split: prod.splits)

lemma forEach_map: "forEach f (map g xs) = forEach (\<lambda>x. f (g x)) xs"
  by (induction xs) auto

lemma forEach_cong: "(\<And>x. x \<in> set xs \<Longrightarrow> f x = g x) \<Longrightarrow> forEach f xs = forEach g xs"
  by (induction xs) auto

context deployment_api
begin

lemma stored_ns: "deps w (ns, n) = Some d \<Longrightarrow> dNamespace d = ns \<and> dName d = n"
  using stored_key [of w "(ns, n)" d] by (simp add: dkey_def)

text \<open>A suspension is one listing and one loop of scale-downs over the names it answers.\<close>

lemma SuspendAll_steps:
  assumes "run_state (SuspendAll E ns exs) w = (r, w')"
  obtains (failed) e where "r = Inl e" and "deps w' = deps w"
  | (looped) names w1 rs where "r = Inr names" and "deps w1 = deps w" and "distinct names"
      and "set names = {n. \<exists>d. deps w (ns, n) = Some d \<and> \<not> suspendSkips E exs d}"
      and "run_state (forEach (scaleDownAt E ns) names) w1 = (rs, w')"
proof -
  obtain r0 w1 where list: "run_state (eListDeployments E ns) w = (r0, w1)"
    by (cases "run_state (eListDeployments E ns) w") auto
  from keepsD [OF list_frame list] have w1: "deps w1 = deps w" .
  show ?thesis
  proof (cases r0)
    case (Inl e)
    with assms list w1 show ?thesis by (intro failed) (auto simp: SuspendAll_def)
  next
    case (Inr items)
    let ?todo = "filter (\<lambda>d. \<not> suspendSkips E exs d) items"
    note ok = list_ok [OF list [unfolded Inr]]
    have ns: "dNamespace d = ns" if "d \<in> set ?todo" for d
      using that ok stored_ns by auto
    have loop: "forEach (\<lambda>d. scaleDownAt E (dNamespace d) (dName d)) ?todo =
      forEach (scaleDownAt E ns) (map dName ?todo)"
      unfolding forEach_map using ns by (intro forEach_cong) auto
    obtain rs w2 where l: "run_state (forEach (scaleDownAt E ns) (map dName ?todo)) w1 = (rs, w2)"
      by (cases "run_state (forEach (scaleDownAt E ns) (map dName ?todo)) w1") auto
    from assms list Inr have "r = Inr (map dName ?todo)" "w' = w2"
      by (auto simp: SuspendAll_def suspendLoop_run loop l)
    moreover from ok have "distinct (map dName ?todo)"
      by (auto intro: distinct_map_fst_filter)
    moreover have "set (map dName ?todo) =
        {n. \<exists>d. deps w (ns, n) = Some d \<and> \<not> suspendSkips E exs d}"
      using ok stored_ns by (force simp: image_iff)
    ultimately show ?thesis using w1 l by (intro looped) auto
  qed
qed

lemma suspend_safe: "keeps (\<lambda>w w'. depsSafe (deps w) (deps w')) (SuspendAll E ns exs)"
proof (rule keepsI)
  fix w r w' assume "run_state (SuspendAll E ns exs) w = (r, w')"
  then show "depsSafe (deps w) (deps w')"
  proof (cases rule: SuspendAll_steps)
    case looped
    from keepsD [OF down.loop_safe this(5)] this(2) show ?thesis by simp
  qed simp
qed

lemma suspend_frame:
  assumes "run_state (SuspendAll E ns exs) w = (r, w')" and "deps w k = Some d"
    and "fst k \<noteq> ns \<or> suspendSkips E exs d"
  shows "deps w' k = Some d"
  using assms(1)
proof (cases rule: SuspendAll_steps)
  case failed
  with assms(2) show ?thesis by simp
next
  case (looped names w1 rs)
  with assms(2,3) have "k \<notin> Pair ns ` set names" by auto
  with down.loop_frame [OF looped(5)] looped(2) assms(2) show ?thesis by simp
qed

lemma suspend_names:
  "run_state (SuspendAll E ns exs) w = (Inr names, w') \<Longrightarrow>
   set names = {n. \<exists>d. deps w (ns, n) = Some d \<and> \<not> suspendSkips E exs d}"
  by (erule SuspendAll_steps) auto

text \<open>A marked Deployment is not stopped again by either action.\<close>

lemma marked_frame:
  assumes "deps w (ns, n) = Some d" and "IsScaledDownByOperator d"
  shows "run_state (scaleDownAt E ns n) w = (r, w') \<Longrightarrow> deps w' (ns, n) = Some d"
    and "run_state (SuspendAll E ns exs) w = (r1, w') \<Longrightarrow> deps w' (ns, n) = Some d"
proof -
  show "run_state (scaleDownAt E ns n) w = (r, w') \<Longrightarrow> deps w' (ns, n) = Some d"
    using assms unfolding scaleDownAt_def by (auto dest: ScaleDown_outcome)
  show "run_state (SuspendAll E ns exs) w = (r1, w') \<Longrightarrow> deps w' (ns, n) = Some d"
    using assms by (auto elim: suspend_frame simp: suspendSkips_def)
qed

end

text \<open>Progress, when the API server is up.\<close>

context reliable_api
begin

lemma scaleDown_up:
  assumes "deps w (ns, n) \<noteq> None"
  shows "fst (run_state (scaleDownAt E ns n) w) = None"
proof -
  obtain d w0 where get: "run_state (eGetDeployment E ns n) w = (Inr d, w0)"
    using get_up [OF assms] by (cases "run_state (eGetDeployment E ns n) w") auto
  from keepsD [OF get_frame get] get_ok [OF get] have d: "deps w0 (ns, n) = Some d" by simp
  obtain t w1 where now: "run_state (eNow E) w0 = (t, w1)"
    by (cases "run_state (eNow E) w0") auto
  from keepsD [OF now_frame now] d have d1: "deps w1 (ns, n) = Some d" by simp
  from stored_key [OF d] have k: "dkey d = (ns, n)" .
  obtain e w2 where p1: "run_state (ePatchDeployment E d (recorded t d)) w1 = (Inr e, w2)"
    using patch_up [of w1 d "recorded t d"] d1 k
    by (cases "run_state (ePatchDeployment E d (recorded t d)) w1") auto
  from patch_ok [OF p1] k have e: "deps w2 (ns, n) = Some e" by auto
  from stored_key [OF e] have ke: "dkey e = (ns, n)" .
  obtain f w3 where p2: "run_state (ePatchDeployment E e (e\<lparr>dReplicas := Some 0\<rparr>)) w2 = (Inr f, w3)"
    using patch_up [of w2 e "e\<lparr>dReplicas := Some 0\<rparr>"] e ke
    by (cases "run_state (ePatchDeployment E e (e\<lparr>dReplicas := Some 0\<rparr>)) w2") auto
  from get now p1 p2 show ?thesis
    by (simp add: scaleDownAt_def ScaleDown_def)
qed

lemma restore_up:
  assumes "deps w (ns, n) = Some d" and "\<not> IsScaledDownByOperator d \<or> intended d \<noteq> None"
  shows "fst (run_state (Restore E ns n) w) = None"
proof -
  obtain d' w0 where get: "run_state (eGetDeployment E ns n) w = (Inr d', w0)"
    using get_up [of w ns n] assms(1) by (cases "run_state (eGetDeployment E ns n) w") auto
  with get_ok [OF get] assms(1) have [simp]: "d' = d" by simp
  from keepsD [OF get_frame get] assms(1) have d: "deps w0 (ns, n) = Some d" by simp
  from stored_key [OF d] have k: "dkey d = (ns, n)" .
  show ?thesis
  proof (cases "IsScaledDownByOperator d")
    case False
    with get show ?thesis by (simp add: Restore_def)
  next
    case True
    with assms(2) obtain s v where s: "annOf d AnnotationOriginalReplicas = Some s" "ParseInt32 s = Inr v"
      by (auto simp: intended_def IsScaledDown_annOf split: option.splits sum.splits)
    obtain e w2 where p1:
      "run_state (ePatchDeployment E d (d\<lparr>dReplicas := Some (word_of_int v)\<rparr>)) w0 = (Inr e, w2)"
      using patch_up [of w0 d "d\<lparr>dReplicas := Some (word_of_int v)\<rparr>"] d k
      by (cases "run_state (ePatchDeployment E d (d\<lparr>dReplicas := Some (word_of_int v)\<rparr>)) w0") auto
    from patch_ok [OF p1] k have e: "deps w2 (ns, n) = Some e" by auto
    from stored_key [OF e] have ke: "dkey e = (ns, n)" .
    obtain f w3 where p2: "run_state (ePatchDeployment E e (unrecorded e)) w2 = (Inr f, w3)"
      using patch_up [of w2 e "unrecorded e"] e ke
      by (cases "run_state (ePatchDeployment E e (unrecorded e)) w2") auto
    from get True s p1 p2 show ?thesis by (simp add: Restore_def)
  qed
qed

lemma loop_up:
  assumes "run_state (forEach (scaleDownAt E ns) names) w = (rs, w')"
    and "\<And>n. n \<in> set names \<Longrightarrow> deps w (ns, n) \<noteq> None"
  shows "set rs \<subseteq> {None}"
  using assms
proof (induction names arbitrary: w rs)
  case (Cons n names)
  obtain r w1 rs' where 1: "run_state (scaleDownAt E ns n) w = (r, w1)"
    and 2: "run_state (forEach (scaleDownAt E ns) names) w1 = (rs', w')" and rs: "rs = r # rs'"
    using Cons.prems(1) by (auto split: prod.splits)
  from scaleDown_up [of w ns n] 1 Cons.prems(2) have "r = None" by simp
  moreover have "deps w1 (ns, m) \<noteq> None" if "m \<in> set names" for m
    using keepsD [OF down.act_safe 1] Cons.prems(2) [of m] that depsSafe_dom by auto
  ultimately show ?case using Cons.IH [OF 2] rs by auto
qed simp

lemma suspend_all_stopped:
  assumes "run_state (SuspendAll E ns exs) w = (r, w')" and "deps w' (ns, n) = Some d'"
  shows "stopped d' \<or> IsExcluded n exs \<or> IsLabelExcluded E d' exs"
  using assms(1)
proof (cases rule: SuspendAll_steps)
  case (failed e)
  then have False using assms(1) list_up [of ns w]
    by (auto simp: SuspendAll_def split: prod.splits sum.splits)
  then show ?thesis ..
next
  case (looped names w1 rs)
  then have "deps w1 (ns, m) \<noteq> None" if "m \<in> set names" for m using that by auto
  then have none: "set rs \<subseteq> {None}" by (rule loop_up [OF looped(5)])
  show ?thesis
  proof (cases "n \<in> set names")
    case True
    then obtain i where i: "i < length names" "names ! i = n" by (auto simp: in_set_conv_nth)
    with forEach_length [OF looped(5)] have "rs ! i \<in> set rs" by simp
    with none have "rs ! i = None" by blast
    with down.loop_done [OF looped(5,3) i(1)] i(2) assms(2) show ?thesis by auto
  next
    case False
    then have "(ns, n) \<notin> Pair ns ` set names" by auto
    with down.loop_frame [OF looped(5)] looped(2) assms(2) have d: "deps w (ns, n) = Some d'" by simp
    with False looped(4) stored_ns [OF d] show ?thesis
      by (auto simp: suspendSkips_def stopped_def)
  qed
qed

end

text \<open>Scale down, then restore.\<close>

context deployment_api
begin

lemma scale_restore:
  assumes "run_state (scaleDownAt E ns n) w = (None, w1)"
    and "run_state (Restore E ns n) w1 = (None, w2)"
    and "deps w (ns, n) = Some d" and "\<not> IsScaledDownByOperator d" and "dReplicas d \<noteq> Some 0"
  shows "\<exists>d2. deps w2 = (deps w)((ns, n) \<mapsto> d2) \<and> dReplicas d2 = Some (originalReplicas d) \<and>
    dLabels d2 = dLabels d \<and> (\<forall>k. annOf d2 k = (if k \<in> operatorKeys then None else annOf d k))"
proof -
  from ScaleDown_outcome [OF assms(1) [unfolded scaleDownAt_def]] assms(3-5)
  obtain t d1 where d1: "depEq d1 (suspended t d)" and w1: "deps w1 = (deps w)((ns, n) \<mapsto> d1)"
    by auto
  have "intended d1 = intended (suspended t d)" using d1 by (rule depEq_intended)
  also have "\<dots> = Some (originalReplicas d)"
    using intent_suspended [OF assms(4), of t] assms(4)
    by (simp add: sameIntent_def intended_def IsScaledDown_annOf)
  finally have i1: "intended d1 = Some (originalReplicas d)" .
  have "IsScaledDownByOperator d1"
    using depEq_scaled [OF d1] by (simp add: suspended_def IsScaledDown_annOf)
  with Restore_outcome [OF assms(2)] w1 obtain d2 where d2: "depEq d2 (restored d1)"
    and w2: "deps w2 = (deps w1)((ns, n) \<mapsto> d2)" by auto
  have "annOf d1 k = annOf d k" if "k \<notin> operatorKeys" for k
    using d1 that by (simp add: depEq_def suspended_def recorded_other)
  with d1 d2 i1 w1 w2 show ?thesis
    by (intro exI [of _ d2]) (simp add: depEq_def restored_def annOf_unrecorded suspended_def)
qed

lemma rounds_frame:
  assumes "deps w (ns, n) = Some d" and "IsScaledDownByOperator d"
    and "run_state (forEach (\<lambda>exs. State_Monad.bind (scaleDownAt E ns n) (\<lambda>_. SuspendAll E ns exs)) exss)
      w = (rs, w')"
  shows "deps w' (ns, n) = Some d"
  using assms(1,3)
proof (induction exss arbitrary: w rs)
  case (Cons exs exss)
  obtain r w1 r1 w2 rs' where 1: "run_state (scaleDownAt E ns n) w = (r, w1)"
    and 2: "run_state (SuspendAll E ns exs) w1 = (r1, w2)"
    and 3: "run_state (forEach (\<lambda>exs. State_Monad.bind (scaleDownAt E ns n)
        (\<lambda>_. SuspendAll E ns exs)) exss) w2 = (rs', w')"
    using Cons.prems(2) by (auto split: prod.splits)
  from marked_frame(1) [OF Cons.prems(1) assms(2) 1] have "deps w1 (ns, n) = Some d" .
  from marked_frame(2) [OF this assms(2) 2] have "deps w2 (ns, n) = Some d" .
  from Cons.IH [OF this 3] show ?case .
qed simp

end

section \<open>Properties\<close>

text \<open>
  C16. A scale-down has three outcomes, whatever the API server does: nothing changed, the
  recovery record written and the replica count untouched (only with an error), or both
  patches done. The replica count is never set to zero without its record, and success
  means that the Deployment is stopped or was left to someone else.
\<close>

theorem scaledown_outcomes:
  assumes "deployment_api E deps" and "run_state (ScaleDown E wl) w = (r, w')"
  shows "(deps w' = deps w \<and>
      (r = None \<longrightarrow> (\<exists>d. deps w (wlNamespace wl, wlName wl) = Some d
         \<and> (IsScaledDownByOperator d \<or> dReplicas d = Some 0)))) \<or>
    (\<exists>d t d'. deps w (wlNamespace wl, wlName wl) = Some d \<and> \<not> IsScaledDownByOperator d
       \<and> dReplicas d \<noteq> Some 0 \<and> deps w' = (deps w)((wlNamespace wl, wlName wl) \<mapsto> d') \<and>
       (depEq d' (suspended t d) \<or> r \<noteq> None \<and> depEq d' (recorded t d)))"
  by (rule deployment_api.ScaleDown_outcome [OF assms])

theorem scaledown_outcomes_witness:
  "\<exists>r w'. run_state (ScaleDown memEnv \<lparr>wlName = ''api'', wlNamespace = ''team'', wlIdleSince = exNoon\<rparr>)
      (exMem [exDep ''api'' (Some 3)] [Serve, Refuse Conflict] []) = (r, w') \<and> r \<noteq> None \<and>
    (\<exists>d t. memDeps w' (''team'', ''api'') = Some d \<and>
       (depEq d (exDep ''api'' (Some 3)) \<or> depEq d (suspended t (exDep ''api'' (Some 3))) \<or>
        depEq d (recorded t (exDep ''api'' (Some 3)))))"
proof -
  let ?wl = "\<lparr>wlName = ''api'', wlNamespace = ''team'', wlIdleSince = exNoon\<rparr>"
  let ?w = "exMem [exDep ''api'' (Some 3)] [Serve, Refuse Conflict] []"
  obtain r w' where run: "run_state (ScaleDown memEnv ?wl) ?w = (r, w')"
    by (cases "run_state (ScaleDown memEnv ?wl) ?w") auto
  have d: "memDeps ?w (''team'', ''api'') = Some (exDep ''api'' (Some 3))"
    by (simp add: memDeps_def exMem_def)
  have "r \<noteq> None"
    using run by (auto simp: ScaleDown_def memDeps_def exMem_def lookupOr404_def
        IsScaledDown_annOf memPatch_def written_def hdFault_def popFault_def put_def)
  moreover from scaledown_outcomes [OF mem.deployment_api_axioms run] d
  have "\<exists>d t. memDeps w' (''team'', ''api'') = Some d \<and>
       (depEq d (exDep ''api'' (Some 3)) \<or> depEq d (suspended t (exDep ''api'' (Some 3))) \<or>
        depEq d (recorded t (exDep ''api'' (Some 3))))"
    by auto
  ultimately show ?thesis using run by blast
qed

text \<open>
  C17. A restore has three outcomes too: nothing changed, the replica count of the record put
  back with the record still in place (only with an error), or the record removed as well.
  A record that is missing or does not parse is an error that changes nothing.
\<close>

theorem restore_outcomes:
  assumes "deployment_api E deps" and "run_state (Restore E ns n) w = (r, w')"
  shows "(deps w' = deps w \<and>
      (r = None \<longrightarrow> (\<exists>d. deps w (ns, n) = Some d \<and> \<not> IsScaledDownByOperator d))) \<or>
    (\<exists>d m d'. deps w (ns, n) = Some d \<and> IsScaledDownByOperator d \<and> intended d = Some m \<and>
       deps w' = (deps w)((ns, n) \<mapsto> d') \<and>
       (depEq d' (restored d) \<or> r \<noteq> None \<and> depEq d' (d\<lparr>dReplicas := Some m\<rparr>)))"
  by (rule deployment_api.Restore_outcome [OF assms])

theorem restore_outcomes_witness:
  "\<exists>r w'. run_state (Restore memEnv ''team'' ''api'')
      (exMem [setAnn AnnotationScaledDownBy governorName (exDep ''api'' (Some 0))] [] []) = (r, w')
    \<and> r \<noteq> None \<and> memDeps w' = memDeps
      (exMem [setAnn AnnotationScaledDownBy governorName (exDep ''api'' (Some 0))] [] [])"
proof -
  let ?d = "setAnn AnnotationScaledDownBy governorName (exDep ''api'' (Some 0))"
  let ?w = "exMem [?d] [] []"
  obtain r w' where run: "run_state (Restore memEnv ''team'' ''api'') ?w = (r, w')"
    by (cases "run_state (Restore memEnv ''team'' ''api'') ?w") auto
  have d: "memDeps ?w (''team'', ''api'') = Some ?d"
    by (simp add: memDeps_def exMem_def dkey_def)
  have no: "intended ?d = None" and marked: "IsScaledDownByOperator ?d"
    by (simp_all add: intended_def IsScaledDown_annOf)
  from restore_outcomes [OF mem.deployment_api_axioms run] d no marked
  have "memDeps w' = memDeps ?w" and "r \<noteq> None" by auto
  with run show ?thesis by blast
qed

text \<open>
  C15. Whatever fails on the way, none of the operator's operations on workloads can lose
  the replica count an owner asked for: after a scale-down, a restore or the suspension of
  a namespace the same Deployments exist, each with the same name, labels, foreign
  annotations and intended replica count as before.
\<close>

theorem intent_kept:
  assumes "deployment_api E deps"
  shows "keeps (\<lambda>w w'. depsSafe (deps w) (deps w')) (ScaleDown E wl)
    \<and> keeps (\<lambda>w w'. depsSafe (deps w) (deps w')) (Restore E ns n)
    \<and> keeps (\<lambda>w w'. depsSafe (deps w) (deps w')) (SuspendAll E ns exs)"
  using deployment_api.ScaleDown_safe [OF assms] deployment_api.Restore_safe [OF assms]
    deployment_api.suspend_safe [OF assms] by blast

theorem intent_kept_witness:
  "keeps (\<lambda>w w'. depsSafe (memDeps w) (memDeps w')) (SuspendAll memEnv ''team'' [])"
  using intent_kept [OF mem.deployment_api_axioms] by blast

text \<open>
  C18. A successful scale-down followed by a successful restore gives the Deployment back:
  its own replica count (one, where the field was unset and the default applied), its own
  labels and annotations, none of the operator's, and no other object changed.
\<close>

theorem scaledown_restore_roundtrip:
  assumes "deployment_api E deps"
    and "run_state (scaleDownAt E ns n) w = (None, w1)"
    and "run_state (Restore E ns n) w1 = (None, w2)"
    and "deps w (ns, n) = Some d" and "\<not> IsScaledDownByOperator d" and "dReplicas d \<noteq> Some 0"
  shows "\<exists>d2. deps w2 = (deps w)((ns, n) \<mapsto> d2) \<and> dReplicas d2 = Some (originalReplicas d) \<and>
    dLabels d2 = dLabels d \<and> (\<forall>k. annOf d2 k = (if k \<in> operatorKeys then None else annOf d k))"
  by (rule deployment_api.scale_restore [OF assms])

theorem scaledown_restore_roundtrip_witness:
  "\<exists>w1 w2 d2. run_state (scaleDownAt calmEnv ''team'' ''api'') (exMem [exDep ''api'' (Some 3)] [] []) = (None, w1)
    \<and> run_state (Restore calmEnv ''team'' ''api'') w1 = (None, w2)
    \<and> memDeps w2 (''team'', ''api'') = Some d2 \<and> dReplicas d2 = Some 3 \<and> annOf d2 = Map.empty"
proof -
  let ?w = "exMem [exDep ''api'' (Some 3)] [] []" and ?d = "exDep ''api'' (Some 3)"
  have d: "memDeps ?w (''team'', ''api'') = Some ?d" by (simp add: memDeps_def exMem_def)
  have u: "\<not> IsScaledDownByOperator ?d" "dReplicas ?d \<noteq> Some 0"
    by (simp_all add: IsScaledDown_annOf)
  obtain w1 where 1: "run_state (scaleDownAt calmEnv ''team'' ''api'') ?w = (None, w1)"
    using calm.scaleDown_up [of ?w "''team''" "''api''"] d
    by (cases "run_state (scaleDownAt calmEnv ''team'' ''api'') ?w") auto
  from keepsD [OF calm.down.act_safe 1] have safe: "depsSafe (memDeps ?w) (memDeps w1)" .
  then have "rel_option sameIntent (Some ?d) (memDeps w1 (''team'', ''api''))"
    using d unfolding depsSafe_def by metis
  then obtain d1 where d1: "memDeps w1 (''team'', ''api'') = Some d1" and "sameIntent ?d d1"
    by (auto simp: option_rel_Some1)
  then have "intended d1 = Some 3"
    using u by (simp add: sameIntent_def intended_def IsScaledDown_annOf originalReplicas_def)
  then obtain w2 where 2: "run_state (Restore calmEnv ''team'' ''api'') w1 = (None, w2)"
    using calm.restore_up [OF d1] by (cases "run_state (Restore calmEnv ''team'' ''api'') w1") auto
  from scaledown_restore_roundtrip [where deps = memDeps, OF calm.deployment_api_axioms 1 2 d u]
  obtain d2 where "memDeps w2 (''team'', ''api'') = Some d2" "dReplicas d2 = Some 3" "annOf d2 = Map.empty"
    by (auto simp: originalReplicas_def fun_eq_iff)
  with 1 2 show ?thesis by blast
qed

text \<open>
  C20. A failure between the two patches of a scale-down is not made good later: once a
  Deployment carries the mark, any number of further rounds of scale-down and suspension
  leave it exactly as it is, at whatever replica count it runs with.
\<close>

theorem marked_never_stopped:
  assumes "deployment_api E deps"
    and "deps w (ns, n) = Some d" and "IsScaledDownByOperator d"
    and "run_state (forEach (\<lambda>exs. State_Monad.bind (scaleDownAt E ns n) (\<lambda>_. SuspendAll E ns exs)) exss)
      w = (rs, w')"
  shows "deps w' (ns, n) = Some d"
  by (rule deployment_api.rounds_frame [OF assms])

theorem marked_never_stopped_witness:
  "\<exists>rs w' d. run_state (forEach (\<lambda>exs. State_Monad.bind (scaleDownAt memEnv ''team'' ''api'')
       (\<lambda>_. SuspendAll memEnv ''team'' exs)) [[], []])
     (exMem [recorded exNoon (exDep ''api'' (Some 3))] [] []) = (rs, w') \<and>
   memDeps w' (''team'', ''api'') = Some d \<and> dReplicas d = Some 3"
proof -
  let ?d = "recorded exNoon (exDep ''api'' (Some 3))"
  let ?w = "exMem [?d] [] []"
  let ?m = "forEach (\<lambda>exs. State_Monad.bind (scaleDownAt memEnv ''team'' ''api'')
       (\<lambda>_. SuspendAll memEnv ''team'' exs)) [[], []]"
  obtain rs w' where run: "run_state ?m ?w = (rs, w')" by (cases "run_state ?m ?w") auto
  have d: "memDeps ?w (''team'', ''api'') = Some ?d" by (simp add: memDeps_def exMem_def dkey_def)
  from marked_never_stopped [where deps = memDeps, OF mem.deployment_api_axioms d _ run]
  have "memDeps w' (''team'', ''api'') = Some ?d" by simp
  with run show ?thesis by (intro exI conjI) auto
qed

text \<open>
  C19. Suspending a namespace leaves alone every Deployment of another namespace, every one an
  exclusion names, every one whose labels a valid selector of an exclusion matches, every
  one that carries the operator's mark and every one already at zero; and when the listing
  worked, the names it answers are exactly those of the other Deployments of the namespace.
\<close>

theorem suspend_respects_exclusions:
  assumes "deployment_api E deps"
    and "run_state (SuspendAll E ns exs) w = (r, w')"
  shows "(\<forall>k d. deps w k = Some d \<and> (fst k \<noteq> ns \<or> spared E exs d) \<longrightarrow> deps w' k = Some d) \<and>
    (\<forall>names. r = Inr names \<longrightarrow> set names = {n. \<exists>d. deps w (ns, n) = Some d \<and> \<not> spared E exs d})"
proof (intro conjI allI impI)
  fix k d assume "deps w k = Some d \<and> (fst k \<noteq> ns \<or> spared E exs d)"
  then show "deps w' k = Some d"
    using deployment_api.suspend_frame [OF assms] by (simp add: suspendSkips_spared)
next
  fix names assume "r = Inr names"
  with deployment_api.suspend_names [OF assms(1)] assms(2)
  show "set names = {n. \<exists>d. deps w (ns, n) = Some d \<and> \<not> spared E exs d}"
    by (simp add: suspendSkips_spared)
qed

theorem suspend_respects_exclusions_witness:
  "\<exists>r w'. run_state (SuspendAll memEnv ''team'' [\<lparr>exName = [], exLabelSelector = Some [(''app'', ''web'')]\<rparr>])
      (exMem [exDep ''api'' (Some 3), exDep ''web'' (Some 2)] [] []) = (r, w') \<and>
    memDeps w' (''team'', ''web'') = Some (exDep ''web'' (Some 2))"
proof -
  let ?exs = "[\<lparr>exName = [], exLabelSelector = Some [(''app'', ''web'')]\<rparr>] :: labelSel Exclusion list"
  let ?w = "exMem [exDep ''api'' (Some 3), exDep ''web'' (Some 2)] [] []"
  obtain r w' where run: "run_state (SuspendAll memEnv ''team'' ?exs) ?w = (r, w')"
    by (cases "run_state (SuspendAll memEnv ''team'' ?exs) ?w") auto
  have d: "memDeps ?w (''team'', ''web'') = Some (exDep ''web'' (Some 2))"
    by (simp add: memDeps_def exMem_def)
  have s: "spared memEnv ?exs (exDep ''web'' (Some 2))"
    by (simp add: spared_def memSelector_def exDep_def)
  have "\<forall>k d. memDeps ?w k = Some d \<and> (fst k \<noteq> ''team'' \<or> spared memEnv ?exs d) \<longrightarrow> memDeps w' k = Some d"
    using suspend_respects_exclusions [where deps = memDeps, OF mem.deployment_api_axioms run] by (rule conjunct1)
  then have "memDeps ?w (''team'', ''web'') = Some (exDep ''web'' (Some 2)) \<and>
      (fst (''team'', ''web'') \<noteq> ''team'' \<or> spared memEnv ?exs (exDep ''web'' (Some 2))) \<longrightarrow>
      memDeps w' (''team'', ''web'') = Some (exDep ''web'' (Some 2))"
    by (elim allE)
  with d s run show ?thesis by blast
qed

text \<open>
  The names a suspension reports are those it tried: they are the Deployments it does not
  skip, whether or not scaling them down worked.
\<close>

lemma suspend_names_tried:
  assumes "deployment_api E deps" and "run_state (SuspendAll E ns exs) w = (Inr names, w')"
  shows "set names = {n. \<exists>d. deps w (ns, n) = Some d \<and> \<not> suspendSkips E exs d}"
  by (rule deployment_api.suspend_names [OF assms])

theorem suspend_names_tried_witness:
  "\<exists>w'. run_state (SuspendAll memEnv ''team'' []) (exMem [exDep ''api'' (Some 3)] [Refuse Conflict] [])
      = (Inr [''api''], w') \<and> set [''api''] = {n. \<exists>d. memDeps
         (exMem [exDep ''api'' (Some 3)] [Refuse Conflict] []) (''team'', n) = Some d \<and>
         \<not> suspendSkips memEnv [] d} \<and>
    memDeps w' (''team'', ''api'') = Some (exDep ''api'' (Some 3))"
proof -
  let ?w = "exMem [exDep ''api'' (Some 3)] [Refuse Conflict] []"
  have "\<exists>w'. run_state (SuspendAll memEnv ''team'' []) ?w = (Inr [''api''], w') \<and>
      memDeps w' (''team'', ''api'') = Some (exDep ''api'' (Some 3))"
    by (simp add: SuspendAll_def suspendLoop_run memList_def exMem_def memDeps_def
        List.map_filter_simps suspendSkips_def IsScaledDown_annOf scaleDownAt_def ScaleDown_def
        lookupOr404_def memPatch_def written_def hdFault_def popFault_def)
  then obtain w' where run: "run_state (SuspendAll memEnv ''team'' []) ?w = (Inr [''api''], w')"
    and w': "memDeps w' (''team'', ''api'') = Some (exDep ''api'' (Some 3))" by blast
  from suspend_names_tried [OF mem.deployment_api_axioms run] run w' show ?thesis by blast
qed

text \<open>
  When the API server answers, a suspension stops the whole namespace: every Deployment
  left is at zero or marked, or excluded.
\<close>

lemma suspend_complete:
  assumes "reliable_api E deps"
    and "run_state (SuspendAll E ns exs) w = (r, w')" and "deps w' (ns, n) = Some d'"
  shows "stopped d' \<or> IsExcluded n exs \<or> IsLabelExcluded E d' exs"
  by (rule reliable_api.suspend_all_stopped [OF assms])

lemma suspend_complete_witness:
  "\<exists>r w' d'. run_state (SuspendAll calmEnv ''team'' []) (exMem [exDep ''api'' (Some 3)] [] []) = (r, w')
     \<and> memDeps w' (''team'', ''api'') = Some d' \<and> stopped d'"
proof -
  let ?w = "exMem [exDep ''api'' (Some 3)] [] []"
  obtain r w' where run: "run_state (SuspendAll calmEnv ''team'' []) ?w = (r, w')"
    by (cases "run_state (SuspendAll calmEnv ''team'' []) ?w") auto
  have "memDeps ?w (''team'', ''api'') \<noteq> None" by (simp add: memDeps_def exMem_def)
  then obtain d' where d': "memDeps w' (''team'', ''api'') = Some d'"
    using depsSafe_dom [OF keepsD [OF calm.suspend_safe run]] by auto
  from suspend_complete [where deps = memDeps, OF calm.reliable_api_axioms run d'] have "stopped d'" by simp
  with run d' show ?thesis by blast
qed

end
