(* ===== verification/Report.thy ===== *)
theory Report
  imports Actions
begin

text \<open>
  \<^verbatim>\<open>internal/report/generator.go\<close>: the monthly cost report. Shown: the month a report covers,
  the per-workload aggregation, the ranking of the top consumers, the suspension events,
  that generating twice creates one report, and what a report that was created holds.
\<close>

section \<open>Types\<close>

record Generator =
  gMetricsClient :: MetricsClient
  gCPUPricePerCoreHour :: f64
  gMemPricePerGiBHour :: f64

record WorkloadUsage =
  wuName :: string
  wuCoreHours :: f64
  wuGiBHours :: f64
  wuCPUPercent :: f64
  wuMemPercent :: f64

definition NewGenerator :: "MetricsClient \<Rightarrow> f64 \<Rightarrow> f64 \<Rightarrow> Generator" where
  "NewGenerator metricsClient cpuPrice memPrice =
    \<lparr>gMetricsClient = metricsClient, gCPUPricePerCoreHour = cpuPrice, gMemPricePerGiBHour = memPrice\<rparr>"

section \<open>The month covered\<close>

definition reportName :: "string \<Rightarrow> gotime \<Rightarrow> string" where
  "reportName namespace t = namespace @ ''-'' @ formatYM t"

definition firstOfLastMonth :: "gotime \<Rightarrow> gotime" where
  "firstOfLastMonth now = dateUTC (yearOf now) (monthOf now - 1) 1 0 0"

definition lastOfLastMonth :: "gotime \<Rightarrow> gotime" where
  "lastOfLastMonth now = addT (addMonths 1 (firstOfLastMonth now)) (- 1000000000)"

section \<open>Usage per workload\<close>

definition aggregateByDeployment :: "Sample list \<Rightarrow> (string \<times> f64) list" where
  "aggregateByDeployment samples =
    divideCounts (groupSums (\<lambda>s. PodToDeployment (smPod s)) smValue samples)
      (groupCounts (\<lambda>s. PodToDeployment (smPod s)) samples)"

definition reportCpuQuery :: "string \<Rightarrow> string" where
  "reportCpuQuery namespace =
    ''avg_over_time(rate(container_cpu_usage_seconds_total{namespace=\"'' @ namespace
     @ ''\",container!=\"\"}[5m])[1h:5m])''"

definition reportMemQuery :: "string \<Rightarrow> string" where
  "reportMemQuery namespace =
    ''avg_over_time(container_memory_working_set_bytes{namespace=\"'' @ namespace
     @ ''\",container!=\"\"}[1h])''"

definition workloadUsages ::
  "f64 \<Rightarrow> (string \<times> f64) list \<Rightarrow> (string \<times> f64) list \<Rightarrow> WorkloadUsage list" where
  "workloadUsages elapsedHours memByDeployment cpu =
    map (\<lambda>(name, avgCPU). \<lparr>wuName = name, wuCoreHours = avgCPU * elapsedHours,
          wuGiBHours = alookup (Fin 0) memByDeployment name / gibi * elapsedHours,
          wuCPUPercent = Fin 0, wuMemPercent = Fin 0\<rparr>) cpu"

definition queryWorkloadUsage ::
  "('w, 'sel) env \<Rightarrow> Generator \<Rightarrow> string \<Rightarrow> gotime \<Rightarrow> gotime \<Rightarrow> ('w, WorkloadUsage list result) io"
where
  "queryWorkloadUsage E g namespace start stop = do {
     rc \<leftarrow> QueryRange E (gMetricsClient g) (reportCpuQuery namespace) start stop 3600;
     (case rc of
        Inl e \<Rightarrow> State_Monad.return (Inl (Wrapped ''querying cpu usage'' e))
      | Inr cpuSamples \<Rightarrow> do {
          rm \<leftarrow> QueryRange E (gMetricsClient g) (reportMemQuery namespace) start stop 3600;
          (case rm of
             Inl e \<Rightarrow> State_Monad.return (Inl (Wrapped ''querying memory usage'' e))
           | Inr memSamples \<Rightarrow> do {
               cpu \<leftarrow> eRange E (aggregateByDeployment cpuSamples);
               State_Monad.return (Inr (workloadUsages (hoursF (subT stop start))
                  (aggregateByDeployment memSamples) cpu)) }) }) }"

section \<open>Ranking and events\<close>

definition estimateUSD :: "Generator \<Rightarrow> f64 \<Rightarrow> f64 \<Rightarrow> f64" where
  "estimateUSD g coreHours gibHours =
    coreHours * gCPUPricePerCoreHour g + gibHours * gMemPricePerGiBHour g"

definition share :: "f64 \<Rightarrow> f64 \<Rightarrow> f64" where
  "share part whole = (if Fin 0 < whole then part / whole * i2f 100 else Fin 0)"

definition topConsumer ::
  "('w, 'sel) env \<Rightarrow> Generator \<Rightarrow> f64 \<Rightarrow> f64 \<Rightarrow> WorkloadUsage \<Rightarrow> TopConsumer" where
  "topConsumer E g totalCoreHours totalGiBHours w =
    \<lparr>tpWorkload = wuName w,
     tpCPUPercent = f2i (eFloatToInt E) (share (wuCoreHours w) totalCoreHours),
     tpMemoryPercent = f2i (eFloatToInt E) (share (wuGiBHours w) totalGiBHours),
     tpEstimatedUSD = ''$'' @ fmtF 2 (estimateUSD g (wuCoreHours w) (wuGiBHours w))\<rparr>"

definition byCoreHours :: "WorkloadUsage \<Rightarrow> WorkloadUsage \<Rightarrow> bool" where
  "byCoreHours a b = (wuCoreHours b < wuCoreHours a)"

definition buildTopConsumers ::
  "('w, 'sel) env \<Rightarrow> Generator \<Rightarrow> WorkloadUsage list \<Rightarrow> f64 \<Rightarrow> f64 \<Rightarrow> TopConsumer list" where
  "buildTopConsumers E g workloads totalCoreHours totalGiBHours =
    map (topConsumer E g totalCoreHours totalGiBHours) (take 5 (sortSlice E byCoreHours workloads))"

definition suspensionEvent :: "deployment \<Rightarrow> SuspensionEvent option" where
  "suspensionEvent d =
    (case dAnnotations d of
       None \<Rightarrow> None
     | Some m \<Rightarrow>
         (case m AnnotationScaledDownAt of
            None \<Rightarrow> None
          | Some scaledDownAt \<Rightarrow> Some \<lparr>seWorkload = dName d, seScaledDownAt = scaledDownAt,
              seReason = (case m AnnotationReason of None \<Rightarrow> [] | Some reason \<Rightarrow> reason)\<rparr>))"

definition collectSuspensionEvents ::
  "('w, 'sel) env \<Rightarrow> string \<Rightarrow> ('w, SuspensionEvent list result) io" where
  "collectSuspensionEvents E namespace = do {
     r \<leftarrow> eListDeployments E namespace;
     State_Monad.return (case r of
         Inl e \<Rightarrow> Inl (wrapErr ''listing deployments'' e)
       | Inr items \<Rightarrow> Inr (List.map_filter suspensionEvent items)) }"

section \<open>Generation\<close>

text \<open>A total that does not parse counts as zero.\<close>

definition totalOf :: "string \<Rightarrow> f64" where
  "totalOf s = (case ParseFloat s of (x, None) \<Rightarrow> x | (x, Some _) \<Rightarrow> Fin 0)"

definition reportStatus ::
  "('w, 'sel) env \<Rightarrow> Generator \<Rightarrow> 'sel NamespaceBudget \<Rightarrow> gotime \<Rightarrow> WorkloadUsage list
     \<Rightarrow> SuspensionEvent list \<Rightarrow> CostReportStatus" where
  "reportStatus E g budget now workloads events =
    (let totalCoreHours = totalOf (acCoreHours (stAccumulated (nbStatus budget)));
         totalGiBHours = totalOf (acGiBHours (stAccumulated (nbStatus budget)))
     in \<lparr>rsPeriod = formatYM (firstOfLastMonth now), rsNameSpace = nbNamespace budget,
         rsTotalCost = \<lparr>tcCoreHours = fmtF 2 totalCoreHours, tcGiBHours = fmtF 2 totalGiBHours,
            tcEstimatedUSD = ''$'' @ fmtF 2 (estimateUSD g totalCoreHours totalGiBHours)\<rparr>,
         rsTopConsumers = buildTopConsumers E g workloads totalCoreHours totalGiBHours,
         rsIdleEvents = [], rsSuspendedEvents = events, rsConditions = []\<rparr>)"

text \<open>The last two writes: the object, then its status.\<close>

definition publishReport ::
  "('w, 'sel) env \<Rightarrow> string \<Rightarrow> string \<Rightarrow> CostReportStatus \<Rightarrow> ('w, error option) io" where
  "publishReport E namespace reportRef status = do {
     r \<leftarrow> eCreateReport E \<lparr>crName = reportRef, crNamespace = namespace, crStatus = emptyReportStatus\<rparr>;
     (case r of
        Inl e \<Rightarrow> State_Monad.return (Some (wrapErr ''creating cost report'' e))
      | Inr report \<Rightarrow> do {
          u \<leftarrow> eUpdateReportStatus E (report\<lparr>crStatus := status\<rparr>);
          State_Monad.return (case u of
              Some e \<Rightarrow> Some (wrapErr ''updating cost report status'' e)
            | None \<Rightarrow> None) }) }"

definition Generate ::
  "('w, 'sel) env \<Rightarrow> Generator \<Rightarrow> 'sel NamespaceBudget \<Rightarrow> ('w, error option) io" where
  "Generate E g budget = do {
     now \<leftarrow> eNow E;
     x \<leftarrow> eGetReport E (nbNamespace budget) (reportName (nbNamespace budget) (firstOfLastMonth now));
     (case x of
        Inr existing \<Rightarrow> State_Monad.return None
      | Inl e \<Rightarrow>
          if e \<noteq> NotFound then State_Monad.return (Some (wrapErr ''checking existing report'' e))
          else do {
            q \<leftarrow> queryWorkloadUsage E g (nbNamespace budget) (firstOfLastMonth now) (lastOfLastMonth now);
            (case q of
               Inl e' \<Rightarrow> State_Monad.return (Some (Wrapped ''querying workload usage'' e'))
             | Inr workloads \<Rightarrow> do {
                 ev \<leftarrow> collectSuspensionEvents E (nbNamespace budget);
                 publishReport E (nbNamespace budget)
                   (reportName (nbNamespace budget) (firstOfLastMonth now))
                   (reportStatus E g budget now workloads
                      (case ev of Inl _ \<Rightarrow> [] | Inr events \<Rightarrow> events)) }) }) }"

section \<open>Facts on the month\<close>

lemma dateOf_parts: "dateOf t = (yearOf t, monthOf t, dayOf t)"
  by (simp add: yearOf_def monthOf_def dayOf_def)

lemma month_shift:
  fixes m :: int
  assumes "1 \<le> m" and "m \<le> 12"
  shows "(m - 1 - 1) div 12 = (if m = 1 then - 1 else 0)" "(m - 1 - 1) mod 12 + 1 = (if m = 1 then 12 else m - 1)"
proof -
  have "m = 1 \<or> 0 \<le> m - 2 \<and> m - 2 < 12" using assms by auto
  then show "(m - 1 - 1) div 12 = (if m = 1 then - 1 else 0)"
    "(m - 1 - 1) mod 12 + 1 = (if m = 1 then 12 else m - 1)"
    using assms by (auto simp: div_pos_pos_trivial mod_pos_pos_trivial)
qed

lemma firstOfLastMonth_date:
  "yearOf (firstOfLastMonth now) = (if monthOf now = 1 then yearOf now - 1 else yearOf now)"
  "monthOf (firstOfLastMonth now) = (if monthOf now = 1 then 12 else monthOf now - 1)"
  "dayOf (firstOfLastMonth now) = 1" "clockOf (firstOfLastMonth now) = 0"
  "tnsec (firstOfLastMonth now) = 0"
  using month_shift [OF dateOf_valid(1,2) [of now]]
  by (simp_all add: firstOfLastMonth_def dateUTC_first) (simp add: dateUTC_def)

lemma addMonths_first:
  "addMonths 1 (firstOfLastMonth now) = dateUTC (yearOf now) (monthOf now) 1 0 0"
proof -
  have "1 \<le> monthOf now" "monthOf now \<le> 12" by (rule dateOf_valid)+
  moreover from this have "(monthOf now - 1) div 12 = 0" "(monthOf now - 1) mod 12 = monthOf now - 1"
    by (simp_all add: div_pos_pos_trivial mod_pos_pos_trivial)
  ultimately show ?thesis
    by (simp add: addMonths_def firstOfLastMonth_date dateUTC_def)
qed

lemma lastOfLastMonth_eq:
  "lastOfLastMonth now = (dateUTC (yearOf now) (monthOf now) 1 0 0)
     \<lparr>tsec := tsec (dateUTC (yearOf now) (monthOf now) 1 0 0) - 1\<rparr>"
proof -
  obtain k where k: "dateUTC (yearOf now) (monthOf now) 1 0 0 = \<lparr>tsec = k, tnsec = 0, tzoff = 0\<rparr>"
    by (simp add: dateUTC_def)
  have "nanos \<lparr>tsec = k, tnsec = 0, tzoff = 0\<rparr> + - 1000000000 = (k - 1) * 1000000000"
    by (simp add: nanos_def)
  then show ?thesis
    by (simp only: lastOfLastMonth_def addMonths_first k addT_def) simp
qed

section \<open>Facts on the ranking\<close>

lemma byCoreHours_order:
  assumes "\<forall>w \<in> set ws. wuCoreHours w \<noteq> NaN" and "a \<in> set ws" "b \<in> set ws" "c \<in> set ws"
  shows "\<not> byCoreHours a a" and "byCoreHours a b \<Longrightarrow> byCoreHours b c \<Longrightarrow> byCoreHours a c"
    and "\<not> byCoreHours a b \<Longrightarrow> \<not> byCoreHours b c \<Longrightarrow> \<not> byCoreHours a c"
proof -
  from assms have n: "wuCoreHours a \<noteq> NaN" "wuCoreHours b \<noteq> NaN" "wuCoreHours c \<noteq> NaN" by auto
  show "\<not> byCoreHours a a"
    using fle_refl [OF n(1)] fnot_le [OF n(1) n(1)] by (auto simp: byCoreHours_def)
  show "byCoreHours a b \<Longrightarrow> byCoreHours b c \<Longrightarrow> byCoreHours a c"
    unfolding byCoreHours_def by (blast intro: fless_le_trans fless_le)
  have not: "\<not> y < x \<longleftrightarrow> x \<le> y" if "x \<noteq> NaN" "y \<noteq> NaN" for x y :: f64
    using fnot_le [OF that] by auto
  show "\<not> byCoreHours a b \<Longrightarrow> \<not> byCoreHours b c \<Longrightarrow> \<not> byCoreHours a c"
    unfolding byCoreHours_def using n by (auto simp: not intro: fle_trans)
qed

context go_runtime
begin

lemma ranked_sorted:
  assumes "\<forall>w \<in> set ws. wuCoreHours w \<noteq> NaN"
  shows "sorted_wrt (\<lambda>a b. wuCoreHours b \<le> wuCoreHours a) (sortSlice E byCoreHours ws)"
proof -
  have "sorted_wrt (\<lambda>a b. \<not> byCoreHours b a) (sortSlice E byCoreHours ws)"
    using byCoreHours_order [OF assms] by (intro sortSlice_sorted) metis+
  moreover have "set (sortSlice E byCoreHours ws) = set ws"
    by (rule set_perm [OF sortSlice_mset])
  ultimately show ?thesis
    using assms by (elim sorted_wrt_mono_rel [rotated]) (metis byCoreHours_def fnot_le)
qed

text \<open>No workload left out used more CPU than one that is listed.\<close>

lemma ranked_largest:
  assumes "\<forall>w \<in> set ws. wuCoreHours w \<noteq> NaN"
    and "a \<in> set (take k (sortSlice E byCoreHours ws))"
    and "b \<in> set (drop k (sortSlice E byCoreHours ws))"
  shows "wuCoreHours b \<le> wuCoreHours a"
proof -
  have "sorted_wrt (\<lambda>a b. wuCoreHours b \<le> wuCoreHours a)
    (take k (sortSlice E byCoreHours ws) @ drop k (sortSlice E byCoreHours ws))"
    using ranked_sorted [OF assms(1)] by simp
  with assms(2,3) show ?thesis by (simp only: sorted_wrt_append)
qed

end

section \<open>What a report must say\<close>

text \<open>The month before the one of \<open>now\<close>, from its first second to its last.\<close>

definition lastMonth :: "gotime \<Rightarrow> gotime \<Rightarrow> gotime \<Rightarrow> bool" where
  "lastMonth now start stop \<longleftrightarrow>
    dateOf start = (if monthOf now = 1 then (yearOf now - 1, 12, 1) else (yearOf now, monthOf now - 1, 1)) \<and>
    clockOf start = 0 \<and> tnsec start = 0 \<and>
    tsec stop + 1 = tsec (dateUTC (yearOf now) (monthOf now) 1 0 0) \<and> tnsec stop = 0"

text \<open>
  The workloads are the owners of the pods with a CPU sample, each once, with the mean of the
  samples of its pods times the hours of the month; no memory sample counts as no memory.
\<close>

abbreviation "owners samples \<equiv> (PodToDeployment \<circ> smPod) ` set samples"

definition perPod :: "Sample list \<Rightarrow> string \<Rightarrow> f64" where
  "perPod samples dep = mean (map smValue (filter (\<lambda>s. PodToDeployment (smPod s) = dep) samples))"

definition usagesOf :: "f64 \<Rightarrow> Sample list \<Rightarrow> Sample list \<Rightarrow> WorkloadUsage list \<Rightarrow> bool" where
  "usagesOf hours cpu mem ws \<longleftrightarrow>
    distinct (map wuName ws) \<and> wuName ` set ws = owners cpu \<and>
    (\<forall>u \<in> set ws. wuCoreHours u = perPod cpu (wuName u) * hours \<and>
       wuGiBHours u = (if wuName u \<in> owners mem then perPod mem (wuName u) else Fin 0) / gibi * hours)"

text \<open>The events are the Deployments of the namespace with a time of scale-down.\<close>

definition eventsOf :: "(objkey \<rightharpoonup> deployment) \<Rightarrow> string \<Rightarrow> SuspensionEvent set" where
  "eventsOf m ns = {\<lparr>seWorkload = n, seScaledDownAt = ts,
      seReason = (case annOf d AnnotationReason of None \<Rightarrow> [] | Some reason \<Rightarrow> reason)\<rparr> | n ts d.
      m (ns, n) = Some d \<and> annOf d AnnotationScaledDownAt = Some ts}"

definition completeReport ::
  "('w, 'sel) env \<Rightarrow> Generator \<Rightarrow> 'sel NamespaceBudget \<Rightarrow> gotime \<Rightarrow> gotime \<Rightarrow> Sample list \<Rightarrow> Sample list
     \<Rightarrow> SuspensionEvent list \<Rightarrow> CostReportStatus \<Rightarrow> bool" where
  "completeReport E g b start stop cpu mem evs st \<longleftrightarrow>
    (let cores = totalOf (acCoreHours (stAccumulated (nbStatus b)));
         gibs = totalOf (acGiBHours (stAccumulated (nbStatus b)))
     in rsPeriod st = formatYM start \<and> rsNameSpace st = nbNamespace b \<and>
        tcCoreHours (rsTotalCost st) = fmtF 2 cores \<and> tcGiBHours (rsTotalCost st) = fmtF 2 gibs \<and>
        tcEstimatedUSD (rsTotalCost st) =
          ''$'' @ fmtF 2 (cores * gCPUPricePerCoreHour g + gibs * gMemPricePerGiBHour g) \<and>
        (\<exists>ws. usagesOf (hoursF (subT stop start)) cpu mem ws \<and>
           rsTopConsumers st = buildTopConsumers E g ws cores gibs) \<and>
        rsSuspendedEvents st = evs)"

text \<open>
  The status a generation has to write: over the two answers of Prometheus for the month, and
  the Deployments of the namespace, or no event if they could not be listed.
\<close>

definition reportOf ::
  "('w, 'sel) env \<Rightarrow> Generator \<Rightarrow> 'sel NamespaceBudget \<Rightarrow> (objkey \<rightharpoonup> deployment) \<Rightarrow> gotime \<Rightarrow> gotime
     \<Rightarrow> CostReportStatus \<Rightarrow> bool" where
  "reportOf E g b m start stop st \<longleftrightarrow>
    (\<exists>cpu mem evs w1 w2 w3 w4 items.
       fst (run_state (QueryRange E (gMetricsClient g) (reportCpuQuery (nbNamespace b)) start stop 3600) w1) = Inr cpu \<and>
       fst (run_state (QueryRange E (gMetricsClient g) (reportMemQuery (nbNamespace b)) start stop 3600) w2) = Inr mem \<and>
       run_state (eListDeployments E (nbNamespace b)) w3 = (items, w4) \<and>
       (if isl items then evs = [] else distinct (map seWorkload evs) \<and> set evs = eventsOf m (nbNamespace b)) \<and>
       completeReport E g b start stop cpu mem evs st)"

section \<open>Facts on the generation\<close>

lemma lastMonth_code: "lastMonth now (firstOfLastMonth now) (lastOfLastMonth now)"
  by (simp add: lastMonth_def dateOf_parts firstOfLastMonth_date lastOfLastMonth_eq) (simp add: dateUTC_def)

lemma lastMonth_period: "lastMonth now start stop \<Longrightarrow> formatYM start = formatYM (firstOfLastMonth now)"
  by (auto simp: lastMonth_def dateOf_parts formatYM_def firstOfLastMonth_date split: if_splits)

lemma map_of_aggregate:
  "map_of (aggregateByDeployment samples) dep =
    (if dep \<in> (PodToDeployment \<circ> smPod) ` set samples
     then Some (mean (map smValue (filter (\<lambda>s. PodToDeployment (smPod s) = dep) samples))) else None)"
  by (simp add: aggregateByDeployment_def map_of_divideCounts ofKey_def comp_def)

lemma suspensionEvent_iff:
  "suspensionEvent d = Some ev \<longleftrightarrow>
   (\<exists>ts. annOf d AnnotationScaledDownAt = Some ts \<and> ev = \<lparr>seWorkload = dName d, seScaledDownAt = ts,
      seReason = (case annOf d AnnotationReason of None \<Rightarrow> [] | Some reason \<Rightarrow> reason)\<rparr>)"
  by (auto simp: suspensionEvent_def annOf_def split: option.splits)

lemma aggregate_keys: "distinct (map fst (aggregateByDeployment samples))"
  by (simp add: aggregateByDeployment_def groupSums_keys)

text \<open>However the map is ranged over, the workloads are the right ones.\<close>

lemma workloadUsages_of:
  assumes "mset m = mset (aggregateByDeployment cpu)"
  shows "usagesOf hours cpu mem (workloadUsages hours (aggregateByDeployment mem) m)"
proof -
  have "mset (map fst m) = mset (map fst (aggregateByDeployment cpu))" by (simp add: assms)
  then have d: "distinct (map fst m)" using aggregate_keys distinct_perm by metis
  have s: "set m = set (aggregateByDeployment cpu)" using assms by (rule set_perm)
  have names: "map wuName (workloadUsages hours (aggregateByDeployment mem) m) = map fst m"
    by (auto simp: workloadUsages_def)
  have v: "name \<in> owners cpu \<and> v = perPod cpu name" if "(name, v) \<in> set m" for name v
    using that map_of_is_SomeI [OF aggregate_keys, of name v cpu]
    unfolding s map_of_aggregate perPod_def by (simp split: if_splits)
  have "fst ` set m = owners cpu"
    unfolding s dom_map_of_conv_image_fst [symmetric] by (auto simp: map_of_aggregate dom_def)
  moreover have "alookup (Fin 0) (aggregateByDeployment mem) name =
      (if name \<in> owners mem then perPod mem name else Fin 0)" for name
    by (simp add: alookup_def map_of_aggregate perPod_def)
  moreover have "wuName ` set (workloadUsages hours (aggregateByDeployment mem) m) = fst ` set m"
    by (simp only: set_map [symmetric] names)
  moreover have "wuCoreHours u = perPod cpu (wuName u) * hours \<and>
      wuGiBHours u = alookup (Fin 0) (aggregateByDeployment mem) (wuName u) / gibi * hours"
    if "u \<in> set (workloadUsages hours (aggregateByDeployment mem) m)" for u
    using that v by (auto simp: workloadUsages_def)
  ultimately show ?thesis
    unfolding usagesOf_def names using d by simp
qed

text \<open>
  The events of a report are the Deployments of the namespace that carry the time of their
  scale-down, with that time and the recorded reason, and no others.
\<close>

lemma suspension_events_exact:
  assumes "deployment_api E deps"
    and "run_state (collectSuspensionEvents E ns) w = (Inr events, w')"
  shows "set events = eventsOf (deps w) ns" and "distinct (map seWorkload events)"
proof -
  from assms(2) obtain items w1 where list: "run_state (eListDeployments E ns) w = (Inr items, w1)"
    and ev: "events = List.map_filter suspensionEvent items"
    by (auto simp: collectSuspensionEvents_def split: prod.splits sum.splits)
  from deployment_api.list_ok [OF assms(1) list]
  have items: "set items = {d. \<exists>n. deps w (ns, n) = Some d}" and d: "distinct (map dName items)" by blast+
  with deployment_api.stored_ns [OF assms(1)] show "set events = eventsOf (deps w) ns"
    unfolding ev eventsOf_def set_map_filter by (fastforce simp: suspensionEvent_iff)
  have "map seWorkload (List.map_filter suspensionEvent items) =
      map dName (filter (\<lambda>d. suspensionEvent d \<noteq> None) items)"
    by (induction items) (auto simp: List.map_filter_simps suspensionEvent_iff [THEN iffD1] split: option.split
        dest: suspensionEvent_iff [THEN iffD1])
  with d show "distinct (map seWorkload events)"
    unfolding ev by (simp add: distinct_map_fst_filter)
qed


definition reportKey :: "string \<Rightarrow> gotime \<Rightarrow> objkey" where
  "reportKey ns now = (ns, reportName ns (firstOfLastMonth now))"

definition mkReport :: "objkey \<Rightarrow> CostReportStatus \<Rightarrow> CostReport" where
  "mkReport k st = \<lparr>crName = snd k, crNamespace = fst k, crStatus = st\<rparr>"

context cluster
begin

lemma queryWorkloadUsage_same: "keeps same (queryWorkloadUsage E g ns a b)"
  unfolding queryWorkloadUsage_def
  by (intro same_intros) (auto split: sum.split intro!: same_intros)

lemma collect_same: "keeps same (collectSuspensionEvents E ns)"
  unfolding collectSuspensionEvents_def by (intro same_intros)

text \<open>Publishing creates at most the one report, and finishes it when it answers no error.\<close>

lemma publish_outcome:
  assumes "run_state (publishReport E ns ref st) w = (r, w')"
  shows "deps w' = deps w \<and> buds w' = buds w \<and> slack w' = slack w \<and>
    ((reps w' = reps w \<and> r \<noteq> None) \<or>
     (reps w (ns, ref) = None \<and> (\<exists>st'. reps w' = (reps w)((ns, ref) \<mapsto> mkReport (ns, ref) st') \<and>
        (st' = st \<or> r \<noteq> None \<and> st' = emptyReportStatus))))"
proof -
  let ?c = "mkReport (ns, ref) emptyReportStatus"
  obtain x w1 where cr: "run_state (eCreateReport E ?c) w = (x, w1)"
    by (cases "run_state (eCreateReport E ?c) w") auto
  from keepsD [OF create_frame cr]
  have f1: "deps w1 = deps w" "buds w1 = buds w" "slack w1 = slack w" by auto
  show ?thesis
  proof (cases x)
    case (Inl e)
    with assms cr have "r \<noteq> None" "w' = w1"
      by (auto simp: publishReport_def mkReport_def)
    with create_err [OF cr [unfolded Inl]] f1 show ?thesis by (auto simp: mkReport_def)
  next
    case (Inr rep)
    from create_ok [OF cr [unfolded Inr]]
    have new: "reps w (ns, ref) = None" and rep: "rep = ?c"
      and w1: "reps w1 = (reps w)((ns, ref) \<mapsto> ?c)"
      by (auto simp: mkReport_def)
    obtain u w2 where up: "run_state (eUpdateReportStatus E (mkReport (ns, ref) st)) w1 = (u, w2)"
      by (cases "run_state (eUpdateReportStatus E (mkReport (ns, ref) st)) w1") auto
    from keepsD [OF repstatus_frame up] f1
    have f2: "deps w2 = deps w" "buds w2 = buds w" "slack w2 = slack w" by auto
    from assms cr Inr rep up have r: "r = None \<longleftrightarrow> u = None" and w': "w' = w2"
      by (auto simp: publishReport_def mkReport_def split: option.splits)
    show ?thesis
    proof (cases u)
      case None
      with repstatus_ok [OF up [unfolded None]] w1 have "reps w2 = (reps w)((ns, ref) \<mapsto> mkReport (ns, ref) st)"
        by (simp add: mkReport_def)
      with new f2 w' show ?thesis by auto
    next
      case (Some e)
      with repstatus_err [OF up [unfolded Some]] w1
      have "reps w2 = (reps w)((ns, ref) \<mapsto> ?c) \<or> reps w2 = (reps w)((ns, ref) \<mapsto> mkReport (ns, ref) st)"
        by (auto simp: mkReport_def)
      with new f2 w' r Some show ?thesis by auto
    qed
  qed
qed

lemma queryWorkloadUsage_ok:
  assumes "run_state (queryWorkloadUsage E g ns start stop) w = (Inr ws, w')"
  obtains cpu mem w1
  where "fst (run_state (QueryRange E (gMetricsClient g) (reportCpuQuery ns) start stop 3600) w) = Inr cpu"
    and "fst (run_state (QueryRange E (gMetricsClient g) (reportMemQuery ns) start stop 3600) w1) = Inr mem"
    and "usagesOf (hoursF (subT stop start)) cpu mem ws"
proof -
  from assms obtain cpu w1 mem w2 m
    where q: "run_state (QueryRange E (gMetricsClient g) (reportCpuQuery ns) start stop 3600) w = (Inr cpu, w1)"
      "run_state (QueryRange E (gMetricsClient g) (reportMemQuery ns) start stop 3600) w1 = (Inr mem, w2)"
      and m: "run_state (eRange E (aggregateByDeployment cpu)) w2 = (m, w')"
      and ws: "ws = workloadUsages (hoursF (subT stop start)) (aggregateByDeployment mem) m"
    by (auto simp: queryWorkloadUsage_def split: prod.splits sum.splits)
  from q workloadUsages_of [OF range_perm [OF m]] show ?thesis
    by (intro that [of cpu w1 mem]) (simp_all add: ws)
qed

lemma reportStatus_of:
  assumes "run_state (queryWorkloadUsage E g (nbNamespace b) (firstOfLastMonth now) (lastOfLastMonth now)) w1 = (Inr ws, w2)"
    and "run_state (collectSuspensionEvents E (nbNamespace b)) w3 = (ev, w4)" and "deps w3 = m"
  shows "reportOf E g b m (firstOfLastMonth now) (lastOfLastMonth now)
    (reportStatus E g b now ws (case ev of Inl _ \<Rightarrow> [] | Inr events \<Rightarrow> events))"
proof -
  let ?start = "firstOfLastMonth now" and ?stop = "lastOfLastMonth now" and ?ns = "nbNamespace b"
  let ?evs = "case ev of Inl _ \<Rightarrow> [] | Inr events \<Rightarrow> events"
  obtain cpu mem v where q: "fst (run_state (QueryRange E (gMetricsClient g) (reportCpuQuery ?ns) ?start ?stop 3600) w1) = Inr cpu"
    "fst (run_state (QueryRange E (gMetricsClient g) (reportMemQuery ?ns) ?start ?stop 3600) v) = Inr mem"
    and u: "usagesOf (hoursF (subT ?stop ?start)) cpu mem ws" using queryWorkloadUsage_ok [OF assms(1)] .
  obtain items w5 where list: "run_state (eListDeployments E ?ns) w3 = (items, w5)"
    by (cases "run_state (eListDeployments E ?ns) w3") auto
  have "if isl items then ?evs = [] else distinct (map seWorkload ?evs) \<and> set ?evs = eventsOf m ?ns"
  proof (cases ev)
    case (Inl e)
    with assms(2) list have "isl items" by (auto simp: collectSuspensionEvents_def split: sum.splits)
    with Inl show ?thesis by simp
  next
    case (Inr events)
    with assms(2) list have "\<not> isl items" by (auto simp: collectSuspensionEvents_def split: sum.splits)
    with Inr suspension_events_exact [OF deployment_api_axioms assms(2) [unfolded Inr]] assms(3) show ?thesis by simp
  qed
  moreover have "completeReport E g b ?start ?stop cpu mem ?evs (reportStatus E g b now ws ?evs)"
    using u by (auto simp: completeReport_def reportStatus_def Let_def estimateUSD_def)
  ultimately show ?thesis
    unfolding reportOf_def using q list by blast
qed

text \<open>The paths of \<open>Generate\<close>: the report is there, a query failed, or it is published.\<close>

lemma Generate_steps:
  assumes "run_state (Generate E g b) w = (r, w')"
  obtains now w1 where "run_state (eNow E) w = (now, w1)" and "same w w'"
      and "r = None \<longrightarrow> reps w (reportKey (nbNamespace b) now) \<noteq> None"
  | (published) now w1 st w4 where "run_state (eNow E) w = (now, w1)" and "same w w4"
      and "run_state (publishReport E (nbNamespace b) (reportName (nbNamespace b) (firstOfLastMonth now)) st) w4 = (r, w')"
      and "reportOf E g b (deps w) (firstOfLastMonth now) (lastOfLastMonth now) st"
proof -
  let ?ns = "nbNamespace b"
  obtain now w1 where now: "run_state (eNow E) w = (now, w1)" by (cases "run_state (eNow E) w") auto
  let ?ref = "reportName ?ns (firstOfLastMonth now)"
  obtain x w2 where get: "run_state (eGetReport E ?ns ?ref) w1 = (x, w2)"
    by (cases "run_state (eGetReport E ?ns ?ref) w1") auto
  from keepsD [OF now_same now] keepsD [OF report_same get]
  have s1: "same w w1" and s2: "same w w2" by (auto simp: same_def)
  show ?thesis
  proof (cases "x = Inl NotFound")
    case False
    with assms now get have "w' = w2" "r = None \<longrightarrow> (\<exists>rep. x = Inr rep)"
      by (auto simp: Generate_def split: sum.splits if_splits)
    with report_ok [of ?ns ?ref w1 _ w2] get s1 s2 now show ?thesis
      by (intro that(1) [of now w1]) (auto simp: same_def reportKey_def)
  next
    case missing: True
    let ?q = "queryWorkloadUsage E g ?ns (firstOfLastMonth now) (lastOfLastMonth now)"
    obtain q w3 where q: "run_state ?q w2 = (q, w3)" by (cases "run_state ?q w2") auto
    from keepsD [OF queryWorkloadUsage_same q] s2 have s3: "same w w3" by (auto simp: same_def)
    obtain ev w4 where ev: "run_state (collectSuspensionEvents E ?ns) w3 = (ev, w4)"
      by (cases "run_state (collectSuspensionEvents E ?ns) w3") auto
    from keepsD [OF collect_same ev] s3 have s4: "same w w4" by (auto simp: same_def)
    show ?thesis
    proof (cases q)
      case (Inl e)
      with assms now get missing q s3 show ?thesis by (intro that(1) [OF now]) (auto simp: Generate_def)
    next
      case (Inr ws)
      have "deps w3 = deps w" using s3 by (simp add: same_def)
      from assms now get missing q Inr ev show ?thesis
        by (intro that(2) [OF now s4 _ reportStatus_of [OF q [unfolded Inr] ev \<open>deps w3 = deps w\<close>]])
           (simp add: Generate_def)
    qed
  qed
qed

lemma Generate_outcome:
  assumes "run_state (Generate E g b) w = (r, w')"
  shows "\<exists>now w1. run_state (eNow E) w = (now, w1) \<and>
    deps w' = deps w \<and> buds w' = buds w \<and> slack w' = slack w \<and>
    ((reps w' = reps w \<and> (r = None \<longrightarrow> reps w (reportKey (nbNamespace b) now) \<noteq> None)) \<or>
     (reps w (reportKey (nbNamespace b) now) = None \<and>
      (\<exists>st. reps w' = (reps w)(reportKey (nbNamespace b) now \<mapsto>
            mkReport (reportKey (nbNamespace b) now) st) \<and>
         (reportOf E g b (deps w) (firstOfLastMonth now) (lastOfLastMonth now) st \<or>
          r \<noteq> None \<and> st = emptyReportStatus))))"
  using assms
proof (cases rule: Generate_steps)
  case (1 now w1)
  then show ?thesis by (intro exI [of _ now] exI [of _ w1]) (auto simp: same_def)
next
  case (published now w1 st w4)
  have key: "(nbNamespace b, reportName (nbNamespace b) (firstOfLastMonth now)) = reportKey (nbNamespace b) now"
    by (simp add: reportKey_def)
  from publish_outcome [OF published(3)] published(1,2,4) show ?thesis
    unfolding key same_def by (intro exI [of _ now] exI [of _ w1]) fastforce
qed

lemma Generate_existing:
  assumes "run_state (Generate E g b) w = (r, w')" and "run_state (eNow E) w = (now, w1)"
    and "reps w (reportKey (nbNamespace b) now) = Some rep"
  shows "same w w' \<and> (r = None \<or> (\<exists>e. r = Some (wrapErr ''checking existing report'' e)))"
proof -
  let ?ns = "nbNamespace b"
  let ?ref = "reportName ?ns (firstOfLastMonth now)"
  obtain x w2 where get: "run_state (eGetReport E ?ns ?ref) w1 = (x, w2)"
    by (cases "run_state (eGetReport E ?ns ?ref) w1") auto
  from keepsD [OF now_same assms(2)] keepsD [OF report_same get]
  have s1: "same w w1" and s2: "same w w2" by (auto simp: same_def)
  have "x \<noteq> Inl NotFound"
    using report_missing [of ?ns ?ref w1 w2] get s1 assms(3) by (auto simp: same_def reportKey_def)
  with assms(1,2) get s2 show ?thesis
    by (cases x) (auto simp: Generate_def)
qed

end

section \<open>Properties\<close>

text \<open>
  The report generated at an instant covers exactly the calendar month before the one
  the clock shows (December of the previous year in January): it starts at midnight of the
  first day and ends one second before the first day of the clock's month.
\<close>

lemma report_month:
  "dateOf (firstOfLastMonth now) =
     (if monthOf now = 1 then (yearOf now - 1, 12, 1) else (yearOf now, monthOf now - 1, 1)) \<and>
   clockOf (firstOfLastMonth now) = 0 \<and>
   tsec (lastOfLastMonth now) + 1 = tsec (dateUTC (yearOf now) (monthOf now) 1 0 0) \<and>
   tnsec (lastOfLastMonth now) = 0"
  by (simp add: dateOf_parts firstOfLastMonth_date lastOfLastMonth_eq) (simp add: dateUTC_def)


definition exMonth :: mem where
  "exMonth = exMem [setAnn AnnotationScaledDownAt ''2025-12-24T12:00:00Z'' (exDep ''api'' (Some 0))] []
     [Inr (vectorAnswer [(''api-7d-x1'', 1766577600000, Decimal False 3 500)]),
      Inr (vectorAnswer [(''api-7d-x1'', 1766577600000, Decimal False 0 1073741824)])]"

lemma exMonth_views:
  "memReps exMonth = Map.empty" "mClock exMonth = exNoon"
  "memDeps exMonth = [(''team'', ''api'') \<mapsto> setAnn AnnotationScaledDownAt ''2025-12-24T12:00:00Z'' (exDep ''api'' (Some 0))]"
  by (auto simp: exMonth_def exMem_def memReps_def memDeps_def dkey_def fun_eq_iff)

lemma exMonth_run:
  "fst (run_state (Generate memEnv (NewGenerator (NewClient ''http://prometheus'') (Fin 1) (Fin 1)) exBudget) exMonth) = None"
proof -
  have r: "inRange (Decimal False 3 500)" "inRange (Decimal False 0 1073741824)" by code_simp+
  obtain cpu where cpu: "decodeAnswer memEnv (vectorAnswer [(''api-7d-x1'', 1766577600000, Decimal False 3 500)]) = Inr cpu"
    by (rule vector_samples [of "[(''api-7d-x1'', 1766577600000, Decimal False 3 500)]" memEnv]) (simp_all add: r del: inRange.simps)
  obtain mem where mem: "decodeAnswer memEnv (vectorAnswer [(''api-7d-x1'', 1766577600000, Decimal False 0 1073741824)]) = Inr mem"
    by (rule vector_samples [of "[(''api-7d-x1'', 1766577600000, Decimal False 0 1073741824)]" memEnv])
       (simp_all add: r del: inRange.simps)
  show ?thesis
    by (simp add: Generate_def lookupOr404_def exMonth_views queryWorkloadUsage_def QueryRange_def doRequest_def
        memProm_def exMonth_def exMem_def cpu mem collectSuspensionEvents_def publishReport_def memCreate_def
        memReps_def written_def hdFault_def memReportStatus_def mem_puts put_def repKey_def popFault_def)
qed


text \<open>
  C31. A stored report is final. Generation finds it and stops, with success unless the lookup
  itself failed, also when the stored report is the empty one a failed status write left
  behind: that one is never filled in.
\<close>

theorem generate_existing_final:
  assumes "cluster E deps buds reps slack same" and "run_state (Generate E g b) w = (r, w')"
    and "run_state (eNow E) w = (now, w1)"
    and "reps w (reportKey (nbNamespace b) now) = Some rep"
  shows "same w w' \<and> (r = None \<or> (\<exists>e. r = Some (wrapErr ''checking existing report'' e)))"
  by (rule cluster.Generate_existing [OF assms])

theorem generate_existing_final_witness:
  "\<exists>w'. run_state (Generate memEnv (NewGenerator (NewClient ''http://prometheus'') (Fin 1) (Fin 1)) exBudget)
      (exMem [] [] []\<lparr>mReps := [mkReport (reportKey ''team'' exNoon) emptyReportStatus]\<rparr>) = (None, w') \<and>
    memReps w' (reportKey ''team'' exNoon) = Some (mkReport (reportKey ''team'' exNoon) emptyReportStatus)"
proof -
  let ?g = "NewGenerator (NewClient ''http://prometheus'') (Fin 1) (Fin 1)"
  let ?rep = "mkReport (reportKey ''team'' exNoon) emptyReportStatus"
  let ?w = "exMem [] [] []\<lparr>mReps := [?rep]\<rparr>"
  obtain r w' where run: "run_state (Generate memEnv ?g exBudget) ?w = (r, w')"
    by (cases "run_state (Generate memEnv ?g exBudget) ?w") auto
  have now: "\<exists>w1. run_state (eNow memEnv) ?w = (exNoon, w1)"
    by (simp add: exMem_def)
  then obtain w1 where now: "run_state (eNow memEnv) ?w = (exNoon, w1)" ..
  have rep: "memReps ?w (reportKey (nbNamespace exBudget) exNoon) = Some ?rep"
    by (simp add: memReps_def repKey_def mkReport_def)
  from generate_existing_final [where deps = memDeps and buds = memBuds and reps = memReps and slack = mSlack
      and same = memSame, OF memc.cluster_axioms run now rep]
  have "memReps w' (reportKey ''team'' exNoon) = Some ?rep" using rep by (simp add: memSame_def)
  moreover from run have "r = None"
    by (auto simp: Generate_def exMem_def memReps_def repKey_def mkReport_def reportKey_def
        lookupOr404_def split: sum.splits)
  ultimately show ?thesis using run by blast
qed

text \<open>
  C32. The ranking lists the five workloads (or all, if fewer) with the most core-hours, in
  descending order, whatever order the sort gives to equal ones; it is enough that no
  figure is NaN.
\<close>

theorem top_consumers_largest:
  assumes "go_runtime E" and "\<forall>w \<in> set ws. wuCoreHours w \<noteq> NaN"
  shows "\<exists>listed rest. mset (listed @ rest) = mset ws \<and> length listed = min 5 (length ws) \<and>
    buildTopConsumers E g ws cpu mem = map (topConsumer E g cpu mem) listed \<and>
    sorted_wrt (\<lambda>a b. wuCoreHours b \<le> wuCoreHours a) listed \<and>
    (\<forall>a \<in> set listed. \<forall>b \<in> set rest. wuCoreHours b \<le> wuCoreHours a)"
proof (intro exI conjI)
  let ?s = "sortSlice E byCoreHours ws"
  show "mset (take 5 ?s @ drop 5 ?s) = mset ws"
    by (simp only: append_take_drop_id go_runtime.sortSlice_mset [OF assms(1)])
  show "length (take 5 ?s) = min 5 (length ws)"
    by (simp add: go_runtime.sortSlice_length [OF assms(1)] min.commute)
  show "buildTopConsumers E g ws cpu mem = map (topConsumer E g cpu mem) (take 5 ?s)"
    by (simp add: buildTopConsumers_def)
  show "sorted_wrt (\<lambda>a b. wuCoreHours b \<le> wuCoreHours a) (take 5 ?s)"
    using go_runtime.ranked_sorted [OF assms] by (rule sorted_wrt_take)
  show "\<forall>a \<in> set (take 5 ?s). \<forall>b \<in> set (drop 5 ?s). wuCoreHours b \<le> wuCoreHours a"
    using go_runtime.ranked_largest [OF assms] by blast
qed

definition exUsage :: "string \<Rightarrow> f64 \<Rightarrow> WorkloadUsage" where
  "exUsage n x = \<lparr>wuName = n, wuCoreHours = x, wuGiBHours = Fin 0, wuCPUPercent = Fin 0, wuMemPercent = Fin 0\<rparr>"

theorem top_consumers_largest_witness:
  "\<exists>listed. mset listed = mset [exUsage ''a'' (Fin 1), exUsage ''b'' (Fin 2)] \<and>
    buildTopConsumers memEnv (NewGenerator (NewClient []) (Fin 1) (Fin 1))
      [exUsage ''a'' (Fin 1), exUsage ''b'' (Fin 2)] (Fin 3) (Fin 3) =
      map (topConsumer memEnv (NewGenerator (NewClient []) (Fin 1) (Fin 1)) (Fin 3) (Fin 3)) listed \<and>
    sorted_wrt (\<lambda>a b. wuCoreHours b \<le> wuCoreHours a) listed"
proof -
  let ?ws = "[exUsage ''a'' (Fin 1), exUsage ''b'' (Fin 2)]"
  have "\<forall>w \<in> set ?ws. wuCoreHours w \<noteq> NaN" by (simp add: exUsage_def)
  from top_consumers_largest [OF memrt.go_runtime_axioms this]
  obtain listed rest where l: "mset (listed @ rest) = mset ?ws" "length listed = min 5 (length ?ws)"
    "buildTopConsumers memEnv (NewGenerator (NewClient []) (Fin 1) (Fin 1)) ?ws (Fin 3) (Fin 3) =
      map (topConsumer memEnv (NewGenerator (NewClient []) (Fin 1) (Fin 1)) (Fin 3) (Fin 3)) listed"
    "sorted_wrt (\<lambda>a b. wuCoreHours b \<le> wuCoreHours a) listed" by blast
  from l(2) arg_cong [OF l(1), of size] have "rest = []" by simp
  with l show ?thesis by (intro exI [of _ listed]) simp
qed

text \<open>
  C33. Usage per workload is the mean over all samples of its pods, so a workload of several
  pods is listed with the usage of one of them, not with their sum.
\<close>

theorem aggregate_is_mean:
  "map_of (aggregateByDeployment samples) dep =
    (if dep \<in> (PodToDeployment \<circ> smPod) ` set samples
     then Some (mean (map smValue (filter (\<lambda>s. PodToDeployment (smPod s) = dep) samples))) else None)"
  by (rule map_of_aggregate)

end
