(* ===== verification/Controller.thy ===== *)
theory Controller
  imports Report
begin

text \<open>
  \<^verbatim>\<open>internal/controller/namespacebudget_controller.go\<close>: the reconciliation of a budget, cut
  along the steps its comments number. Each step is a definition; \<open>Reconcile\<close> composes them
  in the order of the code. The logger is not modelled.
\<close>

section \<open>Types\<close>

record Reconciler =
  rPrometheusClient :: MetricsClient
  rSlackWebhookURL :: string
  rCPUPricePerCoreHour :: f64
  rMemPricePerGiBHour :: f64

record Result =
  resRequeue :: bool
  resRequeueAfter :: duration

definition noResult :: Result where
  "noResult = \<lparr>resRequeue = False, resRequeueAfter = 0\<rparr>"

definition minute :: duration where
  "minute = 60000000000"

definition inAMinute :: Result where
  "inAMinute = \<lparr>resRequeue = False, resRequeueAfter = minute\<rparr>"

definition namespaceBudgetFinalizer :: string where
  "namespaceBudgetFinalizer = ''cost.platform.io/cleanup''"

definition phaseExceeded :: string where
  "phaseExceeded = ''Exceeded''"

definition phaseSuspended :: string where
  "phaseSuspended = ''Suspended''"

section \<open>Phases and conditions\<close>

definition determinePhase :: "f64 \<Rightarrow> string" where
  "determinePhase percent =
    (if i2f 120 \<le> percent then ''Suspended''
     else if i2f 100 \<le> percent then ''Exceeded''
     else if i2f 80 \<le> percent then ''Warning''
     else ''OK'')"

definition conditionStatus :: "bool \<Rightarrow> string" where
  "conditionStatus b = (if b then ''True'' else ''False'')"

fun setCondition :: "Condition list \<Rightarrow> Condition \<Rightarrow> Condition list" where
  "setCondition [] new = [new]"
| "setCondition (existing # rest) new =
    (if cType existing = cType new then
       (if cStatus existing = cStatus new
        then new\<lparr>cLastTransitionTime := cLastTransitionTime existing\<rparr> else new) # rest
     else existing # setCondition rest new)"

definition usageMessage :: "64 word \<Rightarrow> string" where
  "usageMessage percent = ''Budget usage at '' @ show_int (sint percent) @ ''%''"

text \<open>The status \<^verbatim>\<open>updateStatus\<close> writes.\<close>

definition phaseStatus ::
  "gotime \<Rightarrow> string \<Rightarrow> 64 word \<Rightarrow> NamespaceBudgetStatus \<Rightarrow> NamespaceBudgetStatus" where
  "phaseStatus now phase budgetPercent st =
    st\<lparr>stPhase := phase, stBudgetPercent := budgetPercent,
       stConditions := setCondition (setCondition (stConditions st)
         \<lparr>cType = ''UsageWarning'', cStatus = conditionStatus (80 \<le> sint budgetPercent),
          cReason = ''BudgetThresholdReached'', cMessage = usageMessage budgetPercent,
          cLastTransitionTime = now\<rparr>)
         \<lparr>cType = ''BudgetExceeded'', cStatus = conditionStatus (100 \<le> sint budgetPercent),
          cReason = ''MonthlyBudgetExceeded'', cMessage = usageMessage budgetPercent,
          cLastTransitionTime = now\<rparr>\<rparr>"

text \<open>One attempt: fetch the latest object, replace its status.\<close>

definition writeStatus ::
  "('w, 'sel) env \<Rightarrow> string \<Rightarrow> string \<Rightarrow> NamespaceBudgetStatus \<Rightarrow> ('w, kerr option) io" where
  "writeStatus E namespace name desired = do {
     r \<leftarrow> eGetBudget E namespace name;
     (case r of
        Inl e \<Rightarrow> State_Monad.return (Some e)
      | Inr latest \<Rightarrow> eUpdateBudgetStatus E (latest\<lparr>nbStatus := desired\<rparr>)) }"

text \<open>The answer, and the budget as the caller sees it afterwards.\<close>

definition updateStatus ::
  "('w, 'sel) env \<Rightarrow> 'sel NamespaceBudget \<Rightarrow> string \<Rightarrow> 64 word
     \<Rightarrow> ('w, kerr option \<times> 'sel NamespaceBudget) io" where
  "updateStatus E budget phase budgetPercent = do {
     now \<leftarrow> eNow E;
     r \<leftarrow> eRetryOnConflict E (writeStatus E (nbNamespace budget) (nbName budget)
           (phaseStatus now phase budgetPercent (nbStatus budget)));
     State_Monad.return
       (r, budget\<lparr>nbStatus := phaseStatus now phase budgetPercent (nbStatus budget)\<rparr>) }"

section \<open>Helpers\<close>

definition idleKey :: "string \<Rightarrow> string \<Rightarrow> string" where
  "idleKey namespace name = namespace @ ''/'' @ name"

definition prevIdleSince :: "IdleWorkloadStatus list \<Rightarrow> (string \<times> gotime) list" where
  "prevIdleSince previous =
    foldl (\<lambda>m p. AList.update (idleKey (iwNamespace p) (iwName p)) (iwIdleSince p) m) [] previous"

definition toIdleWorkloadStatus ::
  "IdleWorkload list \<Rightarrow> IdleWorkloadStatus list \<Rightarrow> IdleWorkloadStatus list" where
  "toIdleWorkloadStatus workloads previous =
    map (\<lambda>w. \<lparr>iwName = wlName w, iwNamespace = wlNamespace w,
          iwIdleSince =
            (case map_of (prevIdleSince previous) (idleKey (wlNamespace w) (wlName w)) of
               None \<Rightarrow> wlIdleSince w
             | Some t \<Rightarrow> if \<not> isZeroTime t then t else wlIdleSince w)\<rparr>) workloads"

definition parseDuration :: "('w, 'sel) env \<Rightarrow> string \<Rightarrow> duration result" where
  "parseDuration E s =
    (case ParseDuration s of
       None \<Rightarrow> Inl (Wrapped (''invalid duration '' @ goQuote (eQuoteRunes E) s) (Plain ''time: invalid duration''))
     | Some d \<Rightarrow> Inr d)"

definition maybeGenerateReport ::
  "('w, 'sel) env \<Rightarrow> Reconciler \<Rightarrow> 'sel NamespaceBudget \<Rightarrow> ('w, error option) io" where
  "maybeGenerateReport E r budget =
    Generate E (NewGenerator (rPrometheusClient r) (rCPUPricePerCoreHour r) (rMemPricePerGiBHour r)) budget"

text \<open>The first failure ends the cleanup.\<close>

fun cleanupLoop :: "('w, 'sel) env \<Rightarrow> string \<Rightarrow> deployment list \<Rightarrow> ('w, error option) io" where
  "cleanupLoop E namespace [] = State_Monad.return None"
| "cleanupLoop E namespace (d # ds) =
    (if \<not> IsScaledDownByOperator d then cleanupLoop E namespace ds
     else do {
       r \<leftarrow> Restore E namespace (dName d);
       (case r of
          Some e \<Rightarrow> State_Monad.return (Some (Wrapped (''restoring Deployment '' @ dName d) e))
        | None \<Rightarrow> cleanupLoop E namespace ds) })"

definition cleanup :: "('w, 'sel) env \<Rightarrow> 'sel NamespaceBudget \<Rightarrow> ('w, error option) io" where
  "cleanup E budget = do {
     r \<leftarrow> eListDeployments E (nbNamespace budget);
     (case r of
        Inl e \<Rightarrow> State_Monad.return
          (Some (wrapErr ''listing Deployments for NamespaceBudget cleanup'' e))
      | Inr items \<Rightarrow> cleanupLoop E (nbNamespace budget) items) }"

section \<open>The month\<close>

definition updAccumulated ::
  "(AccumulatedUsage \<Rightarrow> AccumulatedUsage) \<Rightarrow> 'sel NamespaceBudget \<Rightarrow> 'sel NamespaceBudget" where
  "updAccumulated f budget =
    budget\<lparr>nbStatus := nbStatus budget\<lparr>stAccumulated := f (stAccumulated (nbStatus budget))\<rparr>\<rparr>"

definition initSince :: "gotime \<Rightarrow> 'sel NamespaceBudget \<Rightarrow> 'sel NamespaceBudget" where
  "initSince now budget =
    (if acSince (stAccumulated (nbStatus budget)) = []
     then updAccumulated (\<lambda>a. a\<lparr>acSince := formatRFC3339 now\<rparr>) budget else budget)"

text \<open>Whether the accumulation belongs to an earlier month; looked at on the first of a month only.\<close>

definition monthEnded :: "gotime \<Rightarrow> string \<Rightarrow> bool" where
  "monthEnded now since =
    (dayOf now = 1 \<and> since \<noteq> [] \<and>
     (case parseRFC3339 since of
        None \<Rightarrow> False
      | Some s \<Rightarrow> monthOf s \<noteq> monthOf now \<or> yearOf s \<noteq> yearOf now))"

definition resetAccumulated :: "gotime \<Rightarrow> 'sel NamespaceBudget \<Rightarrow> 'sel NamespaceBudget" where
  "resetAccumulated now budget =
    updAccumulated (\<lambda>a. \<lparr>acCoreHours = ''0'', acGiBHours = ''0'', acSince = formatRFC3339 now\<rparr>) budget"

definition rolloverMonth ::
  "('w, 'sel) env \<Rightarrow> Reconciler \<Rightarrow> gotime \<Rightarrow> 'sel NamespaceBudget \<Rightarrow> ('w, 'sel NamespaceBudget) io"
where
  "rolloverMonth E r now budget =
    (if monthEnded now (acSince (stAccumulated (nbStatus budget))) then do {
       err \<leftarrow> maybeGenerateReport E r budget;
       State_Monad.return (case err of Some _ \<Rightarrow> budget | None \<Rightarrow> resetAccumulated now budget) }
     else State_Monad.return budget)"

section \<open>Accumulation and budget\<close>

definition elapsedHours :: "gotime \<Rightarrow> gotime \<Rightarrow> f64" where
  "elapsedHours now lastReconcile =
    hoursF (subT now (if isZeroTime lastReconcile then now else lastReconcile))"

text \<open>Step 5: this tick's consumption added to the running totals, and the displayed usage.\<close>

definition accumulate ::
  "gotime \<Rightarrow> Sample list \<Rightarrow> Sample list \<Rightarrow> NamespaceBudgetStatus \<Rightarrow> NamespaceBudgetStatus" where
  "accumulate now cpuSamples memSamples st =
    (let elapsed = elapsedHours now (stLastReconcile st);
         currentCPUCores = SumValues cpuSamples;
         currentMemGiB = SumValues memSamples / gibi;
         acc = stAccumulated st
     in st\<lparr>stAccumulated := acc
             \<lparr>acCoreHours := fmtF 6 (parseF (acCoreHours acc) + currentCPUCores * elapsed),
              acGiBHours := fmtF 6 (parseF (acGiBHours acc) + currentMemGiB * elapsed)\<rparr>,
           stLastReconcile := now,
           stCurrentUsage := \<lparr>uCpu = fmtF 6 currentCPUCores, uMemory = fmtF 6 currentMemGiB\<rparr>\<rparr>)"

text \<open>Step 6: the larger of the two shares; a budget that is not positive has no share.\<close>

definition usagePercent :: "string \<Rightarrow> string \<Rightarrow> f64" where
  "usagePercent monthly accumulated =
    (if Fin 0 < parseF monthly then parseF accumulated / parseF monthly * i2f 100 else Fin 0)"

definition budgetPercentOf :: "Usage \<Rightarrow> NamespaceBudgetStatus \<Rightarrow> f64" where
  "budgetPercentOf monthly st =
    fmax (usagePercent (uCpu monthly) (acCoreHours (stAccumulated st)))
         (usagePercent (uMemory monthly) (acGiBHours (stAccumulated st)))"

section \<open>Enforcement\<close>

text \<open>Step 7: the idle workloads that no exclusion protects.\<close>

fun filterIdle ::
  "('w, 'sel) env \<Rightarrow> 'sel Exclusion list \<Rightarrow> IdleWorkload list \<Rightarrow> ('w, IdleWorkload list) io" where
  "filterIdle E exclusions [] = State_Monad.return []"
| "filterIdle E exclusions (w # ws) =
    (if IsExcluded (wlName w) exclusions then filterIdle E exclusions ws
     else do {
       r \<leftarrow> eGetDeployment E (wlNamespace w) (wlName w);
       actionable \<leftarrow> filterIdle E exclusions ws;
       State_Monad.return (case r of
           Inl _ \<Rightarrow> actionable
         | Inr d \<Rightarrow> if IsLabelExcluded E d exclusions then actionable else w # actionable) })"

definition overBudget :: "string \<Rightarrow> bool" where
  "overBudget phase = (phase = phaseExceeded \<or> phase = phaseSuspended)"

text \<open>
  The actionable workloads and the budget with its list of idle workloads; an invalid window
  is the only error, a failed detection is not one.
\<close>

definition detectActionable ::
  "('w, 'sel) env \<Rightarrow> Reconciler \<Rightarrow> string \<Rightarrow> string \<Rightarrow> 'sel NamespaceBudget
     \<Rightarrow> ('w, (IdleWorkload list \<times> 'sel NamespaceBudget) result) io" where
  "detectActionable E r namespace phase budget =
    (if overBudget phase then
       (case parseDuration E (itWindow (sIdleThreshold (nbSpec budget))) of
          Inl e \<Rightarrow> State_Monad.return (Inl e)
        | Inr window \<Rightarrow> do {
            d \<leftarrow> DetectIdle E (rPrometheusClient r) namespace
                  (i2f (sint (itCpuPercent (sIdleThreshold (nbSpec budget))))) window;
            (case d of
               Inl _ \<Rightarrow> State_Monad.return (Inr ([], budget))
             | Inr idleWorkloads \<Rightarrow> do {
                 actionable \<leftarrow> filterIdle E (sExclusions (nbSpec budget)) idleWorkloads;
                 State_Monad.return (Inr (actionable,
                   budget\<lparr>nbStatus := nbStatus budget\<lparr>stIdleWorkloads :=
                     toIdleWorkloadStatus actionable (stIdleWorkloads (nbStatus budget))\<rparr>\<rparr>)) }) })
     else State_Monad.return (Inr ([], budget)))"

text \<open>Step 9: the names of the workloads that were scaled down.\<close>

fun scaleDownIdle :: "('w, 'sel) env \<Rightarrow> IdleWorkload list \<Rightarrow> ('w, string list) io" where
  "scaleDownIdle E [] = State_Monad.return []"
| "scaleDownIdle E (w # ws) = do {
     r \<leftarrow> ScaleDown E w;
     names \<leftarrow> scaleDownIdle E ws;
     State_Monad.return (case r of Some _ \<Rightarrow> names | None \<Rightarrow> wlName w # names) }"

text \<open>Steps 9 and 10.\<close>

definition enforce ::
  "('w, 'sel) env \<Rightarrow> string \<Rightarrow> string \<Rightarrow> 'sel Exclusion list \<Rightarrow> IdleWorkload list
     \<Rightarrow> ('w, string list) io" where
  "enforce E namespace phase exclusions actionable = do {
     affected \<leftarrow> (if overBudget phase then scaleDownIdle E actionable else State_Monad.return []);
     (if phase = phaseSuspended then do {
        r \<leftarrow> SuspendAll E namespace exclusions;
        State_Monad.return (affected @ (case r of Inl _ \<Rightarrow> [] | Inr suspendedNames \<Rightarrow> suspendedNames)) }
      else State_Monad.return affected) }"

text \<open>Step 11: one message per change of phase, if a webhook is configured.\<close>

definition notify ::
  "('w, 'sel) env \<Rightarrow> Reconciler \<Rightarrow> string \<Rightarrow> string \<Rightarrow> string \<Rightarrow> 64 word \<Rightarrow> string list
     \<Rightarrow> ('w, unit) io" where
  "notify E r namespace previousPhase phase budgetPercent affected =
    (if previousPhase \<noteq> phase \<and> rSlackWebhookURL r \<noteq> [] then do {
       _ \<leftarrow> SendSlack E (rSlackWebhookURL r) (BuildMessage namespace phase budgetPercent affected);
       State_Monad.return () }
     else State_Monad.return ())"

section \<open>The tick\<close>

definition cpuUsageQuery :: "string \<Rightarrow> string" where
  "cpuUsageQuery namespace =
    ''sum by (pod) (rate(container_cpu_usage_seconds_total{namespace=\"'' @ namespace
     @ ''\", container!=\"\"}[5m]))''"

definition memUsageQuery :: "string \<Rightarrow> string" where
  "memUsageQuery namespace =
    ''sum by (pod) (container_memory_working_set_bytes{namespace=\"'' @ namespace
     @ ''\", container!=\"\"})''"

text \<open>Steps 6 to 11, once the samples of this tick are accumulated in the budget.\<close>

definition applyPhase ::
  "('w, 'sel) env \<Rightarrow> Reconciler \<Rightarrow> string \<Rightarrow> string \<Rightarrow> 'sel NamespaceBudget
     \<Rightarrow> ('w, Result \<times> error option) io" where
  "applyPhase E r namespace previousPhase budget = do {
     let percent = budgetPercentOf (sMonthly (nbSpec budget)) (nbStatus budget);
     let phase = determinePhase percent;
     d \<leftarrow> detectActionable E r namespace phase budget;
     (case d of
        Inl e \<Rightarrow> State_Monad.return (noResult, Some e)
      | Inr (actionable, budget1) \<Rightarrow> do {
          (u, budget2) \<leftarrow> updateStatus E budget1 phase (f2i (eFloatToInt E) percent);
          (case u of
             Some e \<Rightarrow> State_Monad.return (noResult, Some (KubeErr e))
           | None \<Rightarrow> do {
               affected \<leftarrow> enforce E namespace phase (sExclusions (nbSpec budget2)) actionable;
               _ \<leftarrow> notify E r namespace previousPhase phase (stBudgetPercent (nbStatus budget2)) affected;
               State_Monad.return (inAMinute, None) }) }) }"

text \<open>Steps 4 and 5: a query that fails ends the tick without an error.\<close>

definition governTick ::
  "('w, 'sel) env \<Rightarrow> Reconciler \<Rightarrow> string \<Rightarrow> string \<Rightarrow> 'sel NamespaceBudget
     \<Rightarrow> ('w, Result \<times> error option) io" where
  "governTick E r namespace previousPhase budget = do {
     rc \<leftarrow> QueryInstant E (rPrometheusClient r) (cpuUsageQuery namespace);
     (case rc of
        Inl _ \<Rightarrow> State_Monad.return (inAMinute, None)
      | Inr cpuSamples \<Rightarrow> do {
          rm \<leftarrow> QueryInstant E (rPrometheusClient r) (memUsageQuery namespace);
          (case rm of
             Inl _ \<Rightarrow> State_Monad.return (inAMinute, None)
           | Inr memSamples \<Rightarrow> do {
               now \<leftarrow> eNow E;
               applyPhase E r namespace previousPhase
                 (budget\<lparr>nbStatus := accumulate now cpuSamples memSamples (nbStatus budget)\<rparr>) }) }) }"

text \<open>Step 2: the finalizer goes only after the cleanup succeeded.\<close>

definition handleDeletion ::
  "('w, 'sel) env \<Rightarrow> 'sel NamespaceBudget \<Rightarrow> ('w, Result \<times> error option) io" where
  "handleDeletion E budget =
    (if eContainsFinalizer E (nbFinalizers budget) namespaceBudgetFinalizer then do {
       r \<leftarrow> cleanup E budget;
       (case r of
          Some e \<Rightarrow> State_Monad.return (noResult, Some e)
        | None \<Rightarrow> do {
            u \<leftarrow> eUpdateBudget E (budget\<lparr>nbFinalizers :=
                   eRemoveFinalizer E (nbFinalizers budget) namespaceBudgetFinalizer\<rparr>);
            State_Monad.return (noResult, map_option KubeErr u) }) }
     else State_Monad.return (noResult, None))"

text \<open>Step 3.\<close>

definition registerFinalizer ::
  "('w, 'sel) env \<Rightarrow> 'sel NamespaceBudget \<Rightarrow> ('w, Result \<times> error option) io" where
  "registerFinalizer E budget = do {
     u \<leftarrow> eUpdateBudget E (budget\<lparr>nbFinalizers :=
            eAddFinalizer E (nbFinalizers budget) namespaceBudgetFinalizer\<rparr>);
     State_Monad.return (case u of
         Some e \<Rightarrow> (noResult, Some (KubeErr e))
       | None \<Rightarrow> (\<lparr>resRequeue = True, resRequeueAfter = 0\<rparr>, None)) }"

definition Reconcile ::
  "('w, 'sel) env \<Rightarrow> Reconciler \<Rightarrow> string \<Rightarrow> string \<Rightarrow> ('w, Result \<times> error option) io" where
  "Reconcile E r namespace name = do {
     g \<leftarrow> eGetBudget E namespace name;
     (case g of
        Inl e \<Rightarrow> State_Monad.return (noResult, if e = NotFound then None else Some (KubeErr e))
      | Inr fetched \<Rightarrow> do {
          now \<leftarrow> eNow E;
          budget \<leftarrow> rolloverMonth E r now (initSince now fetched);
          (if beingDeleted budget then handleDeletion E budget
           else if \<not> eContainsFinalizer E (nbFinalizers budget) namespaceBudgetFinalizer
           then registerFinalizer E budget
           else governTick E r namespace (stPhase (nbStatus budget)) budget) }) }"

end
