(* ===== verification/BudgetStatus.thy ===== *)
theory BudgetStatus
  imports Controller
begin

text \<open>
  The pure part of a reconciliation: phases against an abstract ordered type, the
  conditions, the list of idle workloads, the accumulation in decimal strings and the
  change of month.
\<close>

section \<open>Phases\<close>

datatype phase = OK | Warning | Exceeded | Suspended

fun phaseRank :: "phase \<Rightarrow> nat" where
  "phaseRank OK = 0"
| "phaseRank Warning = 1"
| "phaseRank Exceeded = 2"
| "phaseRank Suspended = 3"

fun phaseName :: "phase \<Rightarrow> string" where
  "phaseName OK = ''OK''"
| "phaseName Warning = ''Warning''"
| "phaseName Exceeded = ''Exceeded''"
| "phaseName Suspended = ''Suspended''"

instantiation phase :: linorder
begin

definition less_eq_phase :: "phase \<Rightarrow> phase \<Rightarrow> bool" where
  "less_eq_phase a b = (phaseRank a \<le> phaseRank b)"

definition less_phase :: "phase \<Rightarrow> phase \<Rightarrow> bool" where
  "less_phase a b = (phaseRank a < phaseRank b)"

instance
proof
  fix a b :: phase
  show "a \<le> b \<Longrightarrow> b \<le> a \<Longrightarrow> a = b"
    by (cases a; cases b) (simp_all add: less_eq_phase_def)
qed (auto simp: less_eq_phase_def less_phase_def)

end

text \<open>The thresholds a percentage has reached, counted: the specification of the phase.\<close>

definition phaseLevel :: "f64 \<Rightarrow> nat" where
  "phaseLevel p = length (filter (\<lambda>t. i2f t \<le> p) [80, 100, 120])"

definition phaseAt :: "f64 \<Rightarrow> phase" where
  "phaseAt p = [OK, Warning, Exceeded, Suspended] ! phaseLevel p"

lemma i2f_thresholds [simp]: "i2f 80 = Fin 80" "i2f 100 = Fin 100" "i2f 120 = Fin 120"
  by (simp_all add: i2f_exact)

lemma phaseAt_cases:
  "phaseAt p = (if Fin 120 \<le> p then Suspended else if Fin 100 \<le> p then Exceeded
     else if Fin 80 \<le> p then Warning else OK)"
proof -
  have "Fin 120 \<le> p \<Longrightarrow> Fin 100 \<le> p" and "Fin 100 \<le> p \<Longrightarrow> Fin 80 \<le> p"
    by (auto intro: fle_trans [of _ "Fin 120"] fle_trans [of _ "Fin 100"])
  then show ?thesis
    by (auto simp: phaseAt_def phaseLevel_def)
qed

lemma determinePhase_at: "determinePhase p = phaseName (phaseAt p)"
  by (simp add: determinePhase_def phaseAt_cases)

lemma phaseName_inj [simp]: "phaseName a = phaseName b \<longleftrightarrow> a = b"
  by (cases a; cases b) simp_all

lemma phaseAt_mono:
  assumes "p \<le> q"
  shows "phaseAt p \<le> phaseAt q"
proof -
  have "Fin t \<le> p \<Longrightarrow> Fin t \<le> q" for t using assms by (rule fle_trans [rotated])
  from this [of 120] this [of 100] this [of 80] show ?thesis
    by (auto simp: phaseAt_cases less_eq_phase_def)
qed

lemma overBudget_at: "overBudget (phaseName a) \<longleftrightarrow> Exceeded \<le> a"
  by (cases a) (simp_all add: overBudget_def phaseExceeded_def phaseSuspended_def less_eq_phase_def)

lemma overBudget_percent: "overBudget (determinePhase p) \<longleftrightarrow> Fin 100 \<le> p"
  by (auto simp: determinePhase_at overBudget_at phaseAt_cases less_eq_phase_def
      intro: fle_trans [of _ "Fin 120"])

section \<open>Conditions\<close>

definition condOf :: "string \<Rightarrow> Condition list \<Rightarrow> Condition option" where
  "condOf t cs = find (\<lambda>c. cType c = t) cs"

lemma condOf_setCondition:
  "condOf t (setCondition cs new) =
    (if t = cType new then Some (case condOf t cs of
        None \<Rightarrow> new
      | Some old \<Rightarrow> if cStatus old = cStatus new
          then new\<lparr>cLastTransitionTime := cLastTransitionTime old\<rparr> else new)
     else condOf t cs)"
  by (induction cs) (auto simp: condOf_def)

lemma setCondition_types:
  "map cType (setCondition cs new) =
    (if cType new \<in> cType ` set cs then map cType cs else map cType cs @ [cType new])"
  by (induction cs) auto

lemma setCondition_distinct:
  "distinct (map cType cs) \<Longrightarrow> distinct (map cType (setCondition cs new))"
  by (simp add: setCondition_types del: map_map)

text \<open>The status shown for a condition depends on the last write only.\<close>

lemma condStatus_setCondition:
  "map_option cStatus (condOf t (setCondition cs new)) =
    (if t = cType new then Some (cStatus new) else map_option cStatus (condOf t cs))"
  by (auto simp: condOf_setCondition split: option.splits)

lemma phaseStatus_conditions:
  "map_option cStatus (condOf ''UsageWarning'' (stConditions (phaseStatus now ph n st))) =
     Some (conditionStatus (80 \<le> sint n))"
  "map_option cStatus (condOf ''BudgetExceeded'' (stConditions (phaseStatus now ph n st))) =
     Some (conditionStatus (100 \<le> sint n))"
  by (simp_all add: phaseStatus_def condStatus_setCondition)

lemma f2i_floor:
  assumes "0 \<le> v" and "v < 2 ^ 63"
  shows "sint (f2i impl (Fin v)) = \<lfloor>v\<rfloor>"
proof -
  from assms have b: "0 \<le> \<lfloor>v\<rfloor>" "\<lfloor>v\<rfloor> < 2 ^ 63" by (simp_all add: floor_less_iff)
  with assms show ?thesis
    by (simp add: f2i_def rtrunc_def fits64_def sint_sbintrunc' signed_take_bit_int_eq_self)
qed

section \<open>Idle workloads\<close>

lemma prevIdleSince_append:
  "prevIdleSince (ps @ [p]) =
   AList.update (idleKey (iwNamespace p) (iwName p)) (iwIdleSince p) (prevIdleSince ps)"
  by (simp add: prevIdleSince_def)

definition statusKey :: "IdleWorkloadStatus \<Rightarrow> string" where
  "statusKey p = idleKey (iwNamespace p) (iwName p)"

definition workloadKey :: "IdleWorkload \<Rightarrow> string" where
  "workloadKey w = idleKey (wlNamespace w) (wlName w)"

lemma map_of_prevIdleSince:
  "distinct (map statusKey ps) \<Longrightarrow>
   map_of (prevIdleSince ps) k = map_of (map (\<lambda>p. (statusKey p, iwIdleSince p)) ps) k"
proof (induction ps rule: rev_induct)
  case Nil
  then show ?case by (simp add: prevIdleSince_def)
next
  case (snoc p ps)
  have "map_of (map (\<lambda>p. (statusKey p, iwIdleSince p)) ps) (statusKey p) = None"
    using snoc.prems by (auto simp: map_of_eq_None_iff)
  with snoc show ?case
    by (auto simp: prevIdleSince_append map_of_update_cases statusKey_def map_add_def
        split: option.splits)
qed

lemma prevIdleSince_mem:
  assumes "distinct (map statusKey ps)" and "p \<in> set ps"
  shows "map_of (prevIdleSince ps) (statusKey p) = Some (iwIdleSince p)"
proof -
  have "map_of (map (\<lambda>p. (statusKey p, iwIdleSince p)) ps) (statusKey p) = Some (iwIdleSince p)"
    using assms by (intro map_of_is_SomeI) (auto simp: comp_def)
  then show ?thesis by (simp add: map_of_prevIdleSince [OF assms(1)])
qed

lemma toIdle_keys: "map statusKey (toIdleWorkloadStatus ws ps) = map workloadKey ws"
  by (simp add: toIdleWorkloadStatus_def statusKey_def workloadKey_def)

text \<open>The entry of a workload, and that it is the old one where there was one.\<close>

lemma toIdle_entries:
  assumes "distinct (map statusKey ps)" and "\<forall>p \<in> set ps. \<not> isZeroTime (iwIdleSince p)"
  shows "list_all2 (\<lambda>w i. iwName i = wlName w \<and> iwNamespace i = wlNamespace w \<and>
       (\<forall>p \<in> set ps. statusKey p = workloadKey w \<longrightarrow> iwIdleSince i = iwIdleSince p) \<and>
       (workloadKey w \<notin> statusKey ` set ps \<longrightarrow> iwIdleSince i = wlIdleSince w))
     ws (toIdleWorkloadStatus ws ps)"
proof -
  let ?since = "\<lambda>w. case map_of (prevIdleSince ps) (workloadKey w) of None \<Rightarrow> wlIdleSince w
      | Some t \<Rightarrow> if \<not> isZeroTime t then t else wlIdleSince w"
  have "?since w = iwIdleSince p" if "p \<in> set ps" "statusKey p = workloadKey w" for w p
    using prevIdleSince_mem [OF assms(1) that(1)] assms(2) that by simp
  moreover have "?since w = wlIdleSince w" if "workloadKey w \<notin> statusKey ` set ps" for w
  proof -
    have "map_of (prevIdleSince ps) (workloadKey w) = None"
      using that by (auto simp: map_of_prevIdleSince [OF assms(1)] map_of_eq_None_iff)
    then show ?thesis by simp
  qed
  ultimately show ?thesis
    unfolding toIdleWorkloadStatus_def workloadKey_def [symmetric] list_all2_map2
    by (intro list.rel_refl_strong conjI ballI impI) simp_all
qed

lemma toIdle_again:
  assumes "distinct (map statusKey ps)" and "\<forall>p \<in> set ps. \<not> isZeroTime (iwIdleSince p)"
    and "mset (map (\<lambda>w. (wlName w, wlNamespace w)) ws) = mset (map (\<lambda>p. (iwName p, iwNamespace p)) ps)"
  shows "mset (toIdleWorkloadStatus ws ps) = mset ps"
proof -
  let ?w = "\<lambda>w. (wlName w, wlNamespace w)" and ?p = "\<lambda>p. (iwName p, iwNamespace p)"
  let ?e = "\<lambda>(n, s). \<lparr>iwName = n, iwNamespace = s,
      iwIdleSince = the (map_of (prevIdleSince ps) (idleKey s n))\<rparr>"
  have old: "map_of (prevIdleSince ps) (idleKey (iwNamespace p) (iwName p)) = Some (iwIdleSince p)"
    if "p \<in> set ps" for p
    using prevIdleSince_mem [OF assms(1) that] by (simp add: statusKey_def)
  have known: "\<exists>t. map_of (prevIdleSince ps) (idleKey (wlNamespace w) (wlName w)) = Some t \<and> \<not> isZeroTime t"
    if "w \<in> set ws" for w
  proof -
    have "?w w \<in> set (map ?p ps)" using that set_perm [OF assms(3)] by auto
    then obtain p where "p \<in> set ps" "wlName w = iwName p" "wlNamespace w = iwNamespace p" by auto
    with old assms(2) show ?thesis by auto
  qed
  have "toIdleWorkloadStatus ws ps = map (?e \<circ> ?w) ws"
    unfolding toIdleWorkloadStatus_def by (rule map_cong) (auto dest!: known)
  then have "mset (toIdleWorkloadStatus ws ps) = image_mset ?e (mset (map ?w ws))"
    by (simp add: image_mset.compositionality)
  also have "\<dots> = mset (map (?e \<circ> ?p) ps)"
    unfolding assms(3) by (simp add: image_mset.compositionality)
  also have "map (?e \<circ> ?p) ps = ps"
    using old by (intro map_idI) simp
  finally show ?thesis .
qed

section \<open>Accumulation\<close>

lemma Fin0_i2f: "0 \<le> n \<Longrightarrow> Fin 0 \<le> i2f n"
  unfolding i2f_def by (rule f64_of_nonneg) simp

lemma divide_pos_nonneg:
  assumes "Fin 0 \<le> x" and "0 < u"
  shows "Fin 0 \<le> x / Fin u"
  using assms by (cases x) (auto simp: divide_f64_def zeroS_def infS_def f64_of_nonneg isZeroF_iff)

lemma hoursF_measured:
  assumes "0 \<le> d"
  shows "measured (hoursF d)"
proof -
  have q: "0 \<le> d sdiv 3600000000000" and r: "0 \<le> d smod 3600000000000"
    using assms by (simp_all add: signed_divide_int_def signed_modulo_int_def sgn_if)
  have u: "i2f 3600000000000 = Fin 3600000000000" by (simp add: i2f_exact)
  have "measured (i2f (d sdiv 3600000000000))"
    using q by (simp add: measured_def Fin0_i2f) (simp add: i2f_def)
  moreover have "measured (i2f (d smod 3600000000000) / i2f 3600000000000)"
    using r by (simp add: measured_def u divide_pos_nonneg Fin0_i2f fok_divide)
  ultimately show ?thesis
    unfolding hoursF_def unitsF_def by (rule measured_plus)
qed

lemma elapsedHours_measured:
  assumes "isZeroTime prev \<or> nanos prev \<le> nanos now"
  shows "measured (elapsedHours now prev)"
  using assms unfolding elapsedHours_def
  by (intro hoursF_measured) (auto simp: subT_def clamp64_def)

text \<open>A running total as the code stores it: a decimal with six places.\<close>

definition storedTotal :: "nat \<Rightarrow> string" where
  "storedTotal k = fixed 6 k"

lemma storedTotal_reread:
  assumes "k < 10 ^ 6 * 2 ^ 32"
  shows "reread 6 (parseF (storedTotal k)) = parseF (storedTotal k)"
    and "fok (parseF (storedTotal k))" and "Fin 0 \<le> parseF (storedTotal k)"
proof -
  have p: "parseF (storedTotal k) = f64_of (of_int (int k) / 10 ^ 6)"
    by (simp add: storedTotal_def parseF_fixed)
  show "reread 6 (parseF (storedTotal k)) = parseF (storedTotal k)"
    unfolding p using assms by (intro reread_stable) simp_all
  show "fok (parseF (storedTotal k))" "Fin 0 \<le> parseF (storedTotal k)"
    unfolding p by (simp_all add: f64_of_nonneg)
qed

lemma total_grows:
  assumes "k < 10 ^ 6 * 2 ^ 32" and "fok y" and "Fin 0 \<le> y"
  shows "parseF (storedTotal k) \<le> parseF (fmtF 6 (parseF (storedTotal k) + y))"
proof -
  note t = storedTotal_reread [OF assms(1)]
  have "parseF (storedTotal k) \<le> parseF (storedTotal k) + y"
    using t(2,3) assms(2,3) by (rule plus_ge_left)
  then have "reread 6 (parseF (storedTotal k)) \<le> reread 6 (parseF (storedTotal k) + y)"
    by (rule reread_mono [OF t(3)])
  then show ?thesis
    unfolding t(1) by (simp add: reread_def)
qed

lemma parseF_NaN [simp]: "parseF ''NaN'' = NaN"
  using reread_NaN [of 6] by (simp add: reread_def)

lemma fmax_NaN: "x \<noteq> PInf \<Longrightarrow> fmax NaN x = NaN"
  by (simp add: fmax_def)

lemma determinePhase_NaN [simp]: "determinePhase NaN = ''OK''"
  by (simp add: determinePhase_def)

lemma fmax_cases:
  assumes "x \<noteq> NaN" and "y \<noteq> NaN"
  shows "(fmax x y = x \<and> y \<le> x) \<or> (fmax x y = y \<and> x \<le> y)"
  using assms fle_total [OF assms]
  by (cases x; cases y) (auto simp: fmax_def isZeroF_iff less_f64_def)

lemma phaseAt_fmax:
  assumes "x \<noteq> NaN" and "y \<noteq> NaN"
  shows "phaseAt (fmax x y) = max (phaseAt x) (phaseAt y)"
  using fmax_cases [OF assms] phaseAt_mono [of x y] phaseAt_mono [of y x]
  by (auto simp: max_def)

section \<open>Months\<close>

lemma monthEnded_formatted:
  assumes "printable t"
  shows "monthEnded now (formatRFC3339 t) \<longleftrightarrow>
    dayOf now = 1 \<and> (monthOf t \<noteq> monthOf now \<or> yearOf t \<noteq> yearOf now)"
proof -
  have "formatRFC3339 t \<noteq> []" by (simp add: formatRFC3339_def)
  then show ?thesis
    by (simp add: monthEnded_def parse_format [OF assms] monthOf_def yearOf_def dateOf_def wall_def)
qed

section \<open>Properties\<close>

text \<open>
  The phase is the number of thresholds (80, 100, 120 percent) the percentage has reached,
  read off the list OK, Warning, Exceeded, Suspended; a larger percentage never gives a
  milder phase.
\<close>

lemma phase_counts_thresholds:
  "determinePhase p =
     phaseName ([OK, Warning, Exceeded, Suspended] ! length (filter (\<lambda>t. i2f t \<le> p) [80, 100, 120]))
   \<and> (p \<le> q \<longrightarrow> (\<exists>a b. determinePhase p = phaseName a \<and> determinePhase q = phaseName b \<and> a \<le> b))"
  using phaseAt_mono [of p q] by (auto simp: determinePhase_at phaseAt_def phaseLevel_def)

theorem phase_counts_thresholds_witness:
  "Fin 79 \<le> Fin 110 \<and> (\<exists>a b. determinePhase (Fin 79) = phaseName a \<and>
     determinePhase (Fin 110) = phaseName b \<and> a \<le> b)"
proof -
  have "Fin 79 \<le> Fin 110" by simp
  with phase_counts_thresholds [of "Fin 79" "Fin 110"] show ?thesis by blast
qed

text \<open>
  C27. With two meaningful shares the phase of the budget is the worse of the phases the CPU
  share and the memory share would give alone.
\<close>

theorem phase_is_worst_dimension:
  assumes "usagePercent (uCpu monthly) (acCoreHours (stAccumulated st)) \<noteq> NaN"
    and "usagePercent (uMemory monthly) (acGiBHours (stAccumulated st)) \<noteq> NaN"
  shows "determinePhase (budgetPercentOf monthly st) =
    phaseName (max (phaseAt (usagePercent (uCpu monthly) (acCoreHours (stAccumulated st))))
                   (phaseAt (usagePercent (uMemory monthly) (acGiBHours (stAccumulated st)))))"
  unfolding budgetPercentOf_def determinePhase_at phaseAt_fmax [OF assms] ..

definition exUsed :: "string \<Rightarrow> string \<Rightarrow> NamespaceBudgetStatus" where
  "exUsed cpu mem = exStatus\<lparr>stAccumulated := \<lparr>acCoreHours = cpu, acGiBHours = mem, acSince = []\<rparr>,
     stLastReconcile := exNoon\<rparr>"

theorem phase_is_worst_dimension_witness:
  "determinePhase (budgetPercentOf \<lparr>uCpu = ''100'', uMemory = ''200''\<rparr>
     (exUsed ''90.000000'' ''250.000000'')) = phaseName (max Warning Suspended)"
proof -
  have c: "usagePercent ''100'' ''90.000000'' \<noteq> NaN \<and> phaseAt (usagePercent ''100'' ''90.000000'') = Warning"
    by code_simp
  have m: "usagePercent ''200'' ''250.000000'' \<noteq> NaN \<and> phaseAt (usagePercent ''200'' ''250.000000'') = Suspended"
    by code_simp
  show ?thesis
    using phase_is_worst_dimension [of "\<lparr>uCpu = ''100'', uMemory = ''200''\<rparr>" "exUsed ''90.000000'' ''250.000000''"]
      c m by (simp add: exUsed_def del: phaseName.simps)
qed

text \<open>
  For a percentage that fits an integer the conditions written with a phase agree with it:
  UsageWarning is true in Warning, Exceeded and Suspended, BudgetExceeded in the last two.
\<close>

lemma conditions_agree:
  assumes "0 \<le> v" and "v < 2 ^ 63"
  shows "map_option cStatus (condOf ''UsageWarning''
      (stConditions (phaseStatus now (determinePhase (Fin v)) (f2i impl (Fin v)) st))) =
      Some (if determinePhase (Fin v) = ''OK'' then ''False'' else ''True'') \<and>
    map_option cStatus (condOf ''BudgetExceeded''
      (stConditions (phaseStatus now (determinePhase (Fin v)) (f2i impl (Fin v)) st))) =
      Some (if overBudget (determinePhase (Fin v)) then ''True'' else ''False'')"
proof -
  have f: "80 \<le> \<lfloor>v\<rfloor> \<longleftrightarrow> 80 \<le> v" "100 \<le> \<lfloor>v\<rfloor> \<longleftrightarrow> 100 \<le> v" by (simp_all add: le_floor_iff)
  have "determinePhase (Fin v) = ''OK'' \<longleftrightarrow> \<not> 80 \<le> v"
    by (auto simp: determinePhase_def)
  then show ?thesis
    unfolding phaseStatus_conditions f2i_floor [OF assms]
    by (simp add: conditionStatus_def f overBudget_percent)
qed

lemma conditions_agree_witness:
  "map_option cStatus (condOf ''BudgetExceeded'' (stConditions (phaseStatus exNoon
      (determinePhase (Fin 110)) (f2i (\<lambda>_. 0) (Fin 110)) exStatus))) = Some ''True''"
proof -
  have "overBudget (determinePhase (Fin 110))" by (simp add: overBudget_percent)
  then show ?thesis
    using conditions_agree [of 110 exNoon "\<lambda>_. 0" exStatus] by simp
qed

text \<open>
  An infinite percentage is outside every integer type: where the conversion answers the
  smallest integer, the phase is Suspended while both conditions say False.
\<close>

lemma infinite_percentage_conditions:
  assumes "impl PInf = 0x8000000000000000"
  shows "determinePhase PInf = ''Suspended'' \<and>
    map_option cStatus (condOf ''UsageWarning''
      (stConditions (phaseStatus now (determinePhase PInf) (f2i impl PInf) st))) = Some ''False'' \<and>
    map_option cStatus (condOf ''BudgetExceeded''
      (stConditions (phaseStatus now (determinePhase PInf) (f2i impl PInf) st))) = Some ''False''"
proof -
  have "f2i impl PInf = 0x8000000000000000" using assms by (simp add: f2i_def)
  moreover have "sint (0x8000000000000000 :: 64 word) < 80" by simp
  ultimately show ?thesis
    by (simp add: phaseStatus_conditions conditionStatus_def determinePhase_def)
qed

theorem infinite_percentage_conditions_witness:
  "determinePhase PInf = ''Suspended'' \<and> map_option cStatus (condOf ''BudgetExceeded''
     (stConditions (phaseStatus exNoon (determinePhase PInf) (f2i (eFloatToInt memEnv) PInf) exStatus)))
     = Some ''False''"
proof -
  have "eFloatToInt memEnv PInf = 0x8000000000000000" by simp
  from infinite_percentage_conditions [where impl = "eFloatToInt memEnv", OF this, of exNoon exStatus] show ?thesis by blast
qed

text \<open>
  Setting a condition replaces the one of its type and no other, keeps the types of the
  list distinct, and moves the transition time exactly when the shown status changes.
\<close>

lemma setCondition_spec:
  "condOf t (setCondition cs new) =
    (if t = cType new then Some (case condOf t cs of
        None \<Rightarrow> new
      | Some old \<Rightarrow> if cStatus old = cStatus new
          then new\<lparr>cLastTransitionTime := cLastTransitionTime old\<rparr> else new)
     else condOf t cs) \<and>
   distinct (map cType (setCondition cs new)) = distinct (map cType cs)"
  by (simp add: condOf_setCondition setCondition_types del: map_map)

text \<open>
  C28. The time a workload has been idle since survives: from a stored list in which no
  workload occurs twice and every time is set, the new list has one entry per workload detected, in the order of the detection; a workload that was listed keeps the
  time it was listed with and a new one gets the time of this detection. Detecting the same
  workloads again, in whatever order, gives the same entries (the order of the list may
  change with that of the detection).
\<close>

theorem idle_since_kept:
  assumes "distinct (map statusKey ps)" and "\<forall>p \<in> set ps. \<not> isZeroTime (iwIdleSince p)"
  shows "list_all2 (\<lambda>w i. iwName i = wlName w \<and> iwNamespace i = wlNamespace w \<and>
       (\<forall>p \<in> set ps. statusKey p = workloadKey w \<longrightarrow> iwIdleSince i = iwIdleSince p) \<and>
       (workloadKey w \<notin> statusKey ` set ps \<longrightarrow> iwIdleSince i = wlIdleSince w))
     ws (toIdleWorkloadStatus ws ps) \<and>
    (mset (map (\<lambda>w. (wlName w, wlNamespace w)) ws) = mset (map (\<lambda>p. (iwName p, iwNamespace p)) ps) \<longrightarrow>
       mset (toIdleWorkloadStatus ws ps) = mset ps)"
  using toIdle_entries [OF assms] toIdle_again [OF assms] by blast

theorem idle_since_kept_witness:
  "\<exists>st. mset st = mset [\<lparr>iwName = ''api'', iwNamespace = ''team'', iwIdleSince = exNoon\<rparr>,
       \<lparr>iwName = ''web'', iwNamespace = ''team'', iwIdleSince = exNoon\<rparr>] \<and>
     st = toIdleWorkloadStatus [\<lparr>wlName = ''web'', wlNamespace = ''team'', wlIdleSince = zeroTime\<rparr>,
       \<lparr>wlName = ''api'', wlNamespace = ''team'', wlIdleSince = zeroTime\<rparr>]
      [\<lparr>iwName = ''api'', iwNamespace = ''team'', iwIdleSince = exNoon\<rparr>,
       \<lparr>iwName = ''web'', iwNamespace = ''team'', iwIdleSince = exNoon\<rparr>]"
proof -
  let ?ps = "[\<lparr>iwName = ''api'', iwNamespace = ''team'', iwIdleSince = exNoon\<rparr>,
       \<lparr>iwName = ''web'', iwNamespace = ''team'', iwIdleSince = exNoon\<rparr>]"
  let ?ws = "[\<lparr>wlName = ''web'', wlNamespace = ''team'', wlIdleSince = zeroTime\<rparr>,
       \<lparr>wlName = ''api'', wlNamespace = ''team'', wlIdleSince = zeroTime\<rparr>]"
  have k: "distinct (map statusKey ?ps)" by code_simp
  have z: "\<forall>p \<in> set ?ps. \<not> isZeroTime (iwIdleSince p)" by (simp add: exNoon_def isZeroTime_def)
  have "mset (map (\<lambda>w. (wlName w, wlNamespace w)) ?ws) = mset (map (\<lambda>p. (iwName p, iwNamespace p)) ?ps)"
    by simp
  with idle_since_kept [OF k z, of ?ws] have "mset (toIdleWorkloadStatus ?ws ?ps) = mset ?ps" by blast
  then show ?thesis by blast
qed

text \<open>
  Usage only grows within a month: from a total the code stored, with measurements for
  samples and a clock that did not go back, the text written for the new total reads back
  as no less than the old one, rounding to six decimals included.
\<close>

lemma accumulated_grows:
  assumes "acCoreHours (stAccumulated st) = storedTotal k" and "k < 10 ^ 6 * 2 ^ 32"
    and "list_all measured (map smValue cpu)"
    and "isZeroTime (stLastReconcile st) \<or> nanos (stLastReconcile st) \<le> nanos now"
    and "SumValues cpu * elapsedHours now (stLastReconcile st) \<noteq> NaN"
  shows "parseF (acCoreHours (stAccumulated st)) \<le>
    parseF (acCoreHours (stAccumulated (accumulate now cpu mem st)))"
proof -
  have "measured (SumValues cpu)" using assms(3) by (rule SumValues_measured)
  moreover have "measured (elapsedHours now (stLastReconcile st))"
    using assms(4) by (rule elapsedHours_measured)
  ultimately have "Fin 0 \<le> SumValues cpu * elapsedHours now (stLastReconcile st)"
    using assms(5) by (intro times_nonneg) (simp_all add: measured_def)
  from total_grows [OF assms(2) fok_times this] show ?thesis
    by (simp add: accumulate_def Let_def assms(1))
qed

lemma accumulated_grows_witness:
  "parseF ''1.500000'' \<le> parseF (acCoreHours (stAccumulated (accumulate
     \<lparr>tsec = 1768478460, tnsec = 0, tzoff = 0\<rparr>
     [\<lparr>smPod = ''api'', smTimeStamp = exNoon, smValue = Fin 2\<rparr>] [] (exUsed ''1.500000'' ''0''))))"
proof -
  have 1: "acCoreHours (stAccumulated (exUsed ''1.500000'' ''0'')) = storedTotal 1500000"
    and 2: "list_all measured (map smValue [\<lparr>smPod = ''api'', smTimeStamp = exNoon, smValue = Fin 2\<rparr>])"
    and 3: "isZeroTime (stLastReconcile (exUsed ''1.500000'' ''0'')) \<or>
      nanos (stLastReconcile (exUsed ''1.500000'' ''0'')) \<le> nanos \<lparr>tsec = 1768478460, tnsec = 0, tzoff = 0\<rparr>"
    and 4: "SumValues [\<lparr>smPod = ''api'', smTimeStamp = exNoon, smValue = Fin 2\<rparr>] *
      elapsedHours \<lparr>tsec = 1768478460, tnsec = 0, tzoff = 0\<rparr> (stLastReconcile (exUsed ''1.500000'' ''0''))
      \<noteq> NaN"
    by code_simp+
  have "acCoreHours (stAccumulated (exUsed ''1.500000'' ''0'')) = ''1.500000''" by (simp add: exUsed_def)
  with accumulated_grows [OF 1 _ 2 3 4, of "[]"] show ?thesis by simp
qed

text \<open>
  C29. No tick recovers from a NaN sample of the CPU: the stored total becomes the text NaN,
  every later tick of the month keeps it, and where the CPU budget is positive the phase is
  OK as long as it is there unless the memory share is infinite, whatever finite share the
  memory budget has. The reset at the end of
  the month writes a total of zero again.
\<close>

theorem nan_sample_disarms:
  assumes "NaN \<in> set (map smValue cpu)"
    and "st' = foldl (\<lambda>s (t, c, m). accumulate t c m s) (accumulate now cpu mem st) ticks"
    and "Fin 0 < parseF (uCpu monthly)"
    and "usagePercent (uMemory monthly) (acGiBHours (stAccumulated st')) \<noteq> PInf"
  shows "acCoreHours (stAccumulated st') = ''NaN'' \<and>
    determinePhase (budgetPercentOf monthly st') = ''OK'' \<and>
    acCoreHours (stAccumulated (nbStatus (resetAccumulated t (b\<lparr>nbStatus := st'\<rparr>)))) = ''0''"
proof -
  have step: "acCoreHours (stAccumulated (accumulate t c m s)) = ''NaN''"
    if "acCoreHours (stAccumulated s) = ''NaN'' \<or> SumValues c = NaN" for t c m s
    using that by (auto simp: accumulate_def Let_def)
  have "acCoreHours (stAccumulated (accumulate now cpu mem st)) = ''NaN''"
    using assms(1) by (intro step disjI2 SumValues_NaN)
  then have total: "acCoreHours (stAccumulated st') = ''NaN''"
    unfolding assms(2) by (induction ticks rule: rev_induct) (auto intro: step)
  with assms(3) have "usagePercent (uCpu monthly) (acCoreHours (stAccumulated st')) = NaN"
    by (simp add: usagePercent_def)
  with total fmax_NaN [OF assms(4)] show ?thesis
    by (simp add: budgetPercentOf_def resetAccumulated_def updAccumulated_def)
qed

theorem nan_sample_disarms_witness:
  "determinePhase (budgetPercentOf \<lparr>uCpu = ''100'', uMemory = []\<rparr>
     (accumulate exNoon [\<lparr>smPod = ''api'', smTimeStamp = exNoon, smValue = NaN\<rparr>] []
        (exUsed ''190.000000'' ''0''))) = ''OK''"
proof -
  let ?cpu = "[\<lparr>smPod = ''api'', smTimeStamp = exNoon, smValue = NaN\<rparr>]"
  let ?st = "accumulate exNoon ?cpu [] (exUsed ''190.000000'' ''0'')"
  let ?m = "\<lparr>uCpu = ''100'', uMemory = []\<rparr>"
  have p: "Fin 0 < parseF ''100''" "\<not> Fin 0 < parseF []" by code_simp+
  then have "usagePercent (uMemory ?m) (acGiBHours (stAccumulated ?st)) \<noteq> PInf"
    by (simp add: usagePercent_def)
  with p(1) have c: "Fin 0 < parseF (uCpu ?m)" "usagePercent (uMemory ?m) (acGiBHours (stAccumulated ?st)) \<noteq> PInf"
    by simp_all
  have "NaN \<in> set (map smValue ?cpu)" and "?st = foldl (\<lambda>s (t, c, m). accumulate t c m s) ?st []" by simp_all
  from nan_sample_disarms [OF this c] show ?thesis by blast
qed

end
