(* ===== verification/Decimals.thy ===== *)
theory Decimals
  imports BudgetStatus
begin

text \<open>
  Numbers kept in the cluster as decimal text. Every text the code writes for a float parses
  without an error; and the error of one round through the text is bounded, which bounds the
  error of a whole month of ticks.
\<close>

section \<open>The largest float\<close>

definition maxF :: rat where
  "maxF = of_int (2 ^ 53 - 1) * pow2 971"

lemma maxF_less: "maxF < pow2 1024"
proof -
  have "of_int (2 ^ 53 - 1) < pow2 53" by (simp add: pow2_def)
  then have "maxF < pow2 53 * pow2 971" unfolding maxF_def by (rule mult_strict_right_mono) simp
  then show ?thesis by (simp flip: pow2_add)
qed

lemma f64_of_maxF: "f64_of maxF = Fin maxF"
proof -
  have "rnd maxF = maxF"
    by (rule rnd_exact [of "2 ^ 53 - 1" 971]) (simp_all add: maxF_def)
  moreover have "0 < maxF" by (simp add: maxF_def)
  ultimately show ?thesis using maxF_less by (simp add: f64_of_pos_cases)
qed

lemma fok_pos:
  assumes "fok (Fin r)" and "0 < r"
  shows "rnd r = r" and "r < pow2 1024"
  using assms by (auto simp: fok_Fin f64_of_pos_cases split: if_splits)

lemma fok_le_maxF:
  assumes "fok (Fin r)" and "0 < r"
  shows "r \<le> maxF"
proof (cases "r < pow2 1023")
  case True
  have "pow2 1023 = of_int (2 ^ 52) * pow2 971" by (simp add: pow2_def flip: power_add)
  also have "\<dots> \<le> maxF" unfolding maxF_def by (rule mult_right_mono) simp_all
  finally show ?thesis using True by simp
next
  case False
  note r = fok_pos [OF assms]
  have "pow2 (flog2 r) < pow2 1024" using flog2_bounds(1) [OF assms(2)] r(2) by linarith
  moreover have "pow2 1023 < pow2 (flog2 r + 1)" using flog2_bounds(2) [OF assms(2)] False by linarith
  ultimately have "flog2 r = 1023" by (simp add: pow2_less_iff)
  then have u: "ulp_exp r = 971" by (simp add: ulp_exp_def)
  define q where "q = rhe (r / pow2 971)"
  from r(1) u have q: "r = of_int q * pow2 971" by (simp add: rnd_def rnd_at_def q_def)
  have "pow2 1024 = pow2 53 * pow2 971" by (simp flip: pow2_add)
  with r(2) q have "of_int q * pow2 971 < pow2 53 * pow2 971" by simp
  then have "of_int q < pow2 53" using mult_less_cancel_right_pos [of "pow2 971"] pow2_pos by blast
  then have "q \<le> 2 ^ 53 - 1"
    using of_int_less_iff [of q "2 ^ 53", where ?'a = rat] by (simp add: pow2_def)
  then show ?thesis
    unfolding q maxF_def by (intro mult_right_mono) (simp_all only: of_int_le_iff pow2_nonneg)
qed

section \<open>A float that was written parses\<close>

text \<open>A decimal text \<^verbatim>\<open>ParseFloat\<close> accepts.\<close>

definition decimalText :: "string \<Rightarrow> bool" where
  "decimalText s \<longleftrightarrow> snd (ParseFloat s) = None"

lemma parsed_mag_fok: "fok (fst (parsed_mag neg m))"
  by (simp add: parsed_mag_def split: option.split)

lemma parse_signed_fok: "fok (fst (parse_signed neg s))"
  by (simp add: parse_signed_def parsed_mag_fok)

lemma fok_parseF [simp]: "fok (parseF s)"
  by (cases s) (simp_all add: parseF_def parse_signed_fok)

lemma parsed_mag_some: "snd (parsed_mag neg (Some v)) = None \<longleftrightarrow> \<not> isInf (f64_of v)"
  by (simp add: parsed_mag_def)

text \<open>Printing never rounds a float up beyond the largest one.\<close>

lemma printed_finite:
  assumes "fok (Fin r)" and "0 \<le> r"
  shows "\<not> isInf (f64_of (of_nat (nat (rhe (r * 10 ^ n))) / 10 ^ n))"
proof -
  have m: "0 \<le> rhe (r * 10 ^ n)" using assms(2) by (intro rhe_nonneg) simp
  have "r \<le> maxF" using fok_le_maxF [OF assms(1)] assms(2) by (cases "r = 0") (auto simp: maxF_def)
  then have "r * 10 ^ n \<le> of_int ((2 ^ 53 - 1) * 2 ^ 971 * 10 ^ n)"
    by (simp add: maxF_def pow2_def)
  then have "rhe (r * 10 ^ n) \<le> (2 ^ 53 - 1) * 2 ^ 971 * 10 ^ n" by (rule rhe_le_of_int)
  then have "of_int (rhe (r * 10 ^ n)) \<le> (of_int ((2 ^ 53 - 1) * 2 ^ 971 * 10 ^ n) :: rat)"
    by (simp only: of_int_le_iff)
  then have "of_int (rhe (r * 10 ^ n)) / 10 ^ n \<le> maxF"
    by (simp add: maxF_def pow2_def pos_divide_le_eq)
  then have "f64_of (of_int (rhe (r * 10 ^ n)) / 10 ^ n) \<le> Fin maxF"
    using f64_of_mono f64_of_maxF by metis
  moreover have "Fin 0 \<le> f64_of (of_int (rhe (r * 10 ^ n)) / 10 ^ n)"
    using m by (intro f64_of_nonneg) simp
  ultimately show ?thesis using m by (auto simp: isInf_iff)
qed

text \<open>What \<^verbatim>\<open>%.nf\<close> writes for a float, \<^verbatim>\<open>ParseFloat\<close> accepts.\<close>

lemma decimalText_fmtF:
  assumes "fok x"
  shows "decimalText (fmtF n x)"
proof (cases x)
  case (Fin r)
  have neg: "fok (Fin (- r))" if "r < 0"
    using assms that unfolding Fin
    by (simp add: fok_Fin f64_of_neg_cases f64_of_pos_cases split: if_splits)
  show ?thesis
  proof (cases "r < 0")
    case True
    with printed_finite [OF neg, of n] show ?thesis
      by (simp add: decimalText_def Fin ParseFloat_minus parsed_mag_some del: ParseFloat.simps)
  next
    case False
    with printed_finite [of r n] assms show ?thesis
      by (simp add: decimalText_def Fin ParseFloat_fixed parsed_mag_some del: ParseFloat.simps)
  qed
next
  case NZero
  then show ?thesis
    by (simp add: decimalText_def ParseFloat_minus parsed_mag_some isInf_iff del: ParseFloat.simps)
qed (simp_all add: decimalText_def parse_signed_def lowerS_words)

text \<open>The samples of an answer are floats that were parsed.\<close>

lemma decodePoint_fok: "decodePoint E pod v = Some x \<Longrightarrow> fok (smValue x)"
proof -
  have val: "fok y" if "toFloat64 a = Inr y" for a y
  proof (cases a)
    case (JStr t)
    with that have "y = parseF t" by (auto simp: toFloat64_def parseF_def split: prod.splits option.splits)
    then show ?thesis by simp
  qed (use that in \<open>simp_all add: toFloat64_def\<close>)
  assume "decodePoint E pod v = Some x"
  then show ?thesis by (auto simp: decodePoint_def split: if_splits sum.splits dest: val)
qed

lemma decodeSeries_fok: "x \<in> set (decodeSeries E r) \<Longrightarrow> fok (smValue x)"
  by (auto simp: decodeSeries_def Let_def set_map_filter dest: decodePoint_fok decodePoint_fok [OF sym]
      split: option.splits)

lemma QueryInstant_fok:
  assumes "run_state (QueryInstant E c q) w = (Inr xs, w')"
  shows "\<forall>x \<in> set xs. fok (smValue x)"
  using assms
  by (auto simp: QueryInstant_def doRequest_def decodeAnswer_def Let_def dest: decodeSeries_fok
      split: prod.splits sum.splits option.splits if_splits)

lemma sumFrom_fok: "fok z \<Longrightarrow> \<forall>v \<in> set vs. fok v \<Longrightarrow> fok (sumFrom z vs)"
  by (induction vs arbitrary: z) (auto simp: fok_plus)

lemma SumValues_fok: "\<forall>x \<in> set xs. fok (smValue x) \<Longrightarrow> fok (SumValues xs)"
  by (simp add: SumValues_def sumFrom_fok)

section \<open>A typed status\<close>

text \<open>
  The status of a budget keeps numbers, an instant and names as text. It is typed when each
  of them is empty or parses, and full when none is empty.
\<close>

definition statusTexts :: "NamespaceBudgetStatus \<Rightarrow> string list" where
  "statusTexts st = [acCoreHours (stAccumulated st), acGiBHours (stAccumulated st),
     uCpu (stCurrentUsage st), uMemory (stCurrentUsage st)]"

definition phaseNames :: "string list" where
  "phaseNames = map phaseName [OK, Warning, Exceeded, Suspended]"

definition conditionsTyped :: "Condition list \<Rightarrow> bool" where
  "conditionsTyped cs \<longleftrightarrow> (\<forall>c \<in> set cs. cStatus c = ''True'' \<or> cStatus c = ''False'')"

definition statusTyped :: "NamespaceBudgetStatus \<Rightarrow> bool" where
  "statusTyped st \<longleftrightarrow> (\<forall>t \<in> set (statusTexts st). t = [] \<or> decimalText t) \<and>
     (acSince (stAccumulated st) = [] \<or> parseRFC3339 (acSince (stAccumulated st)) \<noteq> None) \<and>
     (stPhase st = [] \<or> stPhase st \<in> set phaseNames) \<and> conditionsTyped (stConditions st)"

definition statusFull :: "NamespaceBudgetStatus \<Rightarrow> bool" where
  "statusFull st \<longleftrightarrow> (\<forall>t \<in> set (statusTexts st). decimalText t) \<and>
     parseRFC3339 (acSince (stAccumulated st)) \<noteq> None \<and> stPhase st \<in> set phaseNames \<and>
     conditionsTyped (stConditions st)"

lemma statusFull_typed: "statusFull st \<Longrightarrow> statusTyped st"
  by (simp add: statusFull_def statusTyped_def)

lemma determinePhase_named: "determinePhase p \<in> set phaseNames"
  by (simp add: determinePhase_def phaseNames_def)

lemma phaseName_named: "s \<in> set phaseNames \<Longrightarrow> \<exists>a. s = phaseName a"
  by (auto simp: phaseNames_def intro: exI [of _ OK] exI [of _ Warning] exI [of _ Exceeded] exI [of _ Suspended]
      simp del: phaseName.simps)

lemma conditionsTyped_set:
  "conditionsTyped cs \<Longrightarrow> cStatus new = conditionStatus b \<Longrightarrow> conditionsTyped (setCondition cs new)"
  by (induction cs) (auto simp: conditionsTyped_def conditionStatus_def)

lemma phaseStatus_fields [simp]:
  "statusTexts (phaseStatus now ph n st) = statusTexts st"
  "stAccumulated (phaseStatus now ph n st) = stAccumulated st"
  "stPhase (phaseStatus now ph n st) = ph"
  by (simp_all add: phaseStatus_def statusTexts_def)

lemma conditionsTyped_phaseStatus:
  "conditionsTyped (stConditions st) \<Longrightarrow> conditionsTyped (stConditions (phaseStatus now ph n st))"
  unfolding phaseStatus_def
  by (simp del: setCondition.simps) (intro conditionsTyped_set; simp?; rule refl)

lemma statusFull_wire: "statusFull (wireStatus st) \<longleftrightarrow> statusFull st"
  by (auto simp: statusFull_def statusTexts_def conditionsTyped_def wireStatus_def)

text \<open>A tick fills the status, whatever it was measured.\<close>

lemma accumulate_texts:
  assumes "\<forall>x \<in> set cs. fok (smValue x)" and "\<forall>x \<in> set ms. fok (smValue x)"
  shows "\<forall>t \<in> set (statusTexts (accumulate now cs ms st)). decimalText t"
  using SumValues_fok [OF assms(1)]
  by (auto simp: accumulate_def Let_def statusTexts_def
      intro!: decimalText_fmtF fok_plus fok_times fok_divide)

lemma tick_full:
  assumes "statusTyped st" and "parseRFC3339 (acSince (stAccumulated st)) \<noteq> None"
    and "\<forall>x \<in> set cs. fok (smValue x)" and "\<forall>x \<in> set ms. fok (smValue x)"
  shows "statusFull (wireStatus (phaseStatus now (determinePhase p) n
    ((accumulate t cs ms st)\<lparr>stIdleWorkloads := is\<rparr>)))"
proof -
  have "statusTexts ((accumulate t cs ms st)\<lparr>stIdleWorkloads := is\<rparr>) = statusTexts (accumulate t cs ms st)"
    by (simp add: statusTexts_def)
  moreover have "acSince (stAccumulated (accumulate t cs ms st)) = acSince (stAccumulated st)"
    and "stConditions (accumulate t cs ms st) = stConditions st"
    by (simp_all add: accumulate_def Let_def)
  ultimately show ?thesis
    unfolding statusFull_wire using accumulate_texts [OF assms(3,4), of t st] assms(1,2)
    by (simp add: statusFull_def statusTyped_def determinePhase_named conditionsTyped_phaseStatus)
qed

text \<open>The start of an accumulation is an instant that parses, where the clock can be printed.\<close>

lemma printable_parses: "printable now \<Longrightarrow> parseRFC3339 (formatRFC3339 now) \<noteq> None"
  by (simp add: parse_format)

lemma decimalText_zero: "decimalText ''0''"
  by code_simp

lemma initSince_typed:
  assumes "statusTyped (nbStatus b)" and "printable now"
  shows "statusTyped (nbStatus (initSince now b))"
    and "parseRFC3339 (acSince (stAccumulated (nbStatus (initSince now b)))) \<noteq> None"
  using assms printable_parses [OF assms(2)]
  by (auto simp: initSince_def updAccumulated_def statusTyped_def statusTexts_def)

lemma resetAccumulated_typed:
  assumes "statusTyped (nbStatus b)" and "printable now"
  shows "statusTyped (nbStatus (resetAccumulated now b))"
    and "parseRFC3339 (acSince (stAccumulated (nbStatus (resetAccumulated now b)))) \<noteq> None"
  using assms printable_parses [OF assms(2)] decimalText_zero
  by (auto simp: resetAccumulated_def updAccumulated_def statusTyped_def statusTexts_def)

end
