(* ===== verification/ReconcileSteps.thy ===== *)
theory ReconcileSteps
  imports Decimals
begin

text \<open>
  The paths of a reconciliation: the effect of each step on Deployments, budgets, reports and
  messages, and the case rules (\<open>applyPhase_steps\<close>, \<open>governTick_steps\<close>,
  \<open>Reconcile_steps\<close>) the proofs about \<open>Reconcile\<close> go through.
\<close>

section \<open>Frames\<close>

lemma keeps_mono: "keeps R m \<Longrightarrow> (\<And>w w'. R w w' \<Longrightarrow> S w w') \<Longrightarrow> keeps S m"
  by (simp add: keeps_def)

lemma keeps_if: "(b \<Longrightarrow> keeps R m) \<Longrightarrow> (\<not> b \<Longrightarrow> keeps R n) \<Longrightarrow> keeps R (if b then m else n)"
  by simp

lemma keeps_sum:
  "(\<And>a. x = Inl a \<Longrightarrow> keeps R (f a)) \<Longrightarrow> (\<And>a. x = Inr a \<Longrightarrow> keeps R (g a)) \<Longrightarrow>
   keeps R (case x of Inl a \<Rightarrow> f a | Inr a \<Rightarrow> g a)"
  by (cases x) simp_all

lemma keeps_option:
  "keeps R n \<Longrightarrow> (\<And>a. keeps R (g a)) \<Longrightarrow> keeps R (case x of None \<Rightarrow> n | Some a \<Rightarrow> g a)"
  by (cases x) simp_all

lemma keeps_prod: "(\<And>a b. keeps R (f a b)) \<Longrightarrow> keeps R (case x of (a, b) \<Rightarrow> f a b)"
  by (cases x) simp_all

text \<open>The relations below are preorders of the form \<open>same view\<close> or \<open>depsSafe\<close>.\<close>

lemma transp_conj: "transp R \<Longrightarrow> transp S \<Longrightarrow> transp (\<lambda>w w'. R w w' \<and> S w w')"
  unfolding transp_def by blast

lemma reflp_conj: "reflp R \<Longrightarrow> reflp S \<Longrightarrow> reflp (\<lambda>w w'. R w w' \<and> S w w')"
  unfolding reflp_def by blast

lemmas view_rules = transp_conj reflp_conj transp_view reflp_view

context cluster
begin

lemma Generate_effect:
  "keeps (\<lambda>w w'. deps w' = deps w \<and> buds w' = buds w \<and> slack w' = slack w) (Generate E g b)"
  by (rule keepsI) (drule Generate_outcome, blast)

lemma rollover_effect:
  "keeps (\<lambda>w w'. deps w' = deps w \<and> buds w' = buds w \<and> slack w' = slack w) (rolloverMonth E r now b)"
  unfolding rolloverMonth_def maybeGenerateReport_def
  by (intro keeps_if keeps_bind keeps_return Generate_effect view_rules)

lemma writeStatus_quiet: "keeps (\<lambda>w w'. deps w' = deps w \<and> reps w' = reps w \<and> slack w' = slack w)
    (writeStatus E ns n st)"
proof -
  have "keeps (\<lambda>w w'. deps w' = deps w \<and> reps w' = reps w \<and> slack w' = slack w) (eGetBudget E ns n)"
    by (rule keeps_mono [OF budget_same]) (simp add: same_def)
  then show ?thesis
    unfolding writeStatus_def
    by (intro keeps_bind keeps_return keeps_sum status_frame view_rules)
qed

lemma retry_keeps:
  assumes "transp R" and "reflp R" and "keeps R f"
  shows "keeps R (eRetryOnConflict E f)"
proof (rule keepsI)
  fix w r w' assume "run_state (eRetryOnConflict E f) w = (r, w')"
  moreover obtain n where "run_state (eRetryOnConflict E f) w = run_state (retryN n f) w"
    using retry by blast
  ultimately have "run_state (retryN n f) w = (r, w')" by simp
  with keeps_retryN [OF assms] show "R w w'" by (rule keepsD)
qed

lemma updateStatus_effect:
  "keeps (\<lambda>w w'. deps w' = deps w \<and> reps w' = reps w \<and> slack w' = slack w) (updateStatus E b ph n)"
proof -
  have "keeps (\<lambda>w w'. deps w' = deps w \<and> reps w' = reps w \<and> slack w' = slack w) (eNow E)"
    by (rule keeps_mono [OF now_same]) (simp add: same_def)
  then show ?thesis
    unfolding updateStatus_def
    by (intro keeps_bind keeps_return retry_keeps writeStatus_quiet view_rules)
qed

text \<open>A status update that succeeded stored the status, and nothing else of the budget.\<close>

lemma writeStatus_ok:
  assumes "run_state (writeStatus E ns n st) w = (None, w')"
  shows "\<exists>s v. buds w (ns, n) = Some s \<and>
    buds w' = (buds w)((ns, n) \<mapsto> s\<lparr>nbStatus := wireStatus st, nbResourceVersion := v\<rparr>)"
proof -
  obtain x w1 where get: "run_state (eGetBudget E ns n) w = (x, w1)"
    by (cases "run_state (eGetBudget E ns n) w") auto
  from keepsD [OF budget_same get] have w1: "buds w1 = buds w" by (simp add: same_def)
  show ?thesis
  proof (cases x)
    case (Inl e)
    with assms get show ?thesis by (simp add: writeStatus_def)
  next
    case (Inr s)
    from budget_ok [OF get [unfolded Inr]] have s: "buds w (ns, n) = Some s" .
    from budget_key [OF this] have k: "nbNamespace s = ns" "nbName s = n" by auto
    from assms get Inr have "run_state (eUpdateBudgetStatus E (s\<lparr>nbStatus := st\<rparr>)) w1 = (None, w')"
      by (simp add: writeStatus_def)
    from status_ok [OF this] k s w1 show ?thesis by (auto simp: statusUpdated_def)
  qed
qed

text \<open>An attempt that meets a conflict may still have written; the spec stays in any case.\<close>

lemma retry_ok:
  assumes "run_state (retryN m f) w = (None, w')"
  shows "\<exists>w1. run_state f w1 = (None, w')"
  using assms
proof (induction m arbitrary: w)
  case (Suc m)
  obtain r w1 where f: "run_state f w = (r, w1)" by (cases "run_state f w") auto
  show ?case
  proof (cases "r = Some Conflict")
    case True
    with Suc f show ?thesis by simp
  next
    case False
    with Suc.prems f show ?thesis by auto
  qed
qed auto

lemma updateStatus_ok:
  assumes "run_state (updateStatus E b ph n) w = ((None, b'), w')"
  shows "\<exists>now s. b' = b\<lparr>nbStatus := phaseStatus now ph n (nbStatus b)\<rparr> \<and>
    buds w' (nbNamespace b, nbName b) = Some s \<and>
    nbStatus s = wireStatus (phaseStatus now ph n (nbStatus b))"
proof -
  obtain now w1 where now: "run_state (eNow E) w = (now, w1)" by (cases "run_state (eNow E) w") auto
  let ?st = "phaseStatus now ph n (nbStatus b)"
  let ?f = "writeStatus E (nbNamespace b) (nbName b) ?st"
  obtain u w2 where u: "run_state (eRetryOnConflict E ?f) w1 = (u, w2)"
    by (cases "run_state (eRetryOnConflict E ?f) w1") auto
  with assms now have e: "u = None" "w2 = w'" "b' = b\<lparr>nbStatus := ?st\<rparr>"
    by (auto simp: updateStatus_def)
  obtain m where "run_state (eRetryOnConflict E ?f) w1 = run_state (retryN m ?f) w1"
    using retry by blast
  with u e have "run_state (retryN m ?f) w1 = (None, w')" by simp
  from retry_ok [OF this] obtain w3 where "run_state ?f w3 = (None, w')" by blast
  from writeStatus_ok [OF this] e(3) show ?thesis by (intro exI [of _ now]) auto
qed

end

section \<open>Detection and enforcement\<close>

lemma overBudget_phases: "overBudget ''Exceeded''" "overBudget ''Suspended''"
  by (simp_all add: overBudget_def phaseExceeded_def phaseSuspended_def)

lemma suspended_over: "phase = phaseSuspended \<Longrightarrow> overBudget phase"
  by (simp add: overBudget_def)

context cluster
begin

lemma filterIdle_same: "keeps same (filterIdle E exs ws)"
  by (induction ws) (auto intro!: same_intros)

lemma filterIdle_result:
  assumes "run_state (filterIdle E exs ws) w = (acts, w')"
  shows "set acts \<subseteq> {wl \<in> set ws. \<not> IsExcluded (wlName wl) exs \<and>
    (\<exists>d. deps w (wlNamespace wl, wlName wl) = Some d \<and> \<not> IsLabelExcluded E d exs)}"
  using assms
proof (induction ws arbitrary: w acts w')
  case (Cons wl ws)
  show ?case
  proof (cases "IsExcluded (wlName wl) exs")
    case True
    with Cons.prems have "run_state (filterIdle E exs ws) w = (acts, w')" by simp
    from Cons.IH [OF this] show ?thesis by auto
  next
    case False
    obtain r w1 acts1 w2 where
      r: "run_state (eGetDeployment E (wlNamespace wl) (wlName wl)) w = (r, w1)" and
      rest: "run_state (filterIdle E exs ws) w1 = (acts1, w2)" and
      acts: "acts = (case r of Inl _ \<Rightarrow> acts1
        | Inr d \<Rightarrow> if IsLabelExcluded E d exs then acts1 else wl # acts1)"
      using Cons.prems False by (auto split: prod.splits)
    from keepsD [OF get_same r] have d: "deps w1 = deps w" by (simp add: same_def)
    have "r = Inr x \<Longrightarrow> deps w (wlNamespace wl, wlName wl) = Some x" for x
      using get_ok r by auto
    with Cons.IH [OF rest] False d acts show ?thesis
      by (cases r) (auto split: if_splits)
  qed
qed simp

lemma detectActionable_same: "keeps same (detectActionable E r ns ph b)"
  unfolding detectActionable_def
  by (intro keeps_if keeps_sum same_intros DetectIdle_same filterIdle_same)

text \<open>
  Actionable are only workloads of the namespace that no exclusion protects; the budget
  changes in its list of idle workloads at most; below the threshold nothing is looked at.
\<close>

lemma detectActionable_result:
  assumes "run_state (detectActionable E r ns ph b) w = (Inr (acts, b'), w')"
  shows "(\<not> overBudget ph \<longrightarrow> acts = []) \<and>
    (\<exists>is. b' = b\<lparr>nbStatus := nbStatus b\<lparr>stIdleWorkloads := is\<rparr>\<rparr> \<and>
      (\<not> overBudget ph \<longrightarrow> is = stIdleWorkloads (nbStatus b))) \<and>
    set acts \<subseteq> {wl. \<not> IsExcluded (wlName wl) (sExclusions (nbSpec b)) \<and>
      (\<exists>d. deps w (wlNamespace wl, wlName wl) = Some d \<and> \<not> IsLabelExcluded E d (sExclusions (nbSpec b)))}"
proof (cases "overBudget ph")
  case False
  with assms show ?thesis
    by (auto simp: detectActionable_def intro!: exI [of _ "stIdleWorkloads (nbStatus b)"])
next
  case True
  show ?thesis
  proof (cases "parseDuration E (itWindow (sIdleThreshold (nbSpec b)))")
    case (Inl e)
    with assms True show ?thesis by (simp add: detectActionable_def)
  next
    case (Inr win)
    let ?det = "DetectIdle E (rPrometheusClient r) ns (i2f (sint (itCpuPercent (sIdleThreshold (nbSpec b))))) win"
    obtain x w1 where det: "run_state ?det w = (x, w1)" by (cases "run_state ?det w") auto
    from keepsD [OF DetectIdle_same det] have w1: "deps w1 = deps w" by (simp add: same_def)
    show ?thesis
    proof (cases x)
      case (Inl e)
      with assms True Inr det have "acts = []" "b' = b" by (auto simp: detectActionable_def)
      with True show ?thesis by (auto intro!: exI [of _ "stIdleWorkloads (nbStatus b)"])
    next
      case (Inr ws)
      obtain acts' w2 where f: "run_state (filterIdle E (sExclusions (nbSpec b)) ws) w1 = (acts', w2)"
        by (cases "run_state (filterIdle E (sExclusions (nbSpec b)) ws) w1") auto
      from assms True \<open>parseDuration E _ = Inr win\<close> det Inr f
      have "acts = acts'" "b' = b\<lparr>nbStatus := nbStatus b\<lparr>stIdleWorkloads :=
          toIdleWorkloadStatus acts' (stIdleWorkloads (nbStatus b))\<rparr>\<rparr>"
        by (auto simp: detectActionable_def)
      with filterIdle_result [OF f] w1 True show ?thesis by auto
    qed
  qed
qed

end

context deployment_api
begin

lemma scaleDownIdle_safe: "keeps (\<lambda>w w'. depsSafe (deps w) (deps w')) (scaleDownIdle E wls)"
  by (induction wls)
     (auto intro!: keeps_bind keeps_return transp_depsSafe reflp_depsSafe ScaleDown_safe)

lemma scaleDownIdle_frame:
  assumes "run_state (scaleDownIdle E wls) w = (ns, w')"
    and "k \<notin> (\<lambda>wl. (wlNamespace wl, wlName wl)) ` set wls"
  shows "deps w' k = deps w k"
  using assms
proof (induction wls arbitrary: w ns)
  case (Cons wl wls)
  obtain r w1 ns1 where 1: "run_state (ScaleDown E wl) w = (r, w1)"
    and 2: "run_state (scaleDownIdle E wls) w1 = (ns1, w')"
    using Cons.prems(1) by (auto split: prod.splits)
  from Cons.IH [OF 2] Cons.prems(2) ScaleDown_frame [OF 1] show ?case by auto
qed simp

lemma enforce_safe: "keeps (\<lambda>w w'. depsSafe (deps w) (deps w')) (enforce E ns ph exs acts)"
  unfolding enforce_def
  by (intro keeps_bind keeps_if keeps_return transp_depsSafe reflp_depsSafe scaleDownIdle_safe suspend_safe)

lemma enforce_idle:
  "\<not> overBudget ph \<Longrightarrow> run_state (enforce E ns ph exs acts) w = ([], w)"
  using suspended_over by (auto simp: enforce_def)

text \<open>Enforcement leaves every excluded Deployment exactly as it was.\<close>

lemma enforce_excluded:
  assumes "run_state (enforce E ns ph exs acts) w = (names, w')" and "deps w k = Some d"
    and "IsExcluded (dName d) exs \<or> IsLabelExcluded E d exs"
    and "\<And>wl. wl \<in> set acts \<Longrightarrow> \<not> IsExcluded (wlName wl) exs \<and>
      (\<forall>d. deps w (wlNamespace wl, wlName wl) = Some d \<longrightarrow> \<not> IsLabelExcluded E d exs)"
  shows "deps w' k = Some d"
proof -
  from stored_key [OF assms(2)] have k: "k = (dNamespace d, dName d)" by (simp add: dkey_def)
  have out: "k \<notin> (\<lambda>wl. (wlNamespace wl, wlName wl)) ` set acts"
  proof
    assume "k \<in> (\<lambda>wl. (wlNamespace wl, wlName wl)) ` set acts"
    then obtain wl where "wl \<in> set acts" "k = (wlNamespace wl, wlName wl)" by auto
    with assms(2,3) assms(4) [of wl] k show False by auto
  qed
  let ?m1 = "if overBudget ph then scaleDownIdle E acts else State_Monad.return []"
  obtain a w1 where 1: "run_state ?m1 w = (a, w1)" by (cases "run_state ?m1 w") auto
  have d1: "deps w1 k = Some d"
    using 1 assms(2) scaleDownIdle_frame [OF _ out] by (auto split: if_splits)
  show ?thesis
  proof (cases "ph = phaseSuspended")
    case False
    with assms(1) 1 d1 show ?thesis by (auto simp: enforce_def)
  next
    case True
    obtain x w2 where 2: "run_state (SuspendAll E ns exs) w1 = (x, w2)"
      by (cases "run_state (SuspendAll E ns exs) w1") auto
    from assms(1) 1 2 True have "w' = w2" by (auto simp: enforce_def)
    with suspend_frame [OF 2 d1] assms(3) show ?thesis by (auto simp: suspendSkips_def)
  qed
qed

end

context cluster
begin

text \<open>Nothing that acts on Deployments touches budgets, reports or messages.\<close>

lemma others_rules:
  "transp (\<lambda>w w'. buds w' = buds w \<and> reps w' = reps w \<and> slack w' = slack w)"
  "reflp (\<lambda>w w'. buds w' = buds w \<and> reps w' = reps w \<and> slack w' = slack w)"
  by (auto simp: transp_def reflp_def)

lemma same_others:
  "keeps same m \<Longrightarrow> keeps (\<lambda>w w'. buds w' = buds w \<and> reps w' = reps w \<and> slack w' = slack w) m"
  by (erule keeps_mono) (simp add: same_def)

lemmas others_intros = keeps_bind [OF others_rules(1)] keeps_return [OF others_rules(2)]
  same_others [OF get_same] same_others [OF list_same] same_others [OF now_same] patch_same
  keeps_if keeps_sum keeps_option

lemma ScaleDown_others:
  "keeps (\<lambda>w w'. buds w' = buds w \<and> reps w' = reps w \<and> slack w' = slack w) (ScaleDown E wl)"
  unfolding ScaleDown_def by (intro others_intros)

lemma Restore_others:
  "keeps (\<lambda>w w'. buds w' = buds w \<and> reps w' = reps w \<and> slack w' = slack w) (Restore E ns n)"
  unfolding Restore_def by (intro others_intros)

lemma suspendLoop_others:
  "keeps (\<lambda>w w'. buds w' = buds w \<and> reps w' = reps w \<and> slack w' = slack w) (suspendLoop E exs ds)"
  by (induction ds) (auto intro!: others_intros ScaleDown_others)

lemma SuspendAll_others:
  "keeps (\<lambda>w w'. buds w' = buds w \<and> reps w' = reps w \<and> slack w' = slack w) (SuspendAll E ns exs)"
  unfolding SuspendAll_def by (intro others_intros suspendLoop_others)

lemma scaleDownIdle_others:
  "keeps (\<lambda>w w'. buds w' = buds w \<and> reps w' = reps w \<and> slack w' = slack w) (scaleDownIdle E wls)"
  by (induction wls) (auto intro!: others_intros ScaleDown_others)

lemma enforce_others:
  "keeps (\<lambda>w w'. buds w' = buds w \<and> reps w' = reps w \<and> slack w' = slack w) (enforce E ns ph exs acts)"
  unfolding enforce_def by (intro others_intros scaleDownIdle_others SuspendAll_others)

lemma cleanupLoop_others:
  "keeps (\<lambda>w w'. buds w' = buds w \<and> reps w' = reps w \<and> slack w' = slack w) (cleanupLoop E ns ds)"
  by (induction ds) (auto intro!: others_intros Restore_others)

lemma cleanup_others:
  "keeps (\<lambda>w w'. buds w' = buds w \<and> reps w' = reps w \<and> slack w' = slack w) (cleanup E b)"
  unfolding cleanup_def by (intro others_intros cleanupLoop_others)

lemma notify_effect:
  assumes "run_state (notify E r ns prev ph n names) w = (u, w')"
  shows "deps w' = deps w \<and> buds w' = buds w \<and> reps w' = reps w \<and>
    (slack w' = slack w \<or> prev \<noteq> ph \<and> rSlackWebhookURL r \<noteq> [] \<and>
       slack w' = slack w @ [BuildMessage ns ph n names])"
proof (cases "prev \<noteq> ph \<and> rSlackWebhookURL r \<noteq> []")
  case False
  with assms show ?thesis by (auto simp: notify_def)
next
  case True
  let ?m = "BuildMessage ns ph n names"
  obtain z w1 where p: "run_state (eSlackPost E (rSlackWebhookURL r) ?m) w = (z, w1)"
    by (cases "run_state (eSlackPost E (rSlackWebhookURL r) ?m) w") auto
  from assms True p have "w' = w1" by (auto simp: notify_def SendSlack_def)
  with keepsD [OF slack_frame p] slack_log [OF p] True show ?thesis by auto
qed

end

section \<open>The tick\<close>

context cluster
begin

text \<open>
  One pass over steps 6 to 11: the window does not parse, the status is not stored, or the
  status is stored, and then come the enforcement and at most one message.
\<close>

lemma applyPhase_cases:
  fixes b :: "'sel NamespaceBudget"
  assumes "run_state (applyPhase E r ns prev b) w = ((res, err), w')"
  defines "p \<equiv> budgetPercentOf (sMonthly (nbSpec b)) (nbStatus b)"
  obtains (invalid) e where "err = Some e" and "same w w'"
  | (unstored) acts b1 b2 w1 e where "err = Some (KubeErr e)" and "same w w1"
      and "run_state (detectActionable E r ns (determinePhase p) b) w = (Inr (acts, b1), w1)"
      and "run_state (updateStatus E b1 (determinePhase p) (f2i (eFloatToInt E) p)) w1 = ((Some e, b2), w')"
  | (stepped) acts b1 b2 w1 w2 names w3 where "err = None" and "res = inAMinute" and "same w w1"
      and "run_state (detectActionable E r ns (determinePhase p) b) w = (Inr (acts, b1), w1)"
      and "run_state (updateStatus E b1 (determinePhase p) (f2i (eFloatToInt E) p)) w1 = ((None, b2), w2)"
      and "run_state (enforce E ns (determinePhase p) (sExclusions (nbSpec b)) acts) w2 = (names, w3)"
      and "run_state (notify E r ns prev (determinePhase p) (f2i (eFloatToInt E) p) names) w3 = ((), w')"
proof -
  let ?ph = "determinePhase p" and ?n = "f2i (eFloatToInt E) p"
  note run = assms(1) [unfolded applyPhase_def Let_def, folded p_def]
  obtain d w1 where det: "run_state (detectActionable E r ns ?ph b) w = (d, w1)"
    by (cases "run_state (detectActionable E r ns ?ph b) w") auto
  from keepsD [OF detectActionable_same det] have s1: "same w w1" .
  show ?thesis
  proof (cases d)
    case (Inl e)
    with run det s1 show ?thesis by (intro invalid [of e]) simp_all
  next
    case (Inr ab)
    obtain acts b1 where d: "d = Inr (acts, b1)" using Inr by (cases ab) auto
    obtain u b2 w2 where upd: "run_state (updateStatus E b1 ?ph ?n) w1 = ((u, b2), w2)"
      by (cases "run_state (updateStatus E b1 ?ph ?n) w1") auto
    show ?thesis
    proof (cases u)
      case (Some e)
      with run det d upd s1 show ?thesis by (intro unstored [of e w1 acts b1 b2]) simp_all
    next
      case None
      from detectActionable_result [OF det [unfolded d]] updateStatus_ok [OF upd [unfolded None]]
      have b2: "nbSpec b2 = nbSpec b" "stBudgetPercent (nbStatus b2) = ?n" by (auto simp: phaseStatus_def)
      let ?enf = "enforce E ns ?ph (sExclusions (nbSpec b)) acts"
      obtain names w3 where enf: "run_state ?enf w2 = (names, w3)" by (cases "run_state ?enf w2") auto
      obtain w4 where ntf: "run_state (notify E r ns prev ?ph ?n names) w3 = ((), w4)"
        by (cases "run_state (notify E r ns prev ?ph ?n names) w3") auto
      from run det d upd None b2 enf ntf s1
      show ?thesis by (intro stepped [of w1 acts b1 b2 w2 names w3]) simp_all
    qed
  qed
qed

text \<open>The same, by what it left of the Deployments, the reports and the messages.\<close>

lemma applyPhase_steps:
  fixes b :: "'sel NamespaceBudget"
  assumes "run_state (applyPhase E r ns prev b) w = ((res, err), w')"
  defines "p \<equiv> budgetPercentOf (sMonthly (nbSpec b)) (nbStatus b)"
  obtains (failed) e where "err = Some e" and "deps w' = deps w" and "slack w' = slack w"
      and "reps w' = reps w"
  | (stepped) acts b1 b2 w1 w2 names w3 where "err = None" and "res = inAMinute"
      and "run_state (detectActionable E r ns (determinePhase p) b) w = (Inr (acts, b1), w1)"
      and "run_state (updateStatus E b1 (determinePhase p) (f2i (eFloatToInt E) p)) w1 = ((None, b2), w2)"
      and "run_state (enforce E ns (determinePhase p) (sExclusions (nbSpec b)) acts) w2 = (names, w3)"
      and "run_state (notify E r ns prev (determinePhase p) (f2i (eFloatToInt E) p) names) w3 = ((), w')"
      and "deps w2 = deps w" and "reps w2 = reps w" and "slack w2 = slack w"
  using assms(1)
proof (cases rule: applyPhase_cases)
  case (invalid e)
  then show ?thesis by (intro failed) (simp_all add: same_def)
next
  case (unstored acts b1 b2 w1 e)
  from keepsD [OF updateStatus_effect unstored(4)] unstored(1,2) show ?thesis
    by (intro failed) (simp_all add: same_def)
next
  case (stepped acts b1 b2 w1 w2 names w3)
  from keepsD [OF updateStatus_effect stepped(5)] stepped(3)
  have "deps w2 = deps w" "reps w2 = reps w" "slack w2 = slack w" by (simp_all add: same_def)
  with stepped show ?thesis by (intro that(2) [of acts b1 w1 b2 w2 names w3]) (simp_all add: p_def)
qed

lemma applyPhase_safe: "keeps (\<lambda>w w'. depsSafe (deps w) (deps w')) (applyPhase E r ns prev b)"
proof (rule keepsI)
  fix w x w' assume "run_state (applyPhase E r ns prev b) w = (x, w')"
  then have "run_state (applyPhase E r ns prev b) w = ((fst x, snd x), w')" by simp
  then show "depsSafe (deps w) (deps w')"
  proof (cases rule: applyPhase_steps)
    case (stepped acts b1 b2 w1 w2 names w3)
    from keepsD [OF enforce_safe stepped(5)] notify_effect [OF stepped(6)] stepped(7) show ?thesis by simp
  qed simp
qed

lemma applyPhase_within:
  assumes "run_state (applyPhase E r ns prev b) w = ((res, err), w')"
    and "\<not> Fin 100 \<le> budgetPercentOf (sMonthly (nbSpec b)) (nbStatus b)"
  shows "deps w' = deps w"
  using assms(1)
proof (cases rule: applyPhase_steps)
  case (stepped acts b1 b2 w1 w2 names w3)
  with assms(2) enforce_idle have "w3 = w2" by (metis overBudget_percent prod.inject)
  with notify_effect [OF stepped(6)] stepped(7) show ?thesis by simp
qed simp

lemma applyPhase_excluded:
  assumes "run_state (applyPhase E r ns prev b) w = ((res, err), w')" and "deps w k = Some d"
    and "IsExcluded (dName d) (sExclusions (nbSpec b)) \<or> IsLabelExcluded E d (sExclusions (nbSpec b))"
  shows "deps w' k = Some d"
  using assms(1)
proof (cases rule: applyPhase_steps)
  case (failed e)
  with assms(2) show ?thesis by simp
next
  case (stepped acts b1 b2 w1 w2 names w3)
  have "deps w3 k = Some d"
  proof (rule enforce_excluded [OF stepped(5) _ assms(3)])
    show "deps w2 k = Some d" using stepped(7) assms(2) by simp
    show "\<not> IsExcluded (wlName wl) (sExclusions (nbSpec b)) \<and>
      (\<forall>d. deps w2 (wlNamespace wl, wlName wl) = Some d \<longrightarrow> \<not> IsLabelExcluded E d (sExclusions (nbSpec b)))"
      if "wl \<in> set acts" for wl
      using detectActionable_result [OF stepped(3)] that stepped(7) by auto
  qed
  with notify_effect [OF stepped(6)] show ?thesis by simp
qed

lemma applyPhase_slack:
  assumes "run_state (applyPhase E r ns prev b) w = ((res, err), w')"
  shows "slack w' = slack w \<or>
    (prev \<noteq> determinePhase (budgetPercentOf (sMonthly (nbSpec b)) (nbStatus b)) \<and>
     rSlackWebhookURL r \<noteq> [] \<and> err = None \<and>
     (\<exists>n names. slack w' = slack w @ [BuildMessage ns
        (determinePhase (budgetPercentOf (sMonthly (nbSpec b)) (nbStatus b))) n names]))"
  using assms
proof (cases rule: applyPhase_steps)
  case (stepped acts b1 b2 w1 w2 names w3)
  from keepsD [OF enforce_others stepped(5)] stepped(9) have "slack w3 = slack w" by simp
  with notify_effect [OF stepped(6)] stepped(1) show ?thesis by auto
qed simp

text \<open>A tick that ends well has stored its phase, its totals and its conditions.\<close>

lemma applyPhase_stored:
  assumes "run_state (applyPhase E r ns prev b) w = ((res, None), w')"
  defines "p \<equiv> budgetPercentOf (sMonthly (nbSpec b)) (nbStatus b)"
  shows "\<exists>s now is. buds w' (nbNamespace b, nbName b) = Some s \<and>
    nbStatus s = wireStatus (phaseStatus now (determinePhase p) (f2i (eFloatToInt E) p)
      ((nbStatus b)\<lparr>stIdleWorkloads := is\<rparr>)) \<and>
    (\<not> overBudget (determinePhase p) \<longrightarrow> is = stIdleWorkloads (nbStatus b))"
  using assms(1)
proof (cases rule: applyPhase_steps)
  case (stepped acts b1 b2 w1 w2 names w3)
  from detectActionable_result [OF stepped(3)] obtain "is" where
    b1: "b1 = b\<lparr>nbStatus := nbStatus b\<lparr>stIdleWorkloads := is\<rparr>\<rparr>"
    and idle: "\<not> overBudget (determinePhase p) \<longrightarrow> is = stIdleWorkloads (nbStatus b)"
    unfolding p_def by blast
  from updateStatus_ok [OF stepped(4)] obtain now s where
    s: "buds w2 (nbNamespace b, nbName b) = Some s"
      "nbStatus s = wireStatus (phaseStatus now (determinePhase p) (f2i (eFloatToInt E) p)
        ((nbStatus b)\<lparr>stIdleWorkloads := is\<rparr>))"
    by (auto simp: b1 p_def)
  from keepsD [OF enforce_others stepped(5)] notify_effect [OF stepped(6)] have "buds w' = buds w2" by simp
  with s idle show ?thesis by auto
qed simp

end

section \<open>The whole reconciliation\<close>

context cluster
begin

lemmas QueryInstant_same = QueryInstant_keeps [OF transp_same reflp_same prom_same]

lemma governTick_steps:
  assumes "run_state (governTick E r ns prev b) w = ((res, err), w')"
  obtains (quiet) "err = None" and "res = inAMinute" and "same w w'"
  | (applied) now cs ms w1 where "same w w1"
      and "run_state (applyPhase E r ns prev (b\<lparr>nbStatus := accumulate now cs ms (nbStatus b)\<rparr>)) w1
        = ((res, err), w')"
      and "\<forall>x \<in> set cs. fok (smValue x)" and "\<forall>x \<in> set ms. fok (smValue x)"
proof -
  obtain rc w1 where c: "run_state (QueryInstant E (rPrometheusClient r) (cpuUsageQuery ns)) w = (rc, w1)"
    by (cases "run_state (QueryInstant E (rPrometheusClient r) (cpuUsageQuery ns)) w") auto
  from keepsD [OF QueryInstant_same c] have s1: "same w w1" .
  show ?thesis
  proof (cases rc)
    case (Inl e)
    with assms c s1 show ?thesis by (intro quiet) (auto simp: governTick_def)
  next
    case (Inr cs)
    obtain rm w2 where m: "run_state (QueryInstant E (rPrometheusClient r) (memUsageQuery ns)) w1 = (rm, w2)"
      by (cases "run_state (QueryInstant E (rPrometheusClient r) (memUsageQuery ns)) w1") auto
    from keepsD [OF QueryInstant_same m] s1 have s2: "same w w2" by (simp add: same_def)
    show ?thesis
    proof (cases rm)
      case (Inl e)
      with assms c Inr m s2 show ?thesis by (intro quiet) (auto simp: governTick_def)
    next
      case (Inr ms)
      obtain now w3 where now: "run_state (eNow E) w2 = (now, w3)" by (cases "run_state (eNow E) w2") auto
      from keepsD [OF now_same now] s2 have s3: "same w w3" by (simp add: same_def)
      with assms c \<open>rc = Inr cs\<close> m Inr now show ?thesis
        using QueryInstant_fok [OF c [unfolded \<open>rc = Inr cs\<close>]] QueryInstant_fok [OF m [unfolded Inr]]
        by (intro applied [of w3 now cs ms]) (simp_all add: governTick_def)
    qed
  qed
qed

text \<open>
  The month roll-over changes the accumulated usage of the budget at hand and nothing else
  of it, and only after the report of the month that ended exists.
\<close>

lemma rollover_result:
  assumes "run_state (rolloverMonth E r now b) w = (b', w')"
  shows "b' = b \<or> (monthEnded now (acSince (stAccumulated (nbStatus b))) \<and> b' = resetAccumulated now b \<and>
    (\<exists>t w1. run_state (eNow E) w = (t, w1) \<and> reps w' (reportKey (nbNamespace b) t) \<noteq> None))"
proof (cases "monthEnded now (acSince (stAccumulated (nbStatus b)))")
  case False
  with assms show ?thesis by (auto simp: rolloverMonth_def)
next
  case True
  let ?g = "NewGenerator (rPrometheusClient r) (rCPUPricePerCoreHour r) (rMemPricePerGiBHour r)"
  obtain e w1 where g: "run_state (Generate E ?g b) w = (e, w1)" by (cases "run_state (Generate E ?g b) w") auto
  with assms True have b': "b' = (case e of Some _ \<Rightarrow> b | None \<Rightarrow> resetAccumulated now b)" and "w' = w1"
    by (auto simp: rolloverMonth_def maybeGenerateReport_def)
  show ?thesis
  proof (cases e)
    case None
    with Generate_outcome [OF g] \<open>w' = w1\<close> b' True show ?thesis by auto
  next
    case (Some x)
    with b' show ?thesis by simp
  qed
qed

lemma Reconcile_steps:
  assumes "run_state (Reconcile E r ns n) w = ((res, err), w')"
  obtains (unread) "same w w'" and "res = noResult"
      and "err \<noteq> None \<or> buds w (ns, n) = None"
      and "\<nexists>b. fst (run_state (eGetBudget E ns n) w) = Inr b"
  | (read) b b1 now w0 w1 where "buds w (ns, n) = Some b" and "nbNamespace b = ns" and "nbName b = n"
      and "same w w0" and "deps w1 = deps w" and "buds w1 = buds w" and "slack w1 = slack w"
      and "run_state (rolloverMonth E r now (initSince now b)) w0 = (b1, w1)"
      and "\<exists>a. b1 = b\<lparr>nbStatus := nbStatus b\<lparr>stAccumulated := a\<rparr>\<rparr>"
      and "run_state (if beingDeleted b then handleDeletion E b1
          else if \<not> eContainsFinalizer E (nbFinalizers b) namespaceBudgetFinalizer
          then registerFinalizer E b1 else governTick E r ns (stPhase (nbStatus b)) b1) w1 = ((res, err), w')"
      and "now = fst (run_state (eNow E) (snd (run_state (eGetBudget E ns n) w)))"
proof -
  obtain x wa where get: "run_state (eGetBudget E ns n) w = (x, wa)"
    by (cases "run_state (eGetBudget E ns n) w") auto
  from keepsD [OF budget_same get] have sa: "same w wa" .
  show ?thesis
  proof (cases x)
    case (Inl e)
    from budget_missing [of ns n w wa] get Inl assms
    have "err \<noteq> None \<or> buds w (ns, n) = None" by (auto simp: Reconcile_def split: if_splits)
    with assms get sa Inl show ?thesis by (intro unread) (auto simp: Reconcile_def)
  next
    case (Inr b)
    from budget_ok [OF get [unfolded Inr]] have b: "buds w (ns, n) = Some b" .
    from budget_key [OF b] have k: "nbNamespace b = ns" "nbName b = n" by auto
    obtain now w0 where now: "run_state (eNow E) wa = (now, w0)" by (cases "run_state (eNow E) wa") auto
    from keepsD [OF now_same now] sa have s0: "same w w0" by (simp add: same_def)
    obtain b1 w1 where roll: "run_state (rolloverMonth E r now (initSince now b)) w0 = (b1, w1)"
      by (cases "run_state (rolloverMonth E r now (initSince now b)) w0") auto
    from keepsD [OF rollover_effect roll] s0
    have f: "deps w1 = deps w" "buds w1 = buds w" "slack w1 = slack w" by (simp_all add: same_def)
    have "\<exists>a. initSince now b = b\<lparr>nbStatus := nbStatus b\<lparr>stAccumulated := a\<rparr>\<rparr>"
      by (auto simp: initSince_def updAccumulated_def
          intro: exI [of _ "stAccumulated (nbStatus b)"])
    with rollover_result [OF roll]
    have a: "\<exists>a. b1 = b\<lparr>nbStatus := nbStatus b\<lparr>stAccumulated := a\<rparr>\<rparr>"
      by (auto simp: resetAccumulated_def updAccumulated_def)
    then have same_b: "beingDeleted b1 = beingDeleted b" "nbFinalizers b1 = nbFinalizers b"
      "stPhase (nbStatus b1) = stPhase (nbStatus b)" by (auto simp: beingDeleted_def)
    from assms get Inr now roll
    have run: "run_state (if beingDeleted b1 then handleDeletion E b1
          else if \<not> eContainsFinalizer E (nbFinalizers b1) namespaceBudgetFinalizer
          then registerFinalizer E b1 else governTick E r ns (stPhase (nbStatus b1)) b1) w1 = ((res, err), w')"
      by (simp add: Reconcile_def)
    show ?thesis
      by (rule read [OF b k s0 f roll a run [unfolded same_b]]) (simp add: get now)
  qed
qed

end

end
