(* ===== verification/Governance.thy ===== *)
theory Governance
  imports ReconcileSteps
begin

text \<open>
  What a whole reconciliation does to the cluster: deletion, a budget that lives, the
  invariant of the stored budgets, and which way a Deployment can move.
\<close>

section \<open>Deletion\<close>

lemma depsSafe_at:
  assumes "depsSafe m m'" and "m k = Some d"
  obtains d' where "m' k = Some d'" and "sameIntent d d'"
proof -
  from assms(1) have "rel_option sameIntent (m k) (m' k)" unfolding depsSafe_def by (rule spec)
  with assms(2) that show ?thesis by (cases "m' k") auto
qed

context deployment_api
begin

lemma cleanupLoop_safe: "keeps (\<lambda>w w'. depsSafe (deps w) (deps w')) (cleanupLoop E ns ds)"
  by (induction ds)
     (auto intro!: keeps_bind keeps_return keeps_option transp_depsSafe reflp_depsSafe Restore_safe)

lemma cleanup_safe: "keeps (\<lambda>w w'. depsSafe (deps w) (deps w')) (cleanup E b)"
  unfolding cleanup_def
  by (intro keeps_bind keeps_sum keeps_return transp_depsSafe reflp_depsSafe cleanupLoop_safe
      keeps_mono [OF list_frame]) simp

text \<open>A loop that answers no error has restored every Deployment of its list.\<close>

lemma cleanupLoop_done:
  assumes "run_state (cleanupLoop E ns ds) w = (None, w')" and "distinct (map dName ds)"
    and "\<And>d. d \<in> set ds \<Longrightarrow> deps w (ns, dName d) = Some d"
  shows "(\<forall>d \<in> set ds. \<exists>d'. deps w' (ns, dName d) = Some d' \<and> \<not> IsScaledDownByOperator d') \<and>
    (\<forall>k. k \<notin> Pair ns ` dName ` set ds \<longrightarrow> deps w' k = deps w k)"
  using assms
proof (induction ds arbitrary: w)
  case (Cons d ds)
  have dist: "distinct (map dName ds)" and out: "(ns, dName d) \<notin> Pair ns ` dName ` set ds"
    using Cons.prems(2) by auto
  show ?case
  proof (cases "IsScaledDownByOperator d")
    case False
    with Cons.prems(1) have "run_state (cleanupLoop E ns ds) w = (None, w')" by simp
    from Cons.IH [OF this dist] Cons.prems(3) out False show ?thesis by auto
  next
    case True
    obtain e w1 where 1: "run_state (Restore E ns (dName d)) w = (e, w1)"
      by (cases "run_state (Restore E ns (dName d)) w") auto
    with Cons.prems(1) True have "e = None" and 2: "run_state (cleanupLoop E ns ds) w1 = (None, w')"
      by (cases e; simp)+
    from up.act_done [OF 1 [unfolded \<open>e = None\<close>]]
    obtain d' where d': "deps w1 (ns, dName d) = Some d'" "\<not> IsScaledDownByOperator d'" by blast
    have "deps w1 (ns, dName x) = Some x" if x: "x \<in> set ds" for x
    proof -
      from x Cons.prems(2) have "(ns, dName x) \<noteq> (ns, dName d)" by (auto simp: image_iff)
      from Restore_frame [OF 1 this] Cons.prems(3) [of x] x show ?thesis by simp
    qed
    from Cons.IH [OF 2 dist this] d' out Restore_frame [OF 1] show ?thesis by auto
  qed
qed simp

lemma cleanup_done:
  assumes "run_state (cleanup E b) w = (None, w')" and "deps w' (nbNamespace b, m) = Some d"
  shows "\<not> IsScaledDownByOperator d"
proof -
  let ?ns = "nbNamespace b"
  obtain x w1 where list: "run_state (eListDeployments E ?ns) w = (x, w1)"
    by (cases "run_state (eListDeployments E ?ns) w") auto
  with assms(1) obtain ds where x: "x = Inr ds" and loop: "run_state (cleanupLoop E ?ns ds) w1 = (None, w')"
    by (cases x) (auto simp: cleanup_def)
  from keepsD [OF list_frame list] have w1: "deps w1 = deps w" .
  from list_ok [OF list [unfolded x]]
  have ds: "set ds = {d. \<exists>n. deps w (?ns, n) = Some d}" and "distinct (map dName ds)" by auto
  moreover have stored: "deps w1 (?ns, dName y) = Some y" if "y \<in> set ds" for y
    using that ds w1 stored_ns by auto
  ultimately have res: "\<forall>d \<in> set ds. \<exists>d'. deps w' (?ns, dName d) = Some d' \<and> \<not> IsScaledDownByOperator d'"
    and rest: "\<forall>k. k \<notin> Pair ?ns ` dName ` set ds \<longrightarrow> deps w' k = deps w k"
    using cleanupLoop_done [OF loop] w1 by auto
  show ?thesis
  proof (cases "m \<in> dName ` set ds")
    case True
    with res assms(2) show ?thesis by auto
  next
    case False
    then have "(?ns, m) \<notin> Pair ?ns ` dName ` set ds" by blast
    with rest assms(2) have "deps w (?ns, m) = Some d" by metis
    with ds stored_ns False show ?thesis by force
  qed
qed

text \<open>A marked Deployment without a usable record makes the cleanup fail.\<close>

lemma cleanup_stuck:
  assumes "run_state (cleanup E b) w = (c, w')" and "deps w (nbNamespace b, m) = Some d"
    and "IsScaledDownByOperator d" and "intended d = None"
  shows "c \<noteq> None"
proof
  assume "c = None"
  with assms(1) have run: "run_state (cleanup E b) w = (None, w')" by simp
  from keepsD [OF cleanup_safe run] assms(2)
  obtain d' where d': "deps w' (nbNamespace b, m) = Some d'" and i: "sameIntent d d'"
    by (auto elim: depsSafe_at)
  from cleanup_done [OF run d'] have "intended d' \<noteq> None" by (simp add: intended_def IsScaledDown_annOf)
  with i assms(4) show False by (simp add: sameIntent_def)
qed

end

context reliable_api
begin

text \<open>With an API server that is up and usable records the cleanup succeeds.\<close>

lemma cleanupLoop_up:
  assumes "distinct (map dName ds)"
    and "\<And>d. d \<in> set ds \<Longrightarrow> deps w (ns, dName d) = Some d"
    and "\<And>d. d \<in> set ds \<Longrightarrow> IsScaledDownByOperator d \<Longrightarrow> intended d \<noteq> None"
  shows "fst (run_state (cleanupLoop E ns ds) w) = None"
  using assms
proof (induction ds arbitrary: w)
  case (Cons d ds)
  have IH: "fst (run_state (cleanupLoop E ns ds) v) = None"
    if "\<And>x. x \<in> set ds \<Longrightarrow> deps v (ns, dName x) = Some x" for v
    using Cons.IH [of v] Cons.prems(1,3) that by auto
  show ?case
  proof (cases "IsScaledDownByOperator d")
    case False
    with IH [of w] Cons.prems(2) show ?thesis by simp
  next
    case True
    obtain e w1 where 1: "run_state (Restore E ns (dName d)) w = (e, w1)"
      by (cases "run_state (Restore E ns (dName d)) w") auto
    from restore_up [of w ns "dName d" d] Cons.prems(2,3) True 1 have "e = None" by simp
    have "deps w1 (ns, dName x) = Some x" if x: "x \<in> set ds" for x
    proof -
      from x Cons.prems(1) have "(ns, dName x) \<noteq> (ns, dName d)" by (auto simp: image_iff)
      from Restore_frame [OF 1 this] Cons.prems(2) [of x] x show ?thesis by simp
    qed
    from IH [OF this] 1 \<open>e = None\<close> True show ?thesis by simp
  qed
qed simp

lemma cleanup_up:
  assumes "\<And>m d. deps w (nbNamespace b, m) = Some d \<Longrightarrow> IsScaledDownByOperator d \<Longrightarrow> intended d \<noteq> None"
  shows "fst (run_state (cleanup E b) w) = None"
proof -
  let ?ns = "nbNamespace b"
  obtain ds w1 where list: "run_state (eListDeployments E ?ns) w = (Inr ds, w1)"
    using list_up [of ?ns w] by (cases "run_state (eListDeployments E ?ns) w") auto
  from keepsD [OF list_frame list] list_ok [OF list] stored_ns
  have "deps w1 = deps w" "set ds = {d. \<exists>n. deps w (?ns, n) = Some d}" "distinct (map dName ds)"
    "\<And>d. d \<in> set ds \<Longrightarrow> deps w (?ns, dName d) = Some d" by auto
  with cleanupLoop_up [of ds w1 ?ns] assms list show ?thesis by (auto simp: cleanup_def)
qed

end

context cluster
begin

text \<open>
  Step 2 of the reconciliation: without the finalizer nothing happens; otherwise the budget
  is written only once every Deployment of its namespace is unmarked.
\<close>

lemma handleDeletion_result:
  assumes "run_state (handleDeletion E b) w = ((res, err), w')"
    and "eContainsFinalizer E (nbFinalizers b) namespaceBudgetFinalizer"
  obtains (stuck) e where "err = Some e" and "buds w' = buds w"
      and "fst (run_state (cleanup E b) w) = Some e"
  | (cleaned) u w1 where "fst (run_state (cleanup E b) w) = None"
      and "\<And>m d. deps w' (nbNamespace b, m) = Some d \<Longrightarrow> \<not> IsScaledDownByOperator d"
      and "buds w1 = buds w" and "err = map_option KubeErr u"
      and "run_state (eUpdateBudget E (b\<lparr>nbFinalizers :=
             eRemoveFinalizer E (nbFinalizers b) namespaceBudgetFinalizer\<rparr>)) w1 = (u, w')"
proof -
  obtain c w1 where c: "run_state (cleanup E b) w = (c, w1)" by (cases "run_state (cleanup E b) w") auto
  from keepsD [OF cleanup_others c] have w1: "buds w1 = buds w" by simp
  show ?thesis
  proof (cases c)
    case (Some e)
    with assms c w1 show ?thesis by (intro stuck [of e]) (auto simp: handleDeletion_def)
  next
    case None
    let ?b = "b\<lparr>nbFinalizers := eRemoveFinalizer E (nbFinalizers b) namespaceBudgetFinalizer\<rparr>"
    obtain u w2 where u: "run_state (eUpdateBudget E ?b) w1 = (u, w2)"
      by (cases "run_state (eUpdateBudget E ?b) w1") auto
    from assms c None u have e: "err = map_option KubeErr u" "w2 = w'" by (auto simp: handleDeletion_def)
    from keepsD [OF update_frame u] e have d: "deps w' = deps w1" by simp
    from cleanup_done [OF c [unfolded None]] d c None w1 u e show ?thesis
      by (intro cleaned [of w1 u]) auto
  qed
qed

lemma handleDeletion_safe: "keeps (\<lambda>w w'. depsSafe (deps w) (deps w')) (handleDeletion E b)"
  unfolding handleDeletion_def
  by (intro keeps_if keeps_bind keeps_option keeps_return transp_depsSafe reflp_depsSafe cleanup_safe
      keeps_mono [OF update_frame]) simp

lemma registerFinalizer_effect:
  "keeps (\<lambda>w w'. deps w' = deps w \<and> reps w' = reps w \<and> slack w' = slack w) (registerFinalizer E b)"
  unfolding registerFinalizer_def by (intro keeps_bind keeps_return update_frame view_rules)

lemma governTick_safe: "keeps (\<lambda>w w'. depsSafe (deps w) (deps w')) (governTick E r ns prev b)"
proof (rule keepsI)
  fix w x w' assume "run_state (governTick E r ns prev b) w = (x, w')"
  then have "run_state (governTick E r ns prev b) w = ((fst x, snd x), w')" by simp
  then show "depsSafe (deps w) (deps w')"
  proof (cases rule: governTick_steps)
    case (applied now cs ms w1)
    from keepsD [OF applyPhase_safe applied(2)] applied(1) show ?thesis by (simp add: same_def)
  qed (simp add: same_def)
qed

lemma Reconcile_safe: "keeps (\<lambda>w w'. depsSafe (deps w) (deps w')) (Reconcile E r ns n)"
proof (rule keepsI)
  fix w x w' assume "run_state (Reconcile E r ns n) w = (x, w')"
  then have "run_state (Reconcile E r ns n) w = ((fst x, snd x), w')" by simp
  then show "depsSafe (deps w) (deps w')"
  proof (cases rule: Reconcile_steps)
    case (read b b1 now w0 w1)
    have "keeps (\<lambda>w w'. depsSafe (deps w) (deps w')) (if beingDeleted b then handleDeletion E b1
          else if \<not> eContainsFinalizer E (nbFinalizers b) namespaceBudgetFinalizer
          then registerFinalizer E b1 else governTick E r ns (stPhase (nbStatus b)) b1)"
      by (intro keeps_if handleDeletion_safe governTick_safe keeps_mono [OF registerFinalizer_effect]) simp
    from keepsD [OF this read(10)] read(5) show ?thesis by simp
  qed (simp add: same_def)
qed

end

section \<open>A budget that is not being deleted\<close>

lemma stored_phase [simp]:
  "stPhase (wireStatus (phaseStatus now ph n st)) = ph"
  "stBudgetPercent (wireStatus (phaseStatus now ph n st)) = n"
  "stAccumulated (wireStatus (phaseStatus now ph n st)) = stAccumulated st"
  by (simp_all add: wireStatus_def phaseStatus_def)

context cluster
begin

lemma Reconcile_live:
  assumes "run_state (Reconcile E r ns n) w = ((res, err), w')"
    and "buds w (ns, n) = Some b" and "\<not> beingDeleted b"
  obtains (idle) "deps w' = deps w" and "slack w' = slack w"
  | (governed) b1 w1 where "deps w1 = deps w" and "buds w1 = buds w" and "slack w1 = slack w"
      and "nbSpec b1 = nbSpec b" and "nbNamespace b1 = ns" and "nbName b1 = n"
      and "run_state (applyPhase E r ns (stPhase (nbStatus b)) b1) w1 = ((res, err), w')"
  using assms(1)
proof (cases rule: Reconcile_steps)
  case unread
  then show ?thesis by (intro idle) (simp_all add: same_def)
next
  case (read c b1 now w0 w1)
  from read(1) assms(2) have [simp]: "c = b" by simp
  show ?thesis
  proof (cases "eContainsFinalizer E (nbFinalizers b) namespaceBudgetFinalizer")
    case False
    with read(10) assms(3) have "run_state (registerFinalizer E b1) w1 = ((res, err), w')" by simp
    from keepsD [OF registerFinalizer_effect this] read(5,7) show ?thesis by (intro idle) simp_all
  next
    case True
    with read(10) assms(3)
    have "run_state (governTick E r ns (stPhase (nbStatus b)) b1) w1 = ((res, err), w')" by simp
    then show ?thesis
    proof (cases rule: governTick_steps)
      case quiet
      with read(5,7) show ?thesis by (intro idle) (simp_all add: same_def)
    next
      case (applied t cs ms w2)
      have "deps w2 = deps w" "buds w2 = buds w" "slack w2 = slack w"
        using applied(1) read(5-7) by (simp_all add: same_def)
      moreover from read(9) have "nbSpec b1 = nbSpec b" "nbNamespace b1 = ns" "nbName b1 = n"
        using read(2,3) by auto
      ultimately show ?thesis using applied(2) by (intro governed [of w2 "b1\<lparr>nbStatus := accumulate t cs ms (nbStatus b1)\<rparr>"]) simp_all
    qed
  qed
qed

lemma Reconcile_excluded:
  assumes "run_state (Reconcile E r ns n) w = ((res, err), w')"
    and "buds w (ns, n) = Some b" and "\<not> beingDeleted b" and "deps w k = Some d"
    and "IsExcluded (dName d) (sExclusions (nbSpec b)) \<or> IsLabelExcluded E d (sExclusions (nbSpec b))"
  shows "deps w' k = Some d"
  using assms(1-3)
proof (cases rule: Reconcile_live)
  case (governed b1 w1)
  then show ?thesis using applyPhase_excluded [OF governed(7), of k d] assms(4,5) by simp
qed (simp add: assms(4))

lemma Reconcile_enforced:
  assumes "run_state (Reconcile E r ns n) w = ((res, err), w')"
    and "buds w (ns, n) = Some b" and "\<not> beingDeleted b" and "deps w' \<noteq> deps w"
  shows "err = None \<and> (\<exists>s. buds w' (ns, n) = Some s \<and> overBudget (stPhase (nbStatus s)) \<and>
    Fin 100 \<le> budgetPercentOf (sMonthly (nbSpec b)) (nbStatus s))"
  using assms(1-3)
proof (cases rule: Reconcile_live)
  case idle
  with assms(4) show ?thesis by simp
next
  case (governed b1 w1)
  let ?p = "budgetPercentOf (sMonthly (nbSpec b1)) (nbStatus b1)"
  have p: "Fin 100 \<le> ?p"
    using applyPhase_within [OF governed(7)] governed(1) assms(4) by auto
  have err: "err = None"
    using governed(7)
  proof (cases rule: applyPhase_steps)
    case (failed e)
    with governed(1) assms(4) show ?thesis by simp
  qed
  from applyPhase_stored [OF governed(7) [unfolded err]] governed(5,6) obtain s now "is" where
    s: "buds w' (ns, n) = Some s" "nbStatus s = wireStatus (phaseStatus now (determinePhase ?p)
      (f2i (eFloatToInt E) ?p) ((nbStatus b1)\<lparr>stIdleWorkloads := is\<rparr>))"
    by auto
  have "budgetPercentOf (sMonthly (nbSpec b)) (nbStatus s) = ?p"
    using s governed(4) by (simp add: budgetPercentOf_def)
  with s p overBudget_percent err show ?thesis by auto
qed

lemma Reconcile_slack:
  assumes "run_state (Reconcile E r ns n) w = ((res, err), w')"
    and "buds w (ns, n) = Some b" and "\<not> beingDeleted b" and "slack w' \<noteq> slack w"
  shows "rSlackWebhookURL r \<noteq> [] \<and> err = None \<and>
    (\<exists>s names. buds w' (ns, n) = Some s \<and> stPhase (nbStatus s) \<noteq> stPhase (nbStatus b) \<and>
      slack w' = slack w @ [BuildMessage ns (stPhase (nbStatus s)) (stBudgetPercent (nbStatus s)) names])"
  using assms(1-3)
proof (cases rule: Reconcile_live)
  case idle
  with assms(4) show ?thesis by simp
next
  case (governed b1 w1)
  let ?p = "budgetPercentOf (sMonthly (nbSpec b1)) (nbStatus b1)"
  from governed(7) show ?thesis
  proof (cases rule: applyPhase_steps)
    case (failed e)
    with governed(3) assms(4) show ?thesis by simp
  next
    case (stepped acts b2 b3 w2 w3 names w4)
    from keepsD [OF enforce_others stepped(5)] stepped(9) governed(3) have "slack w4 = slack w" by simp
    with notify_effect [OF stepped(6)] assms(4)
    have note6: "stPhase (nbStatus b) \<noteq> determinePhase ?p" "rSlackWebhookURL r \<noteq> []"
      "slack w' = slack w @ [BuildMessage ns (determinePhase ?p) (f2i (eFloatToInt E) ?p) names]" by auto
    from applyPhase_stored [OF governed(7) [unfolded stepped(1)]] governed(5,6) obtain s now "is" where
      "buds w' (ns, n) = Some s" "nbStatus s = wireStatus (phaseStatus now (determinePhase ?p)
        (f2i (eFloatToInt E) ?p) ((nbStatus b1)\<lparr>stIdleWorkloads := is\<rparr>))"
      by auto
    with note6 stepped(1) show ?thesis by auto
  qed
qed

end

section \<open>The stored budgets\<close>

text \<open>
  What a stored status promises its reader: a phase that was written is the phase of the
  totals stored beside it, measured against the budget's own limits, the two conditions
  restate the stored percentage, and no condition type occurs twice.
\<close>

definition statusOk :: "'sel NamespaceBudget \<Rightarrow> bool" where
  "statusOk b \<longleftrightarrow> distinct (map cType (stConditions (nbStatus b))) \<and>
    (stPhase (nbStatus b) = [] \<or>
     stPhase (nbStatus b) = determinePhase (budgetPercentOf (sMonthly (nbSpec b)) (nbStatus b)) \<and>
     map_option cStatus (condOf ''UsageWarning'' (stConditions (nbStatus b))) =
       Some (conditionStatus (80 \<le> sint (stBudgetPercent (nbStatus b)))) \<and>
     map_option cStatus (condOf ''BudgetExceeded'' (stConditions (nbStatus b))) =
       Some (conditionStatus (100 \<le> sint (stBudgetPercent (nbStatus b)))))"

definition budgetsOk :: "(objkey \<rightharpoonup> 'sel NamespaceBudget) \<Rightarrow> bool" where
  "budgetsOk m \<longleftrightarrow> (\<forall>k b. m k = Some b \<longrightarrow> statusOk b)"

text \<open>A status write that may have happened, once or several times.\<close>

definition statusStored ::
  "objkey \<Rightarrow> NamespaceBudgetStatus \<Rightarrow> (objkey \<rightharpoonup> 'sel NamespaceBudget) \<Rightarrow> (objkey \<rightharpoonup> 'sel NamespaceBudget)
     \<Rightarrow> bool" where
  "statusStored k st m m' \<longleftrightarrow> m' = m \<or>
    (\<exists>s v. m k = Some s \<and> m' = m(k \<mapsto> s\<lparr>nbStatus := wireStatus st, nbResourceVersion := v\<rparr>))"

lemma statusStored_rules:
  "transp (\<lambda>w w'. statusStored k st (v w) (v w'))" "reflp (\<lambda>w w'. statusStored k st (v w) (v w'))"
  unfolding transp_def reflp_def statusStored_def by (auto split: if_splits) blast

lemma condOf_wire: "map_option cStatus (condOf t (stConditions (wireStatus st))) =
    map_option cStatus (condOf t (stConditions st))"
proof -
  have "map_option cStatus (find (\<lambda>c. cType c = t)
      (map (\<lambda>c. c\<lparr>cLastTransitionTime := wireTime (cLastTransitionTime c)\<rparr>) cs)) =
    map_option cStatus (find (\<lambda>c. cType c = t) cs)" for cs
    by (induction cs) auto
  then show ?thesis by (simp add: wireStatus_def condOf_def)
qed

lemma types_wire: "map cType (stConditions (wireStatus st)) = map cType (stConditions st)"
  by (simp add: wireStatus_def)

lemma phaseStatus_distinct:
  "distinct (map cType (stConditions st)) \<Longrightarrow> distinct (map cType (stConditions (phaseStatus now ph n st)))"
  unfolding phaseStatus_def by (simp add: setCondition_distinct del: setCondition.simps)

lemma budgetsOk_stored:
  assumes "budgetsOk m" and "statusStored k (phaseStatus now ph n st) m m'"
    and "\<And>s. m k = Some s \<Longrightarrow> ph = determinePhase (budgetPercentOf (sMonthly (nbSpec s)) st)"
    and "distinct (map cType (stConditions st))"
  shows "budgetsOk m'"
proof (cases "m' = m")
  case False
  with assms(2) obtain s v where s: "m k = Some s" and
    m': "m' = m(k \<mapsto> s\<lparr>nbStatus := wireStatus (phaseStatus now ph n st), nbResourceVersion := v\<rparr>)"
    by (auto simp: statusStored_def)
  have "statusOk (s\<lparr>nbStatus := wireStatus (phaseStatus now ph n st), nbResourceVersion := v\<rparr>)"
    using assms(3) [OF s] assms(4)
    by (simp add: statusOk_def condOf_wire types_wire phaseStatus_conditions phaseStatus_distinct
        budgetPercentOf_def del: map_map)
  with assms(1) m' show ?thesis by (auto simp: budgetsOk_def)
qed (use assms(1) in simp)

context cluster
begin

lemma writeStatus_stored:
  "keeps (\<lambda>w w'. statusStored (ns, n) st (buds w) (buds w')) (writeStatus E ns n st)"
proof (rule keepsI)
  fix w r w' assume run: "run_state (writeStatus E ns n st) w = (r, w')"
  obtain x w1 where get: "run_state (eGetBudget E ns n) w = (x, w1)"
    by (cases "run_state (eGetBudget E ns n) w") auto
  from keepsD [OF budget_same get] have w1: "buds w1 = buds w" by (simp add: same_def)
  show "statusStored (ns, n) st (buds w) (buds w')"
  proof (cases x)
    case (Inl e)
    with run get w1 show ?thesis by (simp add: writeStatus_def statusStored_def)
  next
    case (Inr s)
    from budget_ok [OF get [unfolded Inr]] have s: "buds w (ns, n) = Some s" .
    from budget_key [OF this] have k: "nbNamespace s = ns" "nbName s = n" by auto
    from run get Inr have up: "run_state (eUpdateBudgetStatus E (s\<lparr>nbStatus := st\<rparr>)) w1 = (r, w')"
      by (simp add: writeStatus_def)
    from up status_ok status_err
    have "buds w' = buds w1 \<or> statusUpdated (buds w1) (s\<lparr>nbStatus := st\<rparr>) (buds w')"
      by (cases r) blast+
    with k s w1 show ?thesis by (auto simp: statusUpdated_def statusStored_def)
  qed
qed

lemma updateStatus_stored:
  assumes "run_state (updateStatus E b ph n) w = ((u, b'), w')"
  shows "\<exists>now. statusStored (nbNamespace b, nbName b) (phaseStatus now ph n (nbStatus b)) (buds w) (buds w')"
proof -
  obtain now w1 where now: "run_state (eNow E) w = (now, w1)" by (cases "run_state (eNow E) w") auto
  from keepsD [OF now_same now] have w1: "buds w1 = buds w" by (simp add: same_def)
  let ?st = "phaseStatus now ph n (nbStatus b)"
  let ?f = "eRetryOnConflict E (writeStatus E (nbNamespace b) (nbName b) ?st)"
  obtain v w2 where u: "run_state ?f w1 = (v, w2)" by (cases "run_state ?f w1") auto
  with assms now have "w2 = w'" by (auto simp: updateStatus_def)
  moreover from retry_keeps [OF statusStored_rules writeStatus_stored]
  have "statusStored (nbNamespace b, nbName b) ?st (buds w1) (buds w2)" using u by (rule keepsD)
  ultimately show ?thesis using w1 by auto
qed

text \<open>Whatever a tick answers, what it stored is one status, computed from its totals.\<close>

lemma detected_stored:
  assumes "run_state (detectActionable E r ns ph b) w = (Inr (acts, b1), w1)" and "same w w1"
    and "run_state (updateStatus E b1 ph n) w1 = ((u, b2), w2)"
  shows "\<exists>now is. statusStored (nbNamespace b, nbName b)
    (phaseStatus now ph n ((nbStatus b)\<lparr>stIdleWorkloads := is\<rparr>)) (buds w) (buds w2)"
proof -
  from detectActionable_result [OF assms(1)]
  obtain "is" where b1: "b1 = b\<lparr>nbStatus := nbStatus b\<lparr>stIdleWorkloads := is\<rparr>\<rparr>" by blast
  from updateStatus_stored [OF assms(3)] assms(2) show ?thesis
    unfolding b1 by (auto simp: same_def)
qed

lemma applyPhase_stores:
  assumes "run_state (applyPhase E r ns prev b) w = ((res, err), w')"
  shows "\<exists>now n is. statusStored (nbNamespace b, nbName b)
    (phaseStatus now (determinePhase (budgetPercentOf (sMonthly (nbSpec b)) (nbStatus b))) n
      ((nbStatus b)\<lparr>stIdleWorkloads := is\<rparr>)) (buds w) (buds w')"
  using assms
proof (cases rule: applyPhase_cases)
  case (invalid e)
  then show ?thesis by (simp add: same_def statusStored_def)
next
  case (unstored acts b1 b2 w1 e)
  from detected_stored [OF unstored(3,2,4)] show ?thesis by blast
next
  case (stepped acts b1 b2 w1 w2 names w3)
  from keepsD [OF enforce_others stepped(6)] notify_effect [OF stepped(7)] have "buds w' = buds w2" by simp
  with detected_stored [OF stepped(4,3,5)] show ?thesis by auto
qed

end

lemma budgetsOk_updated:
  assumes "budgetsOk m" and "m' = m \<or> budgetUpdated m nb m'"
    and "m (nbNamespace nb, nbName nb) = Some b" and "nbSpec nb = nbSpec b"
  shows "budgetsOk m'"
proof -
  have "statusOk (b\<lparr>nbFinalizers := fs, nbSpec := nbSpec b, nbResourceVersion := v\<rparr>)" for fs v
    using assms(1,3) by (auto simp: budgetsOk_def statusOk_def)
  with assms show ?thesis by (auto simp: budgetUpdated_def budgetsOk_def split: if_splits)
qed

lemma accumulate_simps [simp]:
  "stConditions (accumulate now cs ms st) = stConditions st"
  "stPhase (accumulate now cs ms st) = stPhase st"
  "stIdleWorkloads (accumulate now cs ms st) = stIdleWorkloads st"
  by (simp_all add: accumulate_def Let_def)

context cluster
begin

lemma update_any:
  "run_state (eUpdateBudget E nb) w = (u, w') \<Longrightarrow> buds w' = buds w \<or> budgetUpdated (buds w) nb (buds w')"
  using update_ok update_err by (cases u) blast+

text \<open>Each branch of a reconciliation keeps the invariant, for a budget as it is stored.\<close>

lemma handleDeletion_budgets:
  assumes "run_state (handleDeletion E b1) w = ((res, err), w')" and "budgetsOk (buds w)"
    and "buds w (nbNamespace b1, nbName b1) = Some b" and "nbSpec b1 = nbSpec b"
  shows "budgetsOk (buds w')"
proof (cases "eContainsFinalizer E (nbFinalizers b1) namespaceBudgetFinalizer")
  case False
  with assms(1,2) show ?thesis by (simp add: handleDeletion_def)
next
  case True
  with assms(1) show ?thesis
  proof (cases rule: handleDeletion_result)
    case (cleaned u w2)
    show ?thesis
      by (rule budgetsOk_updated [OF _ update_any [OF cleaned(5)], of b])
         (simp_all add: assms(2-4) cleaned(3))
  qed (simp add: assms(2))
qed

lemma registerFinalizer_budgets:
  assumes "run_state (registerFinalizer E b1) w = ((res, err), w')" and "budgetsOk (buds w)"
    and "buds w (nbNamespace b1, nbName b1) = Some b" and "nbSpec b1 = nbSpec b"
  shows "budgetsOk (buds w')"
proof -
  let ?b = "b1\<lparr>nbFinalizers := eAddFinalizer E (nbFinalizers b1) namespaceBudgetFinalizer\<rparr>"
  obtain u w2 where u: "run_state (eUpdateBudget E ?b) w = (u, w2)"
    by (cases "run_state (eUpdateBudget E ?b) w") auto
  with assms(1) have "w' = w2" by (auto simp: registerFinalizer_def split: option.splits)
  then show ?thesis
    using budgetsOk_updated [OF assms(2) update_any [OF u], of b] assms(3,4) by simp
qed

lemma governTick_budgets:
  assumes "run_state (governTick E r ns prev b1) w = ((res, err), w')" and "budgetsOk (buds w)"
    and "buds w (nbNamespace b1, nbName b1) = Some b" and "nbSpec b1 = nbSpec b"
    and "stConditions (nbStatus b1) = stConditions (nbStatus b)"
  shows "budgetsOk (buds w')"
  using assms(1)
proof (cases rule: governTick_steps)
  case quiet
  with assms(2) show ?thesis by (simp add: same_def)
next
  case (applied t cs ms w2)
  let ?b = "b1\<lparr>nbStatus := accumulate t cs ms (nbStatus b1)\<rparr>"
  from applied(1) have w2: "buds w2 = buds w" by (simp add: same_def)
  from assms(2,3) have dist: "distinct (map cType (stConditions (nbStatus b)))"
    by (auto simp: budgetsOk_def statusOk_def)
  from applyPhase_stores [OF applied(2)] obtain now' m "is" where
    st: "statusStored (nbNamespace b1, nbName b1) (phaseStatus now' (determinePhase
        (budgetPercentOf (sMonthly (nbSpec b)) (nbStatus ?b))) m ((nbStatus ?b)\<lparr>stIdleWorkloads := is\<rparr>))
      (buds w) (buds w')"
    unfolding w2 by (auto simp: assms(4))
  show ?thesis
  proof (rule budgetsOk_stored [OF assms(2) st])
    show "determinePhase (budgetPercentOf (sMonthly (nbSpec b)) (nbStatus ?b)) =
        determinePhase (budgetPercentOf (sMonthly (nbSpec s')) ((nbStatus ?b)\<lparr>stIdleWorkloads := is\<rparr>))"
      if "buds w (nbNamespace b1, nbName b1) = Some s'" for s'
      using that assms(3) by (simp add: budgetPercentOf_def)
    show "distinct (map cType (stConditions ((nbStatus ?b)\<lparr>stIdleWorkloads := is\<rparr>)))"
      using dist assms(5) by simp
  qed
qed

lemma Reconcile_budgets:
  assumes "run_state (Reconcile E r ns n) w = ((res, err), w')" and "budgetsOk (buds w)"
  shows "budgetsOk (buds w')"
  using assms(1)
proof (cases rule: Reconcile_steps)
  case unread
  with assms(2) show ?thesis by (simp add: same_def)
next
  case (read b b1 now w0 w1)
  from read(2,3,9) have b1: "nbSpec b1 = nbSpec b" "nbNamespace b1 = ns" "nbName b1 = n"
    "stConditions (nbStatus b1) = stConditions (nbStatus b)" by auto
  from assms(2) read(6) have ok: "budgetsOk (buds w1)" by simp
  from read(1,6) b1 have s: "buds w1 (nbNamespace b1, nbName b1) = Some b" by simp
  from read(10) show ?thesis
    using handleDeletion_budgets [OF _ ok s b1(1)] registerFinalizer_budgets [OF _ ok s b1(1)]
      governTick_budgets [OF _ ok s b1(1,4)]
    by (auto split: if_splits)
qed

end

section \<open>Which way a reconciliation moves a Deployment\<close>

context deployment_api
begin

lemma scaleDownIdle_marked:
  assumes "run_state (scaleDownIdle E wls) w = (ns, w')" and "deps w k = Some d"
    and "IsScaledDownByOperator d"
  shows "deps w' k = Some d"
  using assms(1,2)
proof (induction wls arbitrary: w ns)
  case (Cons wl wls)
  obtain r w1 ns1 where 1: "run_state (ScaleDown E wl) w = (r, w1)"
    and 2: "run_state (scaleDownIdle E wls) w1 = (ns1, w')"
    using Cons.prems(1) by (auto split: prod.splits)
  from ScaleDown_outcome [OF 1] Cons.prems(2) assms(3) have "deps w1 k = Some d"
    by (auto simp: fun_upd_def)
  from Cons.IH [OF 2 this] show ?case .
qed simp

lemma enforce_marked:
  assumes "run_state (enforce E ns ph exs acts) w = (names, w')" and "deps w k = Some d"
    and "IsScaledDownByOperator d"
  shows "deps w' k = Some d"
proof -
  let ?m1 = "if overBudget ph then scaleDownIdle E acts else State_Monad.return []"
  obtain a w1 where 1: "run_state ?m1 w = (a, w1)" by (cases "run_state ?m1 w") auto
  have d1: "deps w1 k = Some d"
    using 1 assms(2,3) scaleDownIdle_marked by (auto split: if_splits)
  show ?thesis
  proof (cases "ph = phaseSuspended")
    case False
    with assms(1) 1 d1 show ?thesis by (auto simp: enforce_def)
  next
    case True
    obtain x w2 where 2: "run_state (SuspendAll E ns exs) w1 = (x, w2)"
      by (cases "run_state (SuspendAll E ns exs) w1") auto
    from assms(1) 1 2 True have "w' = w2" by (auto simp: enforce_def)
    with suspend_frame [OF 2 d1] assms(3) show ?thesis by (auto simp: suspendSkips_def)
  qed
qed

lemma cleanupLoop_unmarked:
  assumes "run_state (cleanupLoop E ns ds) w = (c, w')" and "deps w k = Some d"
    and "\<not> IsScaledDownByOperator d"
  shows "deps w' k = Some d"
  using assms(1,2)
proof (induction ds arbitrary: w)
  case (Cons x ds)
  show ?case
  proof (cases "IsScaledDownByOperator x")
    case False
    with Cons show ?thesis by auto
  next
    case True
    obtain e w1 where 1: "run_state (Restore E ns (dName x)) w = (e, w1)"
      by (cases "run_state (Restore E ns (dName x)) w") auto
    from Restore_outcome [OF 1] Cons.prems(2) assms(3) have d: "deps w1 k = Some d"
      by (auto simp: fun_upd_def)
    with Cons 1 True show ?thesis by (cases e) auto
  qed
qed simp

lemma cleanup_unmarked:
  assumes "run_state (cleanup E b) w = (c, w')" and "deps w k = Some d"
    and "\<not> IsScaledDownByOperator d"
  shows "deps w' k = Some d"
proof -
  let ?ns = "nbNamespace b"
  obtain x w1 where list: "run_state (eListDeployments E ?ns) w = (x, w1)"
    by (cases "run_state (eListDeployments E ?ns) w") auto
  from keepsD [OF list_frame list] assms(2) have "deps w1 k = Some d" by simp
  with assms(1,3) list cleanupLoop_unmarked [of ?ns _ w1 c w' k d] show ?thesis
    by (cases x) (auto simp: cleanup_def)
qed

end

context cluster
begin

text \<open>While a budget lives its ticks stop Deployments and never give one back.\<close>

lemma Reconcile_marked:
  assumes "run_state (Reconcile E r ns n) w = ((res, err), w')"
    and "buds w (ns, n) = Some b" and "\<not> beingDeleted b"
    and "deps w k = Some d" and "IsScaledDownByOperator d"
  shows "deps w' k = Some d"
  using assms(1-3)
proof (cases rule: Reconcile_live)
  case idle
  with assms(4) show ?thesis by simp
next
  case (governed b1 w1)
  from governed(7) show ?thesis
  proof (cases rule: applyPhase_steps)
    case (failed e)
    with governed(1) assms(4) show ?thesis by simp
  next
    case (stepped acts c1 c2 v1 v2 names v3)
    with governed(1) assms(4) have "deps v2 k = Some d" by simp
    from enforce_marked [OF stepped(5) this assms(5)] notify_effect [OF stepped(6)] show ?thesis by simp
  qed
qed

text \<open>Once it is being deleted they give Deployments back and never stop one.\<close>

lemma Reconcile_unmarked:
  assumes "run_state (Reconcile E r ns n) w = ((res, err), w')"
    and "buds w (ns, n) = Some b" and "beingDeleted b"
    and "deps w k = Some d" and "\<not> IsScaledDownByOperator d"
  shows "deps w' k = Some d"
  using assms(1)
proof (cases rule: Reconcile_steps)
  case unread
  with assms(4) show ?thesis by (simp add: same_def)
next
  case (read c b1 now w0 w1)
  from read(1) assms(2) have "c = b" by simp
  with read(10) assms(3) have run: "run_state (handleDeletion E b1) w1 = ((res, err), w')" by simp
  from read(5) assms(4) have d: "deps w1 k = Some d" by simp
  obtain e w2 where cl: "run_state (cleanup E b1) w1 = (e, w2)" by (cases "run_state (cleanup E b1) w1") auto
  from cleanup_unmarked [OF cl d assms(5)] have d2: "deps w2 k = Some d" .
  let ?u = "eUpdateBudget E (b1\<lparr>nbFinalizers :=
    eRemoveFinalizer E (nbFinalizers b1) namespaceBudgetFinalizer\<rparr>)"
  obtain u w3 where u: "run_state ?u w2 = (u, w3)" by (cases "run_state ?u w2") auto
  from keepsD [OF update_frame u] d2 have "deps w3 k = Some d" by simp
  with run d d2 cl u show ?thesis by (auto simp: handleDeletion_def split: if_splits option.splits)
qed

lemma Reconcile_deletion:
  assumes "run_state (Reconcile E r ns n) w = ((res, err), w')"
    and "buds w (ns, n) = Some b" and "beingDeleted b"
  shows "buds w' = buds w \<or> (\<forall>m d. deps w' (ns, m) = Some d \<longrightarrow> \<not> IsScaledDownByOperator d)"
  using assms(1)
proof (cases rule: Reconcile_steps)
  case unread
  then show ?thesis by (simp add: same_def)
next
  case (read c b1 now w0 w1)
  from read(1) assms(2) have c: "c = b" by simp
  with read(10) assms(3) have run: "run_state (handleDeletion E b1) w1 = ((res, err), w')" by simp
  from read(9) read(2) have ns: "nbNamespace b1 = ns" by auto
  show ?thesis
  proof (cases "eContainsFinalizer E (nbFinalizers b1) namespaceBudgetFinalizer")
    case False
    with run read(6) show ?thesis by (simp add: handleDeletion_def)
  next
    case True
    with run show ?thesis
      by (cases rule: handleDeletion_result) (use read(6) ns in auto)
  qed
qed

end

context cluster
begin

text \<open>A deletion that answers no error is over, and nothing happens after it.\<close>

lemma Reconcile_deleted:
  assumes "go_runtime E" and "run_state (Reconcile E r ns n) w = ((res, None), w')"
    and "buds w (ns, n) = Some b" and "beingDeleted b" and "namespaceBudgetFinalizer \<in> set (nbFinalizers b)"
  shows "(if set (nbFinalizers b) = {namespaceBudgetFinalizer} then buds w' (ns, n) = None
     else \<exists>b'. buds w' (ns, n) = Some b' \<and> beingDeleted b' \<and>
       set (nbFinalizers b') = set (nbFinalizers b) - {namespaceBudgetFinalizer}) \<and>
    (\<forall>m d. deps w' (ns, m) = Some d \<longrightarrow> \<not> IsScaledDownByOperator d)"
  using assms(2)
proof (cases rule: Reconcile_steps)
  case unread
  with assms(3) show ?thesis by simp
next
  case (read c b1 now w0 w1)
  from read(1) assms(3) have c: "c = b" by simp
  with read(10) assms(4) have run: "run_state (handleDeletion E b1) w1 = ((res, None), w')" by simp
  from read(2,3,9) c have b1: "nbNamespace b1 = ns" "nbName b1 = n" "nbFinalizers b1 = nbFinalizers b" by auto
  then have fin: "eContainsFinalizer E (nbFinalizers b1) namespaceBudgetFinalizer"
    using assms(5) go_runtime.contains_finalizer [OF assms(1)] by simp
  from run fin show ?thesis
  proof (cases rule: handleDeletion_result)
    case (cleaned u w2)
    define rest where "rest = eRemoveFinalizer E (nbFinalizers b1) namespaceBudgetFinalizer"
    have rest: "set rest = set (nbFinalizers b) - {namespaceBudgetFinalizer}"
      using go_runtime.remove_finalizer [OF assms(1), of "nbFinalizers b1" namespaceBudgetFinalizer] b1(3)
      by (simp add: rest_def)
    have "rest = [] \<longleftrightarrow> set rest = {}" by simp
    then have empty: "rest = [] \<longleftrightarrow> set (nbFinalizers b) = {namespaceBudgetFinalizer}"
      unfolding rest using assms(5) by blast
    from cleaned(4) have "u = None" by simp
    from update_ok [OF cleaned(5) [unfolded this]] cleaned(3) read(6)
    have up: "budgetUpdated (buds w) (b1\<lparr>nbFinalizers := rest\<rparr>) (buds w')" by (simp add: rest_def)
    have key: "(nbNamespace (b1\<lparr>nbFinalizers := rest\<rparr>), nbName (b1\<lparr>nbFinalizers := rest\<rparr>)) = (ns, n)"
      using b1 by simp
    have "if rest = [] then buds w' (ns, n) = None
      else \<exists>b'. buds w' (ns, n) = Some b' \<and> beingDeleted b' \<and> set (nbFinalizers b') = set rest"
      using up assms(3,4) unfolding budgetUpdated_def key by (cases "rest = []") (auto simp: beingDeleted_def)
    moreover have "\<forall>m d. deps w' (ns, m) = Some d \<longrightarrow> \<not> IsScaledDownByOperator d"
      using cleaned(2) unfolding b1(1) by blast
    ultimately show ?thesis unfolding empty rest by (rule conjI)
  qed simp
qed

lemma Reconcile_over:
  assumes "go_runtime E" and "run_state (Reconcile E r ns n) w = ((res, err), w')"
    and "\<And>b. buds w (ns, n) = Some b \<Longrightarrow> beingDeleted b \<and> namespaceBudgetFinalizer \<notin> set (nbFinalizers b)"
  shows "deps w' = deps w \<and> buds w' = buds w \<and> slack w' = slack w \<and> res = noResult \<and>
    (buds w (ns, n) = None \<longrightarrow> reps w' = reps w)"
  using assms(2)
proof (cases rule: Reconcile_steps)
  case unread
  then show ?thesis by (simp add: same_def)
next
  case (read b b1 now w0 w1)
  from assms(3) [OF read(1)] have d: "beingDeleted b" "namespaceBudgetFinalizer \<notin> set (nbFinalizers b)" by auto
  with read(9) go_runtime.contains_finalizer [OF assms(1)]
  have "\<not> eContainsFinalizer E (nbFinalizers b1) namespaceBudgetFinalizer" by auto
  with read(10) d(1) have "w' = w1" "res = noResult" by (simp_all add: handleDeletion_def)
  with read(1,5-7) show ?thesis by simp
qed

lemma Reconcile_stuck:
  assumes "run_state (Reconcile E r ns n) w = ((res, err), w')"
    and "buds w (ns, n) = Some b" and "beingDeleted b"
    and "eContainsFinalizer E (nbFinalizers b) namespaceBudgetFinalizer"
    and "deps w (ns, m) = Some d" and "IsScaledDownByOperator d" and "intended d = None"
  shows "err \<noteq> None \<and> buds w' = buds w"
  using assms(1)
proof (cases rule: Reconcile_steps)
  case unread
  with assms(2) show ?thesis by (simp add: same_def)
next
  case (read c b1 now w0 w1)
  from read(1) assms(2) have c: "c = b" by simp
  with read(10) assms(3) have run: "run_state (handleDeletion E b1) w1 = ((res, err), w')" by simp
  from read(9) c read(2) assms(4) have b1: "nbNamespace b1 = ns"
    "eContainsFinalizer E (nbFinalizers b1) namespaceBudgetFinalizer" by auto
  from run b1(2) show ?thesis
  proof (cases rule: handleDeletion_result)
    case (stuck e)
    with read(6) show ?thesis by simp
  next
    case (cleaned u w2)
    have "fst (run_state (cleanup E b1) w1) \<noteq> None"
      using cleanup_stuck [of b1 w1 _ _ m d] read(5) assms(5-7) b1(1)
      by (cases "run_state (cleanup E b1) w1") auto
    with cleaned(1) show ?thesis by simp
  qed
qed

lemma Reconcile_restores:
  assumes "reliable_api E deps"
    and "run_state (Reconcile E r ns n) w = ((res, err), w')"
    and "fst (run_state (eGetBudget E ns n) w) = Inr b" and "beingDeleted b"
    and "eContainsFinalizer E (nbFinalizers b) namespaceBudgetFinalizer"
    and "\<And>m d. deps w (ns, m) = Some d \<Longrightarrow> IsScaledDownByOperator d \<Longrightarrow> intended d \<noteq> None"
    and "deps w (ns, m) = Some d"
  shows "(\<exists>d'. deps w' (ns, m) = Some d' \<and> \<not> IsScaledDownByOperator d' \<and> sameIntent d d') \<and>
    (\<forall>e. err = Some e \<longrightarrow> (\<exists>k. e = KubeErr k))"
  using assms(2)
proof (cases rule: Reconcile_steps)
  case unread
  with assms(3) show ?thesis by simp
next
  case (read c b1 now w0 w1)
  from budget_ok [of ns n w b] assms(3) have "buds w (ns, n) = Some b"
    by (cases "run_state (eGetBudget E ns n) w") auto
  with read(1) have c: "c = b" by simp
  with read(10) assms(4) have run: "run_state (handleDeletion E b1) w1 = ((res, err), w')" by simp
  from read(9) c read(2) assms(5) have b1: "nbNamespace b1 = ns"
    "eContainsFinalizer E (nbFinalizers b1) namespaceBudgetFinalizer" by auto
  from run b1(2) show ?thesis
  proof (cases rule: handleDeletion_result)
    case (stuck e)
    have "fst (run_state (cleanup E b1) w1) = None"
      by (rule reliable_api.cleanup_up [OF assms(1)]) (use assms(6) read(5) b1(1) in auto)
    with stuck(3) show ?thesis by simp
  next
    case (cleaned u w2)
    from keepsD [OF Reconcile_safe assms(2)] assms(7)
    obtain d' where "deps w' (ns, m) = Some d'" "sameIntent d d'" by (auto elim: depsSafe_at)
    with cleaned(2,4) b1(1) show ?thesis by auto
  qed
qed

end

section \<open>The hard limit\<close>

context cluster
begin

text \<open>A reconciliation that is to be repeated in a minute and wrote its budget has enforced.\<close>

lemma Reconcile_ticked:
  assumes "run_state (Reconcile E r ns n) w = ((inAMinute, None), w')"
    and "buds w (ns, n) = Some b" and "\<not> beingDeleted b" and "buds w' (ns, n) \<noteq> Some b"
  obtains b1 w1 where "nbSpec b1 = nbSpec b" and "nbNamespace b1 = ns" and "nbName b1 = n"
    and "run_state (applyPhase E r ns (stPhase (nbStatus b)) b1) w1 = ((inAMinute, None), w')"
  using assms(1)
proof (cases rule: Reconcile_steps)
  case unread
  with assms(2) show ?thesis by auto
next
  case (read c b1 now w0 w1)
  from read(1) assms(2) have [simp]: "c = b" by simp
  show ?thesis
  proof (cases "eContainsFinalizer E (nbFinalizers b) namespaceBudgetFinalizer")
    case False
    with read(10) assms(3) show ?thesis
      by (auto simp: registerFinalizer_def inAMinute_def split: prod.splits option.splits)
  next
    case True
    with read(10) assms(3)
    have "run_state (governTick E r ns (stPhase (nbStatus b)) b1) w1 = ((inAMinute, None), w')" by simp
    then show ?thesis
    proof (cases rule: governTick_steps)
      case quiet
      with read(6) assms(2,4) show ?thesis by (simp add: same_def)
    next
      case (applied t cs ms w2)
      from applied(2) read(2,3,9) show ?thesis by (intro that) auto
    qed
  qed
qed

text \<open>A tick that stores the Suspended phase has stopped the namespace.\<close>

lemma applyPhase_suspends:
  assumes "reliable_api E deps"
    and "run_state (applyPhase E r ns prev b) w = ((res, None), w')"
    and "buds w' (nbNamespace b, nbName b) = Some s" and "stPhase (nbStatus s) = phaseSuspended"
    and "deps w' (ns, m) = Some d"
  shows "stopped d \<or> IsExcluded m (sExclusions (nbSpec b)) \<or> IsLabelExcluded E d (sExclusions (nbSpec b))"
  using assms(2)
proof (cases rule: applyPhase_steps)
  case (stepped acts b1 b2 w1 w2 names w3)
  let ?ph = "determinePhase (budgetPercentOf (sMonthly (nbSpec b)) (nbStatus b))"
  from applyPhase_stored [OF assms(2)] assms(3,4) have ph: "?ph = phaseSuspended"
    by (auto simp: wireStatus_def phaseStatus_def)
  then have over: "overBudget ?ph" by (simp add: overBudget_def)
  obtain a v where "run_state (scaleDownIdle E acts) w2 = (a, v)"
    by (cases "run_state (scaleDownIdle E acts) w2") auto
  with stepped(5) ph over obtain x
    where all: "run_state (SuspendAll E ns (sExclusions (nbSpec b))) v = (x, w3)"
    by (auto simp: enforce_def split: prod.splits)
  from notify_effect [OF stepped(6)] assms(5) have "deps w3 (ns, m) = Some d" by simp
  from reliable_api.suspend_all_stopped [OF assms(1) all this] show ?thesis .
qed simp

lemma Reconcile_suspends:
  assumes "reliable_api E deps"
    and "run_state (Reconcile E r ns n) w = ((inAMinute, None), w')"
    and "buds w (ns, n) = Some b" and "\<not> beingDeleted b"
    and "buds w' (ns, n) = Some s" and "s \<noteq> b" and "stPhase (nbStatus s) = phaseSuspended"
    and "deps w' (ns, m) = Some d"
  shows "stopped d \<or> IsExcluded m (sExclusions (nbSpec b)) \<or> IsLabelExcluded E d (sExclusions (nbSpec b))"
proof -
  from assms(5,6) have "buds w' (ns, n) \<noteq> Some b" by simp
  from Reconcile_ticked [OF assms(2-4) this] obtain b1 w1
    where b1: "nbSpec b1 = nbSpec b" "nbNamespace b1 = ns" "nbName b1 = n"
      and run: "run_state (applyPhase E r ns (stPhase (nbStatus b)) b1) w1 = ((inAMinute, None), w')" .
  from applyPhase_suspends [OF assms(1) run] assms(5,7,8) b1 show ?thesis by simp
qed

end

end
