(* ===== verification/Guarantees.thy ===== *)
theory Guarantees
  imports Governance
begin

text \<open>
  The guarantees of \<open>Reconcile\<close>, each with a run of the code in a small cluster held in memory.
\<close>

section \<open>The actions of a budget\<close>

definition withActions :: "Actions \<Rightarrow> 'sel NamespaceBudget \<Rightarrow> 'sel NamespaceBudget" where
  "withActions a b = b\<lparr>nbSpec := (nbSpec b)\<lparr>sActions := a\<rparr>\<rparr>"

lemma withActions_simps [simp]:
  "sMonthly (nbSpec (withActions a b)) = sMonthly (nbSpec b)"
  "sIdleThreshold (nbSpec (withActions a b)) = sIdleThreshold (nbSpec b)"
  "sExclusions (nbSpec (withActions a b)) = sExclusions (nbSpec b)"
  "nbStatus (withActions a b) = nbStatus b" "nbName (withActions a b) = nbName b"
  "nbNamespace (withActions a b) = nbNamespace b"
  "(withActions a b)\<lparr>nbStatus := st\<rparr> = withActions a (b\<lparr>nbStatus := st\<rparr>)"
  by (simp_all add: withActions_def)

lemma detectActionable_actions:
  "run_state (detectActionable E r ns ph (withActions a b)) w =
   (case run_state (detectActionable E r ns ph b) w of
      (d, w') \<Rightarrow> (map_sum id (map_prod id (withActions a)) d, w'))"
  by (auto simp: detectActionable_def split: sum.splits prod.splits)

lemma updateStatus_actions:
  "run_state (updateStatus E (withActions a b) ph n) w =
   (case run_state (updateStatus E b ph n) w of ((u, b'), w') \<Rightarrow> ((u, withActions a b'), w'))"
  by (auto simp: updateStatus_def split: prod.splits)

lemma applyPhase_actions:
  "run_state (applyPhase E r ns prev (withActions a b)) w = run_state (applyPhase E r ns prev b) w"
proof -
  let ?p = "budgetPercentOf (sMonthly (nbSpec b)) (nbStatus b)"
  obtain d w1 where d: "run_state (detectActionable E r ns (determinePhase ?p) b) w = (d, w1)"
    by (cases "run_state (detectActionable E r ns (determinePhase ?p) b) w") auto
  show ?thesis
  proof (cases d)
    case (Inl e)
    with d show ?thesis by (simp add: applyPhase_def Let_def detectActionable_actions)
  next
    case (Inr ab)
    obtain acts b1 where ab: "ab = (acts, b1)" by (cases ab)
    obtain u b2 w2 where u: "run_state (updateStatus E b1 (determinePhase ?p) (f2i (eFloatToInt E) ?p)) w1
        = ((u, b2), w2)"
      by (cases "run_state (updateStatus E b1 (determinePhase ?p) (f2i (eFloatToInt E) ?p)) w1") auto
    with d Inr ab show ?thesis
      by (simp add: applyPhase_def Let_def detectActionable_actions updateStatus_actions
          split: option.split)
  qed
qed

section \<open>A world to reconcile in\<close>

text \<open>
  The namespace \<open>team\<close> with one Deployment of three replicas and a budget that has used
  half as much again as it may; Prometheus answers three queries with nothing.
\<close>

definition exRec :: Reconciler where
  "exRec = \<lparr>rPrometheusClient = NewClient ''http://prometheus:9090'', rSlackWebhookURL = ''https://hook'',
     rCPUPricePerCoreHour = Fin 0, rMemPricePerGiBHour = Fin 0\<rparr>"

definition exOver :: "labelSel Exclusion list \<Rightarrow> gotime option \<Rightarrow> labelSel NamespaceBudget" where
  "exOver exs del = exBudget\<lparr>nbDeletionTimestamp := del, nbStatus := exUsed ''150'' ''0'',
     nbSpec := (nbSpec exBudget)\<lparr>sExclusions := exs\<rparr>\<rparr>"

definition exParked :: "string option \<Rightarrow> deployment" where
  "exParked orig = setAnn AnnotationScaledDownBy governorName
     (case orig of None \<Rightarrow> exDep ''api'' (Some 0)
      | Some n \<Rightarrow> setAnn AnnotationOriginalReplicas n (exDep ''api'' (Some 0)))"

definition exCluster :: "deployment \<Rightarrow> labelSel NamespaceBudget \<Rightarrow> mem" where
  "exCluster d b = (exMem [d] [] (replicate 3 (Inr (vectorAnswer []))))\<lparr>mBuds := [b]\<rparr>"

lemma exParked_simps [simp]:
  "dName (exParked orig) = ''api''" "dNamespace (exParked orig) = ''team''"
  "dkey (exParked orig) = (''team'', ''api'')" "IsScaledDownByOperator (exParked orig)"
  "intended (exParked None) = None" "intended (exParked (Some ''3'')) = Some 3"
proof -
  have "ParseInt32 ''3'' = Inr 3" by code_simp
  then show "dName (exParked orig) = ''api''" "dNamespace (exParked orig) = ''team''"
    "dkey (exParked orig) = (''team'', ''api'')" "IsScaledDownByOperator (exParked orig)"
    "intended (exParked None) = None" "intended (exParked (Some ''3'')) = Some 3"
    by (simp_all add: exParked_def dkey_def IsScaledDown_annOf intended_def split: option.split)
qed

lemma exCluster_views [simp]:
  "memBuds (exCluster d (exOver exs del)) = [(''team'', ''budget'') \<mapsto> exOver exs del]"
  "memDeps (exCluster d b) = [dkey d \<mapsto> d]" "mSlack (exCluster d b) = []"
  by (auto simp: exCluster_def exMem_def exOver_def memBuds_def memDeps_def budKey_def fun_eq_iff)

lemma exOver_simps [simp]:
  "sExclusions (nbSpec (exOver exs del)) = exs" "nbStatus (exOver exs del) = exUsed ''150'' ''0''"
  "nbFinalizers (exOver exs del) = [namespaceBudgetFinalizer]"
  "\<not> beingDeleted (exOver exs None)" "beingDeleted (exOver exs (Some exNoon))"
  by (simp_all add: exOver_def beingDeleted_def namespaceBudgetFinalizer_def isZeroTime_def exNoon_def
      zeroTime_def)

lemma exOver_budgets: "budgetsOk (memBuds (exCluster d (exOver exs del)))"
  by (simp add: budgetsOk_def statusOk_def exUsed_def exStatus_def)

section \<open>A tick in memory\<close>

text \<open>
  The budget of \<open>exOver\<close> at noon, and once a tick with no usage is accumulated in it: it stays
  at 150 of 100 core-hours.
\<close>

abbreviation "exInit \<equiv> initSince exNoon (exOver [] None)"

abbreviation "exTotal \<equiv>
  exInit\<lparr>nbStatus := accumulate (addT exNoon 1000000000) [] [] (nbStatus exInit)\<rparr>"

lemma exTotal_values:
  "\<not> monthEnded exNoon (acSince (stAccumulated (nbStatus exInit)))"
  "determinePhase (budgetPercentOf (sMonthly (nbSpec exTotal)) (nbStatus exTotal)) = phaseSuspended"
  "parseDuration E ''30m'' = Inr 1800000000000"
  by code_simp+

lemma exTotal_fields:
  "nbFinalizers exInit = [namespaceBudgetFinalizer]" "\<not> beingDeleted exInit"
  "nbNamespace exTotal = ''team''" "nbName exTotal = ''budget''"
  "itWindow (sIdleThreshold (nbSpec exTotal)) = ''30m''" "stIdleWorkloads (nbStatus exTotal) = []"
  by (simp_all add: initSince_def updAccumulated_def exOver_def exBudget_def accumulate_def Let_def
      exUsed_def exStatus_def beingDeleted_def namespaceBudgetFinalizer_def)

lemma calm_query:
  assumes "mProm w = Inr (vectorAnswer []) # as"
  shows "run_state (doRequest calmEnv c p ps) w = (Inr [], w\<lparr>mProm := as\<rparr>)"
    and "run_state (QueryInstant calmEnv c q) w = (Inr [], w\<lparr>mProm := as\<rparr>)"
  using assms
  by (simp_all add: QueryInstant_def doRequest_def memProm_def calm_rest decodeAnswer_def vectorAnswer_def)

lemma calm_idle:
  assumes "mProm w = Inr (vectorAnswer []) # as" and "itWindow (sIdleThreshold (nbSpec b)) = ''30m''"
    and "stIdleWorkloads (nbStatus b) = []"
  shows "\<exists>c. run_state (detectActionable calmEnv r ns phaseSuspended b) w =
    (Inr ([], b), w\<lparr>mClock := c, mProm := as\<rparr>)"
  using assms
  by (auto simp: detectActionable_def overBudget_def exTotal_values(3) DetectIdle_def QueryRange_def
      calm_query averageByPod_def groupSums_def divideCounts_def depSums_def idleList_def calm_rest
      toIdleWorkloadStatus_def Let_def)

lemma calm_stored:
  assumes "memBuds w (nbNamespace b, nbName b) = Some s" and "mFaults w = []"
    and "nbNamespace s = nbNamespace b" and "nbName s = nbName b"
  shows "fst (fst (run_state (updateStatus calmEnv b ph n) w)) = None"
  using assms
  by (simp add: updateStatus_def calm_rest writeStatus_def lookupOr404_def memUpdateStatus_def
      budKey_def numeral_eq_Suc written_def hdFault_def)

lemma applyPhase_answers:
  assumes "determinePhase (budgetPercentOf (sMonthly (nbSpec b)) (nbStatus b)) = phaseSuspended"
    and "run_state (detectActionable E r ns phaseSuspended b) w = (Inr ([], b), v)"
    and "\<And>n. fst (fst (run_state (updateStatus E b phaseSuspended n) v)) = None"
  shows "fst (run_state (applyPhase E r ns prev b) w) = (inAMinute, None)"
proof -
  let ?p = "budgetPercentOf (sMonthly (nbSpec b)) (nbStatus b)"
  obtain b2 v2 where "run_state (updateStatus E b phaseSuspended (f2i (eFloatToInt E) ?p)) v = ((None, b2), v2)"
    using assms(3) [of "f2i (eFloatToInt E) ?p"] by (metis prod.collapse)
  with assms(1,2) show ?thesis by (simp add: applyPhase_def Let_def split: prod.split)
qed

lemma exTick:
  "\<exists>w' s. run_state (Reconcile calmEnv exRec ''team'' ''budget'')
      (exCluster (exDep ''api'' (Some 3)) (exOver [] None)) = ((inAMinute, None), w') \<and>
    memBuds w' (''team'', ''budget'') = Some s \<and> stPhase (nbStatus s) = phaseSuspended"
proof -
  let ?w = "exCluster (exDep ''api'' (Some 3)) (exOver [] None)"
  let ?v = "?w\<lparr>mProm := [Inr (vectorAnswer [])], mClock := addT (addT exNoon 1000000000) 1000000000\<rparr>"
  let ?prev = "stPhase (nbStatus exInit)"
  have w: "mProm ?w = replicate 3 (Inr (vectorAnswer []))" "mClock ?w = exNoon" "mTick ?w = 1" "mFaults ?w = []"
    by (simp_all add: exCluster_def exMem_def)
  have cf: "eContainsFinalizer calmEnv fs f \<longleftrightarrow> f \<in> set fs" for fs f by (simp add: calmEnv_def)
  obtain c where det: "run_state (detectActionable calmEnv exRec ''team'' phaseSuspended exTotal) ?v
      = (Inr ([], exTotal), ?v\<lparr>mClock := c, mProm := []\<rparr>)"
    using calm_idle [of ?v "[]" exTotal] exTotal_fields by auto
  have upd: "fst (fst (run_state (updateStatus calmEnv exTotal phaseSuspended n) (?v\<lparr>mClock := c, mProm := []\<rparr>))) = None" for n
    by (rule calm_stored [of _ _ "exOver [] None"]) (simp_all add: exTotal_fields w, simp_all add: exOver_def)
  obtain w' where app: "run_state (applyPhase calmEnv exRec ''team'' ?prev exTotal) ?v = ((inAMinute, None), w')"
    using applyPhase_answers [OF exTotal_values(2) det upd, of ?prev] by (metis prod.collapse)
  have "run_state (Reconcile calmEnv exRec ''team'' ''budget'') ?w = ((inAMinute, None), w')"
    using app exTotal_values(1) exTotal_fields(1,2)
    by (simp add: Reconcile_def rolloverMonth_def calm_rest lookupOr404_def cf governTick_def calm_query
        w numeral_eq_Suc)
  moreover from calmc.applyPhase_stored [OF app, unfolded exTotal_values(2) exTotal_fields(3,4)]
  obtain s now n st where "memBuds w' (''team'', ''budget'') = Some s"
    and st: "nbStatus s = wireStatus (phaseStatus now phaseSuspended n st)" by blast
  moreover have "stPhase (nbStatus s) = phaseSuspended"
    unfolding st by (simp add: wireStatus_def phaseStatus_def)
  ultimately show ?thesis by blast
qed

lemma exTick_stopped:
  "\<exists>w' d. run_state (Reconcile calmEnv exRec ''team'' ''budget'')
      (exCluster (exDep ''api'' (Some 3)) (exOver [] None)) = ((inAMinute, None), w') \<and>
    memDeps w' (''team'', ''api'') = Some d \<and> stopped d"
proof -
  let ?w = "exCluster (exDep ''api'' (Some 3)) (exOver [] None)"
  obtain w' s where run: "run_state (Reconcile calmEnv exRec ''team'' ''budget'') ?w = ((inAMinute, None), w')"
    and s: "memBuds w' (''team'', ''budget'') = Some s" "stPhase (nbStatus s) = phaseSuspended"
    using exTick by blast
  have k: "memDeps ?w (''team'', ''api'') = Some (exDep ''api'' (Some 3))" by simp
  from depsSafe_at [OF keepsD [OF calmc.Reconcile_safe run] k]
  obtain d where d: "memDeps w' (''team'', ''api'') = Some d" by blast
  have b: "memBuds ?w (''team'', ''budget'') = Some (exOver [] None)" by simp
  have new: "s \<noteq> exOver [] None" using s(2) by (auto simp: exUsed_def exStatus_def phaseSuspended_def)
  from calmc.Reconcile_suspends [OF calm.reliable_api_axioms run b exOver_simps(4) s(1) new s(2) d]
  have "stopped d" unfolding exOver_simps(1) by simp
  with run d show ?thesis by blast
qed

section \<open>Properties\<close>

text \<open>
  C6. While a budget is not being deleted its reconciliation leaves every excluded
  Deployment exactly as it was, whether the exclusion names it or selects its labels, in
  every phase and whatever fails: idle enforcement and suspension respect the same list.
\<close>

theorem reconcile_respects_exclusions:
  assumes "cluster E deps buds reps slack same"
    and "run_state (Reconcile E r ns n) w = ((res, err), w')"
    and "buds w (ns, n) = Some b" and "\<not> beingDeleted b" and "deps w k = Some d"
    and "IsExcluded (dName d) (sExclusions (nbSpec b)) \<or> IsLabelExcluded E d (sExclusions (nbSpec b))"
  shows "deps w' k = Some d"
  by (rule cluster.Reconcile_excluded [OF assms])

theorem reconcile_respects_exclusions_witness:
  "memDeps (snd (run_state (Reconcile memEnv exRec ''team'' ''budget'')
      (exCluster (exDep ''api'' (Some 3)) (exOver [\<lparr>exName = ''api'', exLabelSelector = None\<rparr>] None))))
    (''team'', ''api'') = Some (exDep ''api'' (Some 3))"
proof -
  let ?b = "exOver [\<lparr>exName = ''api'', exLabelSelector = None\<rparr>] None"
  let ?w = "exCluster (exDep ''api'' (Some 3)) ?b"
  obtain res err w' where run: "run_state (Reconcile memEnv exRec ''team'' ''budget'') ?w = ((res, err), w')"
    by (metis prod.collapse)
  have "memDeps w' (''team'', ''api'') = Some (exDep ''api'' (Some 3))"
    by (rule reconcile_respects_exclusions [OF memc.cluster_axioms run, of ?b]) simp_all
  with run show ?thesis by simp
qed

text \<open>
  C5. A reconciliation touches Deployments on behalf of a live budget only together with
  the record of why: it answers no error, and the budget it leaves behind stores a phase of
  Exceeded or Suspended and totals of at least the whole monthly budget. Below that
  threshold, and whenever it fails, no Deployment changes.
\<close>

theorem enforcement_is_recorded:
  assumes "cluster E deps buds reps slack same"
    and "run_state (Reconcile E r ns n) w = ((res, err), w')"
    and "buds w (ns, n) = Some b" and "\<not> beingDeleted b"
  shows "deps w' = deps w \<or>
    err = None \<and> (\<exists>s. buds w' (ns, n) = Some s \<and> overBudget (stPhase (nbStatus s)) \<and>
      Fin 100 \<le> budgetPercentOf (sMonthly (nbSpec b)) (nbStatus s))"
  using cluster.Reconcile_enforced [OF assms] by blast

theorem enforcement_is_recorded_witness:
  "\<exists>w' s. run_state (Reconcile calmEnv exRec ''team'' ''budget'')
      (exCluster (exDep ''api'' (Some 3)) (exOver [] None)) = ((inAMinute, None), w') \<and>
    memDeps w' (''team'', ''api'') \<noteq> Some (exDep ''api'' (Some 3)) \<and>
    memBuds w' (''team'', ''budget'') = Some s \<and> overBudget (stPhase (nbStatus s))"
proof -
  let ?w = "exCluster (exDep ''api'' (Some 3)) (exOver [] None)"
  obtain w' d where run: "run_state (Reconcile calmEnv exRec ''team'' ''budget'') ?w = ((inAMinute, None), w')"
    and d: "memDeps w' (''team'', ''api'') = Some d" "stopped d" using exTick_stopped by blast
  from d(2) have new: "d \<noteq> exDep ''api'' (Some 3)"
    by (auto simp: stopped_def exDep_def IsScaledDownByOperator_def)
  then have "memDeps w' \<noteq> memDeps ?w" using d(1) by (auto simp: fun_eq_iff)
  with enforcement_is_recorded [OF calmc.cluster_axioms run, of "exOver [] None"]
  have "\<exists>s. memBuds w' (''team'', ''budget'') = Some s \<and> overBudget (stPhase (nbStatus s))" by auto
  with run d(1) new show ?thesis by auto
qed

text \<open>
  C24. A reconciliation for a live budget posts at most one message, only with a webhook
  configured and after the status was stored, and only when the stored phase differs from
  the one before; the message names that phase and the stored percentage.
\<close>

theorem one_message_per_change:
  assumes "cluster E deps buds reps slack same"
    and "run_state (Reconcile E r ns n) w = ((res, err), w')"
    and "buds w (ns, n) = Some b" and "\<not> beingDeleted b"
  shows "slack w' = slack w \<or>
    rSlackWebhookURL r \<noteq> [] \<and> err = None \<and>
    (\<exists>s names. buds w' (ns, n) = Some s \<and> stPhase (nbStatus s) \<noteq> stPhase (nbStatus b) \<and>
      slack w' = slack w @ [BuildMessage ns (stPhase (nbStatus s)) (stBudgetPercent (nbStatus s)) names])"
  using cluster.Reconcile_slack [OF assms] by blast

theorem one_message_per_change_witness:
  "length (mSlack (snd (run_state (Reconcile memEnv exRec ''team'' ''budget'')
      (exCluster (exDep ''api'' (Some 3)) (exOver [] None))))) \<le> 1"
proof -
  let ?w = "exCluster (exDep ''api'' (Some 3)) (exOver [] None)"
  obtain res err w' where run: "run_state (Reconcile memEnv exRec ''team'' ''budget'') ?w = ((res, err), w')"
    by (metis prod.collapse)
  from one_message_per_change [OF memc.cluster_axioms run, of "exOver [] None"]
  have "length (mSlack w') \<le> 1" by auto
  with run show ?thesis by simp
qed

text \<open>
  C7. An invariant of the stored budgets, kept by every reconciliation on every path, errors
  and lost answers included: a phase that is stored is the phase of the totals stored with
  it, the two conditions restate the stored percentage, and no condition type occurs twice.
\<close>

theorem stored_status_invariant:
  assumes "cluster E deps buds reps slack same"
    and "run_state (Reconcile E r ns n) w = ((res, err), w')" and "budgetsOk (buds w)"
  shows "budgetsOk (buds w')"
  by (rule cluster.Reconcile_budgets [OF assms])

theorem stored_status_invariant_witness:
  "budgetsOk (memBuds (snd (run_state (Reconcile memEnv exRec ''team'' ''budget'')
      (exCluster (exDep ''api'' (Some 3)) (exOver [] None)))))"
proof -
  let ?w = "exCluster (exDep ''api'' (Some 3)) (exOver [] None)"
  obtain res err w' where run: "run_state (Reconcile memEnv exRec ''team'' ''budget'') ?w = ((res, err), w')"
    by (metis prod.collapse)
  from stored_status_invariant [OF memc.cluster_axioms run exOver_budgets] run show ?thesis by simp
qed

text \<open>
  C25. The accumulated usage is reset, to zero from this instant on and with nothing else of
  the budget changed, only when it is the first of a month and the accumulation began in
  another month, and only once the cost report of the month before the clock's is stored.
  On any other day, and within the month, the roll-over does nothing at all. (The report is
  of the month before the clock's also where the accumulation began earlier.)
\<close>

theorem report_before_reset:
  assumes "cluster E deps buds reps slack same"
    and "run_state (rolloverMonth E r now b) w = (b', w')"
  defines "due \<equiv> dayOf now = 1 \<and> (\<exists>t. parseRFC3339 (acSince (stAccumulated (nbStatus b))) = Some t \<and>
    (yearOf t, monthOf t) \<noteq> (yearOf now, monthOf now))"
  shows "(\<not> due \<longrightarrow> b' = b \<and> w' = w) \<and>
    (b' \<noteq> b \<longrightarrow> b' = b\<lparr>nbStatus := nbStatus b\<lparr>stAccumulated :=
        \<lparr>acCoreHours = ''0'', acGiBHours = ''0'', acSince = formatRFC3339 now\<rparr>\<rparr>\<rparr> \<and>
      (\<exists>clock w1 start stop. run_state (eNow E) w = (clock, w1) \<and> lastMonth clock start stop \<and>
        reps w' (nbNamespace b, nbNamespace b @ ''-'' @ formatYM start) \<noteq> None))"
proof (intro conjI impI)
  assume "\<not> due"
  then have "\<not> monthEnded now (acSince (stAccumulated (nbStatus b)))"
    by (auto simp: due_def monthEnded_def split: option.splits)
  with assms(2) show "b' = b" and "w' = w" by (simp_all add: rolloverMonth_def)
next
  assume "b' \<noteq> b"
  with cluster.rollover_result [OF assms(1,2)] obtain t w1
    where reset: "b' = resetAccumulated now b" and now: "run_state (eNow E) w = (t, w1)"
      and rep: "reps w' (reportKey (nbNamespace b) t) \<noteq> None" by auto
  show "b' = b\<lparr>nbStatus := nbStatus b\<lparr>stAccumulated :=
      \<lparr>acCoreHours = ''0'', acGiBHours = ''0'', acSince = formatRFC3339 now\<rparr>\<rparr>\<rparr>"
    unfolding reset by (simp add: resetAccumulated_def updAccumulated_def)
  show "\<exists>clock w1 start stop. run_state (eNow E) w = (clock, w1) \<and> lastMonth clock start stop \<and>
      reps w' (nbNamespace b, nbNamespace b @ ''-'' @ formatYM start) \<noteq> None"
    using now rep lastMonth_code [of t] by (auto simp: reportKey_def reportName_def)
qed

text \<open>The first of February, a budget that has accumulated since January, and the report of January.\<close>

definition exFirst :: gotime where
  "exFirst = \<lparr>tsec = 1769904000, tnsec = 0, tzoff = 0\<rparr>"

definition exJanuary :: "labelSel NamespaceBudget" where
  "exJanuary = updAccumulated (\<lambda>a. a\<lparr>acSince := ''2026-01-01T00:00:00Z''\<rparr>) (exOver [] None)"

definition exReported :: mem where
  "exReported = (exCluster (exDep ''api'' (Some 3)) exJanuary)\<lparr>mClock := exFirst,
     mReps := [mkReport (''team'', ''team-2026-01'') emptyReportStatus]\<rparr>"

theorem report_before_reset_witness:
  "\<exists>b' w'. run_state (rolloverMonth memEnv exRec exFirst exJanuary) exReported = (b', w') \<and>
    acCoreHours (stAccumulated (nbStatus exJanuary)) = ''150'' \<and>
    acCoreHours (stAccumulated (nbStatus b')) = ''0'' \<and>
    memReps w' (''team'', ''team-2026-01'') \<noteq> None"
proof -
  have b: "acCoreHours (stAccumulated (nbStatus exJanuary)) = ''150''" "nbNamespace exJanuary = ''team''"
    "acSince (stAccumulated (nbStatus exJanuary)) = ''2026-01-01T00:00:00Z''"
    by (simp_all add: exJanuary_def updAccumulated_def exUsed_def exOver_def)
  have due: "monthEnded exFirst ''2026-01-01T00:00:00Z''" by code_simp
  have ref: "formatYM (firstOfLastMonth exFirst) = ''2026-01''" by code_simp
  then have name: "reportName ''team'' (firstOfLastMonth exFirst) = ''team-2026-01''" by (simp add: reportName_def)
  have w: "mClock exReported = exFirst" "memReps exReported (''team'', ''team-2026-01'') \<noteq> None"
    by (simp_all add: exReported_def memReps_def mkReport_def repKey_def)
  obtain b' w' where run: "run_state (rolloverMonth memEnv exRec exFirst exJanuary) exReported = (b', w')"
    by (cases "run_state (rolloverMonth memEnv exRec exFirst exJanuary) exReported") auto
  then have "b' = resetAccumulated exFirst exJanuary"
    using due w by (auto simp: rolloverMonth_def b maybeGenerateReport_def Generate_def name lookupOr404_def)
  then have zero: "acCoreHours (stAccumulated (nbStatus b')) = ''0''"
    by (simp add: resetAccumulated_def updAccumulated_def)
  then have "b' \<noteq> exJanuary" using b(1) by auto
  with report_before_reset [OF memc.cluster_axioms run] obtain clock w1 start stop
    where "run_state (eNow memEnv) exReported = (clock, w1)" and m: "lastMonth clock start stop"
      and rep: "memReps w' (''team'', ''team'' @ ''-'' @ formatYM start) \<noteq> None"
    unfolding b by blast
  then have "formatYM start = ''2026-01''" using lastMonth_period [OF m] w ref by simp
  with run zero rep b(1) show ?thesis by simp
qed

text \<open>
  C26. The actions a budget lists for its thresholds are never consulted: with any other list
  in its specification a tick makes the same calls and answers the same.
\<close>

theorem actions_never_consulted:
  "governTick E r ns prev (withActions a b) = governTick E r ns prev b"
proof (rule state.expand, rule ext)
  fix w
  have "run_state (applyPhase E r ns prev ((withActions a b)\<lparr>nbStatus := st\<rparr>)) v =
      run_state (applyPhase E r ns prev (b\<lparr>nbStatus := st\<rparr>)) v" for st v
    by (simp add: applyPhase_actions)
  then show "run_state (governTick E r ns prev (withActions a b)) w = run_state (governTick E r ns prev b) w"
    by (auto simp: governTick_def split: prod.splits sum.splits)
qed

text \<open>
  C10. A budget that is being deleted is not written (its finalizer stays, so it stays)
  before every Deployment of its namespace is free of the operator's mark.
\<close>

theorem deletion_restores_first:
  assumes "cluster E deps buds reps slack same"
    and "run_state (Reconcile E r ns n) w = ((res, err), w')"
    and "buds w (ns, n) = Some b" and "beingDeleted b"
  shows "buds w' = buds w \<or> (\<forall>m d. deps w' (ns, m) = Some d \<longrightarrow> \<not> IsScaledDownByOperator d)"
  by (rule cluster.Reconcile_deletion [OF assms])

theorem deletion_restores_first_witness:
  "\<exists>w'. w' = snd (run_state (Reconcile memEnv exRec ''team'' ''budget'')
      (exCluster (exParked (Some ''3'')) (exOver [] (Some exNoon)))) \<and>
    (memBuds w' (''team'', ''budget'') \<noteq> None \<or>
     (\<forall>m d. memDeps w' (''team'', m) = Some d \<longrightarrow> \<not> IsScaledDownByOperator d))"
proof -
  let ?w = "exCluster (exParked (Some ''3'')) (exOver [] (Some exNoon))"
  obtain res err w' where run: "run_state (Reconcile memEnv exRec ''team'' ''budget'') ?w = ((res, err), w')"
    by (metis prod.collapse)
  from deletion_restores_first [OF memc.cluster_axioms run, of "exOver [] (Some exNoon)"]
  have "memBuds w' (''team'', ''budget'') \<noteq> None \<or>
     (\<forall>m d. memDeps w' (''team'', m) = Some d \<longrightarrow> \<not> IsScaledDownByOperator d)"
    by auto
  with run show ?thesis by simp
qed

text \<open>
  C11. One marked Deployment whose recorded replica count is missing or unreadable blocks the
  deletion of the budget of its namespace for good: every reconciliation answers an error
  and the budget keeps its finalizer.
\<close>

theorem deletion_blocked:
  assumes "cluster E deps buds reps slack same"
    and "run_state (Reconcile E r ns n) w = ((res, err), w')"
    and "buds w (ns, n) = Some b" and "beingDeleted b"
    and "eContainsFinalizer E (nbFinalizers b) namespaceBudgetFinalizer"
    and "deps w (ns, m) = Some d" and "IsScaledDownByOperator d" and "intended d = None"
  shows "err \<noteq> None \<and> buds w' = buds w"
  by (rule cluster.Reconcile_stuck [OF assms])

theorem deletion_blocked_witness:
  "\<exists>res e w'. run_state (Reconcile memEnv exRec ''team'' ''budget'')
      (exCluster (exParked None) (exOver [] (Some exNoon))) = ((res, Some e), w') \<and>
    memBuds w' = [(''team'', ''budget'') \<mapsto> exOver [] (Some exNoon)]"
proof -
  let ?w = "exCluster (exParked None) (exOver [] (Some exNoon))"
  obtain res err w' where run: "run_state (Reconcile memEnv exRec ''team'' ''budget'') ?w = ((res, err), w')"
    by (metis prod.collapse)
  have "err \<noteq> None \<and> memBuds w' = memBuds ?w"
    by (rule deletion_blocked [OF memc.cluster_axioms run, of "exOver [] (Some exNoon)" "''api''" "exParked None"])
       simp_all
  with run show ?thesis by auto
qed

text \<open>
  C9. With an API server that is up and usable records, one reconciliation of a deleted
  budget gives every Deployment of the namespace back to its owner: unmarked, at the
  replica count that was intended for it. The only error left is that of a write of the
  budget itself.
\<close>

theorem deletion_restores_all:
  assumes "cluster E deps buds reps slack same" and "reliable_api E deps"
    and "run_state (Reconcile E r ns n) w = ((res, err), w')"
    and "fst (run_state (eGetBudget E ns n) w) = Inr b" and "beingDeleted b"
    and "eContainsFinalizer E (nbFinalizers b) namespaceBudgetFinalizer"
    and "\<And>m d. deps w (ns, m) = Some d \<Longrightarrow> IsScaledDownByOperator d \<Longrightarrow> intended d \<noteq> None"
    and "deps w (ns, m) = Some d"
  shows "(\<exists>d'. deps w' (ns, m) = Some d' \<and> \<not> IsScaledDownByOperator d' \<and> sameIntent d d') \<and>
    (\<forall>e. err = Some e \<longrightarrow> (\<exists>k. e = KubeErr k))"
  by (rule cluster.Reconcile_restores [OF assms])

theorem deletion_restores_all_witness:
  "\<exists>d'. memDeps (snd (run_state (Reconcile calmEnv exRec ''team'' ''budget'')
      (exCluster (exParked (Some ''3'')) (exOver [] (Some exNoon))))) (''team'', ''api'') = Some d' \<and>
    \<not> IsScaledDownByOperator d' \<and> dReplicas d' \<noteq> Some 0"
proof -
  let ?b = "exOver [] (Some exNoon)" and ?d = "exParked (Some ''3'')"
  let ?w = "exCluster ?d ?b"
  obtain res err w' where run: "run_state (Reconcile calmEnv exRec ''team'' ''budget'') ?w = ((res, err), w')"
    by (metis prod.collapse)
  have "(\<exists>d'. memDeps w' (''team'', ''api'') = Some d' \<and> \<not> IsScaledDownByOperator d' \<and> sameIntent ?d d') \<and>
    (\<forall>e. err = Some e \<longrightarrow> (\<exists>k. e = KubeErr k))"
  proof (rule deletion_restores_all [OF calmc.cluster_axioms calm.reliable_api_axioms run, of ?b])
    show "eContainsFinalizer calmEnv (nbFinalizers ?b) namespaceBudgetFinalizer"
      by (simp add: calmEnv_def)
  qed (auto simp: calm_rest lookupOr404_def split: if_splits)
  then obtain d' where d': "memDeps w' (''team'', ''api'') = Some d'" "\<not> IsScaledDownByOperator d'"
    "intended d' = Some 3" by (auto simp: sameIntent_def)
  then have "originalReplicas d' = 3" by (simp add: intended_def IsScaledDown_annOf)
  then have "dReplicas d' \<noteq> Some 0" by (auto simp: originalReplicas_def)
  with run d' show ?thesis by auto
qed

text \<open>
  C4. At the hard limit the whole namespace is stopped: with the API server up, a tick that
  answers no error and stored the Suspended phase leaves every Deployment of the namespace
  marked or at zero replicas, or excluded by name or labels.
\<close>

theorem hard_limit_enforced:
  assumes "cluster E deps buds reps slack same" and "reliable_api E deps"
    and "run_state (Reconcile E r ns n) w = ((inAMinute, None), w')"
    and "buds w (ns, n) = Some b" and "\<not> beingDeleted b"
    and "buds w' (ns, n) = Some s" and "s \<noteq> b" and "stPhase (nbStatus s) = phaseSuspended"
    and "deps w' (ns, m) = Some d"
  shows "stopped d \<or> IsExcluded m (sExclusions (nbSpec b)) \<or> IsLabelExcluded E d (sExclusions (nbSpec b))"
  by (rule cluster.Reconcile_suspends [OF assms])

theorem hard_limit_enforced_witness:
  "\<exists>d. memDeps (snd (run_state (Reconcile calmEnv exRec ''team'' ''budget'')
      (exCluster (exDep ''api'' (Some 3)) (exOver [] None)))) (''team'', ''api'') = Some d \<and>
    stopped d \<and> intended d = Some 3"
proof -
  let ?w = "exCluster (exDep ''api'' (Some 3)) (exOver [] None)"
  obtain w' s where run: "run_state (Reconcile calmEnv exRec ''team'' ''budget'') ?w = ((inAMinute, None), w')"
    and s: "memBuds w' (''team'', ''budget'') = Some s" "stPhase (nbStatus s) = phaseSuspended"
    using exTick by blast
  have k: "memDeps ?w (''team'', ''api'') = Some (exDep ''api'' (Some 3))" by simp
  from depsSafe_at [OF keepsD [OF calmc.Reconcile_safe run] k]
  obtain d where d: "memDeps w' (''team'', ''api'') = Some d" "sameIntent (exDep ''api'' (Some 3)) d" .
  have new: "s \<noteq> exOver [] None" using s(2) by (auto simp: exUsed_def exStatus_def phaseSuspended_def)
  have b: "memBuds ?w (''team'', ''budget'') = Some (exOver [] None)" by simp
  from hard_limit_enforced [OF calmc.cluster_axioms calm.reliable_api_axioms run, OF b exOver_simps(4) s(1) new s(2) d(1)]
  have "stopped d" unfolding exOver_simps(1) by simp
  moreover have "intended (exDep ''api'' (Some 3)) = Some 3"
    by (simp add: intended_def annOf_def exDep_def originalReplicas_def)
  ultimately have "stopped d \<and> intended d = Some 3" using d(2) by (simp add: sameIntent_def)
  with d(1) run show ?thesis by (metis snd_conv)
qed

text \<open>
  C12. A deletion comes to an end: when a reconciliation of a budget that is being deleted and
  carries the operator's finalizer answers no error, no Deployment of its namespace is marked
  and the finalizer is off the budget, which is gone if that was its only one and keeps the
  others if not. The next reconciliation under its name answers the empty result and
  changes no Deployment, no budget and no message.
\<close>

theorem deletion_terminates:
  assumes "cluster E deps buds reps slack same" and "go_runtime E"
    and "run_state (Reconcile E r ns n) w = ((res, None), w1)"
    and "buds w (ns, n) = Some b" and "beingDeleted b"
    and "namespaceBudgetFinalizer \<in> set (nbFinalizers b)"
    and "run_state (Reconcile E r ns n) w1 = ((res2, err2), w2)"
  shows "(if set (nbFinalizers b) = {namespaceBudgetFinalizer} then buds w1 (ns, n) = None
     else \<exists>b'. buds w1 (ns, n) = Some b' \<and> beingDeleted b' \<and>
       set (nbFinalizers b') = set (nbFinalizers b) - {namespaceBudgetFinalizer}) \<and>
    (\<forall>m d. deps w1 (ns, m) = Some d \<longrightarrow> \<not> IsScaledDownByOperator d) \<and>
    deps w2 = deps w1 \<and> buds w2 = buds w1 \<and> slack w2 = slack w1 \<and> res2 = noResult \<and>
    (buds w1 (ns, n) = None \<longrightarrow> reps w2 = reps w1)"
proof -
  note done1 = cluster.Reconcile_deleted [OF assms(1-6)]
  then have "beingDeleted b' \<and> namespaceBudgetFinalizer \<notin> set (nbFinalizers b')"
    if "buds w1 (ns, n) = Some b'" for b'
    using that by (auto split: if_splits)
  from cluster.Reconcile_over [OF assms(1,2,7) this] done1 show ?thesis by blast
qed

theorem deletion_terminates_witness:
  "\<exists>w1. run_state (Reconcile memEnv exRec ''team'' ''budget'')
      (exCluster (exDep ''api'' (Some 3)) (exOver [] (Some exNoon))) = ((noResult, None), w1) \<and>
    memBuds w1 (''team'', ''budget'') = None \<and>
    fst (fst (run_state (Reconcile memEnv exRec ''team'' ''budget'') w1)) = noResult"
proof -
  let ?b = "exOver [] (Some exNoon)"
  let ?w = "exCluster (exDep ''api'' (Some 3)) ?b"
  let ?b1 = "initSince exNoon ?b"
  have quiet: "\<not> monthEnded exNoon (acSince (stAccumulated (nbStatus ?b1)))" by code_simp
  have b1: "nbFinalizers ?b1 = [namespaceBudgetFinalizer]" "beingDeleted ?b1" "nbNamespace ?b1 = ''team''"
    "nbName ?b1 = ''budget''" "nbResourceVersion ?b1 = nbResourceVersion ?b"
    by (simp_all add: initSince_def updAccumulated_def)
       (simp_all add: beingDeleted_def isZeroTime_def zeroTime_def exNoon_def exOver_def exBudget_def)
  have w: "mClock ?w = exNoon" "mFaults ?w = []" "mDeps ?w = [exDep ''api'' (Some 3)]"
    by (simp_all add: exCluster_def exMem_def)
  have once: "fst (run_state (Reconcile memEnv exRec ''team'' ''budget'') ?w) = (noResult, None)"
    using quiet b1
    by (simp add: Reconcile_def rolloverMonth_def lookupOr404_def w handleDeletion_def cleanup_def
        memList_def map_filter_simps memUpdate_def written_def hdFault_def IsScaledDownByOperator_def
        budKey_def)
  then obtain w1 where run: "run_state (Reconcile memEnv exRec ''team'' ''budget'') ?w = ((noResult, None), w1)"
    by (metis prod.collapse)
  obtain res2 err2 w2 where again: "run_state (Reconcile memEnv exRec ''team'' ''budget'') w1 = ((res2, err2), w2)"
    by (metis prod.collapse)
  have "set (nbFinalizers ?b) = {namespaceBudgetFinalizer}" by simp
  moreover have "(if set (nbFinalizers ?b) = {namespaceBudgetFinalizer} then memBuds w1 (''team'', ''budget'') = None
     else \<exists>b'. memBuds w1 (''team'', ''budget'') = Some b' \<and> beingDeleted b' \<and>
       set (nbFinalizers b') = set (nbFinalizers ?b) - {namespaceBudgetFinalizer}) \<and>
    (\<forall>m d. memDeps w1 (''team'', m) = Some d \<longrightarrow> \<not> IsScaledDownByOperator d) \<and>
    memDeps w2 = memDeps w1 \<and> memBuds w2 = memBuds w1 \<and> mSlack w2 = mSlack w1 \<and> res2 = noResult \<and>
    (memBuds w1 (''team'', ''budget'') = None \<longrightarrow> memReps w2 = memReps w1)"
    by (rule deletion_terminates [OF memc.cluster_axioms memrt.go_runtime_axioms run _ _ _ again]) simp_all
  ultimately have "memBuds w1 (''team'', ''budget'') = None" "res2 = noResult" by simp_all
  with run again show ?thesis by auto
qed

end
