(* ===== verification/StoredTypes.thy ===== *)
theory StoredTypes
  imports Guarantees
begin

text \<open>
  The type of the stored statuses: the texts a budget keeps parse as what they stand for,
  reconciliations keep it so, and a status they write has no text missing.
\<close>

section \<open>Statuses that were kept or filled\<close>

definition statusesFilled ::
  "(objkey \<rightharpoonup> 'sel NamespaceBudget) \<Rightarrow> (objkey \<rightharpoonup> 'sel NamespaceBudget) \<Rightarrow> bool" where
  "statusesFilled m m' \<longleftrightarrow> (\<forall>k s. m' k = Some s \<longrightarrow>
     (\<exists>b. m k = Some b \<and> nbStatus s = nbStatus b) \<or> statusFull (nbStatus s))"

lemma statusesFilled_refl [simp]: "statusesFilled m m"
  by (auto simp: statusesFilled_def)

lemma statusesFilled_updated: "m' = m \<or> budgetUpdated m nb m' \<Longrightarrow> statusesFilled m m'"
  by (auto simp: statusesFilled_def budgetUpdated_def split: if_splits)

lemma statusesFilled_stored:
  "statusStored k st m m' \<Longrightarrow> statusFull (wireStatus st) \<Longrightarrow> statusesFilled m m'"
  unfolding statusesFilled_def statusStored_def by (fastforce split: if_splits)

context cluster
begin

lemma handleDeletion_filled:
  assumes "run_state (handleDeletion E b) w = ((res, err), w')"
  shows "statusesFilled (buds w) (buds w')"
proof (cases "eContainsFinalizer E (nbFinalizers b) namespaceBudgetFinalizer")
  case False
  with assms show ?thesis by (simp add: handleDeletion_def)
next
  case True
  with assms show ?thesis
  proof (cases rule: handleDeletion_result)
    case (cleaned u w1)
    from statusesFilled_updated [OF update_any [OF cleaned(5)]] cleaned(3) show ?thesis by simp
  qed simp
qed

lemma registerFinalizer_filled:
  assumes "run_state (registerFinalizer E b) w = ((res, err), w')"
  shows "statusesFilled (buds w) (buds w')"
proof -
  let ?b = "b\<lparr>nbFinalizers := eAddFinalizer E (nbFinalizers b) namespaceBudgetFinalizer\<rparr>"
  obtain u w1 where u: "run_state (eUpdateBudget E ?b) w = (u, w1)"
    by (cases "run_state (eUpdateBudget E ?b) w") auto
  with assms have "w' = w1" by (auto simp: registerFinalizer_def split: option.splits)
  with statusesFilled_updated [OF update_any [OF u]] show ?thesis by simp
qed

lemma governTick_filled:
  assumes "run_state (governTick E r ns prev b) w = ((res, err), w')"
    and "statusTyped (nbStatus b)" and "parseRFC3339 (acSince (stAccumulated (nbStatus b))) \<noteq> None"
  shows "statusesFilled (buds w) (buds w')"
  using assms(1)
proof (cases rule: governTick_steps)
  case quiet
  then show ?thesis by (simp add: same_def)
next
  case (applied t cs ms w1)
  from applyPhase_stores [OF applied(2)] obtain now p n "is" where
    "statusStored (nbNamespace b, nbName b) (phaseStatus now (determinePhase p) n
      ((accumulate t cs ms (nbStatus b))\<lparr>stIdleWorkloads := is\<rparr>)) (buds w1) (buds w')"
    by auto
  from statusesFilled_stored [OF this tick_full [OF assms(2,3) applied(3,4)]] applied(1)
  show ?thesis by (simp add: same_def)
qed

lemma Reconcile_filled:
  assumes "run_state (Reconcile E r ns n) w = ((res, err), w')"
    and "printable (fst (run_state (eNow E) (snd (run_state (eGetBudget E ns n) w))))"
    and "\<And>b. buds w (ns, n) = Some b \<Longrightarrow> statusTyped (nbStatus b)"
  shows "statusesFilled (buds w) (buds w')"
  using assms(1)
proof (cases rule: Reconcile_steps)
  case unread
  then show ?thesis by (simp add: same_def)
next
  case (read b b1 now w0 w1)
  from read(11) assms(2) have now: "printable now" by simp
  note b = initSince_typed [OF assms(3) [OF read(1)] now]
  from rollover_result [OF read(8)] b resetAccumulated_typed [OF b(1) now]
  have b1: "statusTyped (nbStatus b1)" "parseRFC3339 (acSince (stAccumulated (nbStatus b1))) \<noteq> None" by auto
  from read(10) show ?thesis
    using handleDeletion_filled [of b1 w1] registerFinalizer_filled [of b1 w1]
      governTick_filled [OF _ b1, of r ns _ w1]
    by (auto simp: read(6) split: if_splits)
qed

end

section \<open>Properties\<close>

text \<open>
  C8. The stored statuses are typed, and stay so: where every number, instant, phase and
  condition kept as text is empty or parses as what it stands for, a reconciliation whose
  clock shows a year of four digits leaves it that way, on every path and after every failed
  call; and a status it wrote has none of them empty, so the parse errors the code drops
  never occur on its own texts.
\<close>

theorem stored_status_typed:
  assumes "cluster E deps buds reps slack same"
    and "run_state (Reconcile E r ns n) w = ((res, err), w')"
    and "printable (fst (run_state (eNow E) (snd (run_state (eGetBudget E ns n) w))))"
    and "\<forall>k b. buds w k = Some b \<longrightarrow> statusTyped (nbStatus b)"
    and "buds w' k = Some s"
  shows "statusTyped (nbStatus s) \<and>
    ((\<exists>b. buds w k = Some b \<and> nbStatus s = nbStatus b) \<or> statusFull (nbStatus s))"
proof -
  have "statusesFilled (buds w) (buds w')"
    by (rule cluster.Reconcile_filled [OF assms(1-3)]) (use assms(4) in blast)
  then have "(\<exists>b. buds w k = Some b \<and> nbStatus s = nbStatus b) \<or> statusFull (nbStatus s)"
    using assms(5) unfolding statusesFilled_def by blast
  moreover from this have "statusTyped (nbStatus s)" by (metis assms(4) statusFull_typed)
  ultimately show ?thesis by blast
qed

theorem stored_status_typed_witness:
  "\<exists>w' s. run_state (Reconcile calmEnv exRec ''team'' ''budget'')
      (exCluster (exDep ''api'' (Some 3)) (exOver [] None)) = ((inAMinute, None), w') \<and>
    memBuds w' (''team'', ''budget'') = Some s \<and> statusFull (nbStatus s)"
proof -
  let ?w = "exCluster (exDep ''api'' (Some 3)) (exOver [] None)"
  obtain w' s where run: "run_state (Reconcile calmEnv exRec ''team'' ''budget'') ?w = ((inAMinute, None), w')"
    and s: "memBuds w' (''team'', ''budget'') = Some s" "stPhase (nbStatus s) = phaseSuspended"
    using exTick by blast
  have "mClock ?w = exNoon" by (simp add: exCluster_def exMem_def)
  moreover have "printable exNoon" by code_simp
  ultimately have clock: "printable (fst (run_state (eNow calmEnv)
      (snd (run_state (eGetBudget calmEnv ''team'' ''budget'') ?w))))"
    by (simp add: calm_rest)
  have "statusTyped (exUsed ''150'' ''0'')" by code_simp
  then have typed: "\<forall>k b. memBuds ?w k = Some b \<longrightarrow> statusTyped (nbStatus b)" by simp
  have "nbStatus s \<noteq> nbStatus b" if "memBuds ?w (''team'', ''budget'') = Some b" for b
    using that s(2) by (auto simp: exUsed_def exStatus_def phaseSuspended_def)
  with stored_status_typed [OF calmc.cluster_axioms run, OF clock typed s(1)] have "statusFull (nbStatus s)" by blast
  with run s(1) show ?thesis by blast
qed

end
