(* ===== verification/Accuracy.thy ===== *)
theory Accuracy
  imports Governance
begin

text \<open>
  How far the running totals are from the usage that was sampled: floats, six decimals and
  times stored in whole seconds, over any number of ticks.
\<close>

section \<open>The error of one operation\<close>

lemma divide_Fin: "0 \<le> a \<Longrightarrow> 0 < b \<Longrightarrow> Fin a / Fin b = f64_of (a / b)"
  by (auto simp: divide_f64_def zeroS_def isZeroF_iff)

text \<open>An interval of at most a thousand hours, in hours.\<close>

definition hour :: int where
  "hour = 3600000000000"

lemma hoursF_near:
  assumes "0 \<le> d" and "d \<le> 1000 * hour"
  obtains h where "hoursF d = Fin h" and "0 \<le> h" and "\<bar>h - of_int d / of_int hour\<bar> \<le> pow2 (- 43)"
proof -
  let ?q = "d div hour" and ?m = "d mod hour"
  have q: "0 \<le> ?q" "?q \<le> 1000" and m: "0 \<le> ?m" "?m < hour"
    using assms by (simp_all add: hour_def pos_imp_zdiv_nonneg_iff)
  have ints: "i2f ?q = Fin (of_int ?q)" "i2f ?m = Fin (of_int ?m)" "i2f hour = Fin (of_int hour)"
    using q m by (simp_all add: i2f_exact hour_def)
  have split: "d sdiv hour = ?q" "d smod hour = ?m"
    using assms(1) by (simp_all add: signed_divide_int_def signed_modulo_int_def sgn_if hour_def)
  have frac: "of_int ?m / of_int hour < pow2 0" using m by (simp add: hour_def pow2_def)
  obtain v where v: "f64_of (of_int ?m / of_int hour) = Fin v" "0 \<le> v"
    "\<bar>v - of_int ?m / of_int hour\<bar> \<le> pow2 (0 - 54)"
    by (rule f64_near [OF _ frac]) (use m in \<open>simp_all add: hour_def\<close>)
  have small: "pow2 (0 - 54) \<le> (1 :: rat)" by (simp add: pow2_def)
  have "of_int ?q \<le> (1000 :: rat)" using q(2) by (simp add: of_int_le_numeral_iff)
  with v(3) frac small have "of_int ?q + v < pow2 10" by (simp add: pow2_def [of 10] pow2_def [of 0])
  then obtain h where h: "f64_of (of_int ?q + v) = Fin h" "0 \<le> h" "\<bar>h - (of_int ?q + v)\<bar> \<le> pow2 (10 - 54)"
    by (rule f64_near [rotated]) (use q v in simp_all)
  have "hoursF d = Fin h"
    using h(1) v(1) ints m split
    by (simp add: hoursF_def unitsF_def plus_finite divide_Fin hour_def)
  moreover have "of_int d / of_int hour = of_int ?q + (of_int ?m / of_int hour :: rat)"
  proof -
    have "of_int d = of_int ?q * of_int hour + (of_int ?m :: rat)"
      unfolding of_int_mult [symmetric] of_int_add [symmetric] by simp
    then show ?thesis by (simp add: hour_def field_simps)
  qed
  moreover have "pow2 (10 - 54) + pow2 (0 - 54) \<le> pow2 (- 43)" by (simp add: pow2_def)
  ultimately show ?thesis using h(2,3) v(3) by (intro that [of h]) linarith+
qed

section \<open>The error of one tick\<close>

lemma fmtF_near:
  assumes "0 \<le> r"
  shows "fmtF 6 (Fin r) = storedTotal (nat (rhe (r * 10 ^ 6)))"
    and "\<bar>of_nat (nat (rhe (r * 10 ^ 6))) / 10 ^ 6 - r\<bar> \<le> 1 / (2 * 10 ^ 6)"
proof -
  show "fmtF 6 (Fin r) = storedTotal (nat (rhe (r * 10 ^ 6)))"
    using assms by (simp add: storedTotal_def)
  have "0 \<le> rhe (r * 10 ^ 6)" using assms by (intro rhe_nonneg) simp
  then have "of_nat (nat (rhe (r * 10 ^ 6))) = (of_int (rhe (r * 10 ^ 6)) :: rat)" by simp
  with rhe_error [of "r * 10 ^ 6"]
  show "\<bar>of_nat (nat (rhe (r * 10 ^ 6))) / 10 ^ 6 - r\<bar> \<le> 1 / (2 * 10 ^ 6)"
    by (simp add: abs_le_iff field_simps)
qed

text \<open>
  Below \<open>2^30\<close> core-hours and \<open>2^16\<close> cores one tick is off by less than a millionth of a
  core-hour: half of it is the six decimals, the rest the floats.
\<close>

lemma tick_near:
  assumes "of_nat k / 10 ^ 6 < pow2 30" and "0 \<le> u" and "u < pow2 16" and "0 \<le> d" and "d \<le> 1000 * hour"
  obtains k' where "fmtF 6 (parseF (storedTotal k) + Fin u * hoursF d) = storedTotal k'"
    and "\<bar>of_nat k' / 10 ^ 6 - (of_nat k / 10 ^ 6 + u * (of_int d / of_int hour))\<bar> \<le> 1 / 10 ^ 6"
proof -
  let ?T = "of_nat k / 10 ^ 6 :: rat" and ?x = "of_int d / of_int hour :: rat"
  have x: "0 \<le> ?x" "?x \<le> 1000"
    using assms(4,5) of_int_le_iff [of d "1000 * hour", where ?'a = rat]
    by (simp_all add: hour_def pos_divide_le_eq)
  obtain t where t: "f64_of ?T = Fin t" "0 \<le> t" "\<bar>t - ?T\<bar> \<le> pow2 (30 - 54)"
    by (rule f64_near [OF _ assms(1)]) simp_all
  obtain h where h: "hoursF d = Fin h" "0 \<le> h" "\<bar>h - ?x\<bar> \<le> pow2 (- 43)"
    using hoursF_near [OF assms(4,5)] .
  have "pow2 (- 43) \<le> (1 :: rat)" by (simp add: pow2_def)
  with h(3) x have h2: "h \<le> 1001" by linarith
  have ux: "\<bar>u * h - u * ?x\<bar> \<le> pow2 (- 27)"
  proof -
    have "\<bar>u * h - u * ?x\<bar> = u * \<bar>h - ?x\<bar>"
      unfolding right_diff_distrib [symmetric] abs_mult using assms(2) by simp
    also have "\<dots> \<le> pow2 16 * pow2 (- 43)" using assms(2,3) h(3) by (intro mult_mono) simp_all
    finally show ?thesis by (simp flip: pow2_add)
  qed
  have "u * h \<le> pow2 16 * 1001" using assms(2,3) h(2) h2 by (intro mult_mono) simp_all
  also have "\<dots> < pow2 26" by (simp add: pow2_def)
  finally have uh: "u * h < pow2 26" .
  obtain p where p: "f64_of (u * h) = Fin p" "0 \<le> p" "\<bar>p - u * h\<bar> \<le> pow2 (26 - 54)"
    by (rule f64_near [OF _ uh]) (use assms(2) h(2) in simp_all)
  have "pow2 (30 - 54) + pow2 (26 - 54) + pow2 30 + pow2 26 \<le> pow2 31" by (simp add: pow2_def)
  with t(3) p(3) uh assms(1) have "t + p < pow2 31" by linarith
  then obtain s where s: "f64_of (t + p) = Fin s" "0 \<le> s" "\<bar>s - (t + p)\<bar> \<le> pow2 (31 - 54)"
    by (rule f64_near [rotated]) (use t p in simp_all)
  have "parseF (storedTotal k) + Fin u * hoursF d = Fin s"
    using t(1) h(1) p(1) s(1) times_Fin [OF assms(2) h(2)]
    by (simp add: storedTotal_def parseF_fixed plus_finite)
  with fmtF_near [OF s(2)] have
    "fmtF 6 (parseF (storedTotal k) + Fin u * hoursF d) = storedTotal (nat (rhe (s * 10 ^ 6)))"
    "\<bar>of_nat (nat (rhe (s * 10 ^ 6))) / 10 ^ 6 - s\<bar> \<le> 1 / (2 * 10 ^ 6)" by simp_all
  moreover have "pow2 (30 - 54) + pow2 (- 27) + pow2 (26 - 54) + pow2 (31 - 54) + 1 / (2 * 10 ^ 6) \<le> (1 / 10 ^ 6 :: rat)"
    by (simp add: pow2_def)
  ultimately show ?thesis
    using t(3) ux p(3) s(3) by (intro that [of "nat (rhe (s * 10 ^ 6))"]) linarith+
qed

section \<open>The error of many ticks\<close>

text \<open>
  A load is an instant and the cores (or GiB) in use since the instant before. \<open>consumed\<close> is
  what a run of loads used, in exact hours. \<open>charged\<close> is what the code charges for it: the
  time of a tick goes through the cluster, which keeps whole seconds, so the next interval
  starts at the second before it.
\<close>

definition instant :: "gotime \<Rightarrow> bool" where
  "instant t \<longleftrightarrow> 0 \<le> tsec t \<and> 0 \<le> tnsec t \<and> tnsec t < 1000000000"

definition hoursBetween :: "gotime \<Rightarrow> gotime \<Rightarrow> rat" where
  "hoursBetween a b = of_int (nanos b - nanos a) / of_int hour"

fun consumed :: "gotime \<Rightarrow> (gotime \<times> rat) list \<Rightarrow> rat" where
  "consumed prev [] = 0"
| "consumed prev ((now, u) # ls) = u * hoursBetween prev now + consumed now ls"

fun charged :: "gotime \<Rightarrow> (gotime \<times> rat) list \<Rightarrow> rat" where
  "charged prev [] = 0"
| "charged prev ((now, u) # ls) = u * hoursBetween (wireTime prev) now + charged now ls"

text \<open>A clock that does not go back, no gap of more than 999 hours, fewer than \<open>2^16\<close> cores.\<close>

fun orderly :: "gotime \<Rightarrow> (gotime \<times> rat) list \<Rightarrow> bool" where
  "orderly prev [] = True"
| "orderly prev ((now, u) # ls) \<longleftrightarrow> instant now \<and> nanos prev \<le> nanos now \<and>
     nanos now - nanos prev \<le> 999 * hour \<and> 0 \<le> u \<and> u < 2 ^ 16 \<and> orderly now ls"

text \<open>The text of a total after a run of ticks, each added to what the tick before stored.\<close>

fun totals :: "string \<Rightarrow> gotime \<Rightarrow> (gotime \<times> f64) list \<Rightarrow> string" where
  "totals s prev [] = s"
| "totals s prev ((now, x) # ls) =
     totals (fmtF 6 (parseF s + x * elapsedHours now prev)) (wireTime now) ls"

lemma instant_not_zero: "instant t \<Longrightarrow> \<not> isZeroTime (wireTime t)"
  by (simp add: instant_def isZeroTime_def wireTime_def zeroTime_def)

lemma nanos_wire: "nanos (wireTime t) = nanos t - tnsec t"
  by (simp add: nanos_def wireTime_def)

lemma hoursBetween_wire: "hoursBetween (wireTime a) b = hoursBetween a b + of_int (tnsec a) / of_int hour"
  by (simp add: hoursBetween_def nanos_wire diff_divide_distrib add_divide_distrib)

lemma charged_bounds:
  assumes "instant prev" and "orderly prev ls"
  shows "0 \<le> consumed prev ls" and "consumed prev ls \<le> charged prev ls"
    and "charged prev ls \<le> consumed prev ls + sum_list (map snd ls) / 3600"
proof -
  have "0 \<le> consumed prev ls \<and> consumed prev ls \<le> charged prev ls \<and>
      charged prev ls \<le> consumed prev ls + sum_list (map snd ls) / 3600"
    using assms
  proof (induction prev ls rule: consumed.induct)
    case (2 prev now u ls)
    then have now: "instant now" "orderly now ls" and u: "0 \<le> u" by simp_all
    have x: "0 \<le> hoursBetween prev now" using "2.prems"(2) by (simp add: hoursBetween_def hour_def)
    let ?e = "of_int (tnsec prev) / of_int hour :: rat"
    have "of_int (tnsec prev) \<le> (1000000000 :: rat)" "(0 :: rat) \<le> of_int (tnsec prev)"
      using "2.prems"(1) by (simp_all add: instant_def of_int_le_numeral_iff)
    then have e: "0 \<le> ?e" "?e \<le> 1 / 3600" by (simp_all add: hour_def pos_divide_le_eq)
    have b: "0 \<le> u * ?e" "u * ?e \<le> u * (1 / 3600)" "0 \<le> u * hoursBetween prev now"
      by (intro mult_nonneg_nonneg mult_left_mono u x e)+
    have c: "charged prev ((now, u) # ls) = u * hoursBetween prev now + u * ?e + charged now ls"
      by (simp only: charged.simps hoursBetween_wire distrib_left)
    have "sum_list (map snd ((now, u) # ls)) / 3600 = u * (1 / 3600) + sum_list (map snd ls) / 3600"
      by (simp add: add_divide_distrib)
    with "2.IH" [OF now] b c consumed.simps(2) [of prev now u ls] show ?case by linarith
  qed simp
  then show "0 \<le> consumed prev ls" "consumed prev ls \<le> charged prev ls"
    "charged prev ls \<le> consumed prev ls + sum_list (map snd ls) / 3600" by simp_all
qed

lemma elapsed_near:
  assumes "instant prev" and "nanos prev \<le> nanos now" and "nanos now - nanos prev \<le> 999 * hour"
  defines "d \<equiv> nanos now - nanos (wireTime prev)"
  shows "elapsedHours now (wireTime prev) = hoursF d" and "0 \<le> d" and "d \<le> 1000 * hour"
proof -
  show d: "0 \<le> d" "d \<le> 1000 * hour"
    using assms(1-3) by (simp_all add: d_def nanos_wire instant_def hour_def)
  then show "elapsedHours now (wireTime prev) = hoursF d"
    using instant_not_zero [OF assms(1)]
    by (simp add: elapsedHours_def subT_def clamp64_def d_def hour_def)
qed

lemma totals_near:
  assumes "instant prev" and "orderly prev ls"
    and "of_nat k / 10 ^ 6 + charged prev ls + of_nat (length ls) / 10 ^ 6 < 2 ^ 30"
  shows "\<exists>k'. totals (storedTotal k) (wireTime prev) (map (apsnd Fin) ls) = storedTotal k' \<and>
    \<bar>of_nat k' / 10 ^ 6 - (of_nat k / 10 ^ 6 + charged prev ls)\<bar> \<le> of_nat (length ls) / 10 ^ 6"
  using assms
proof (induction ls arbitrary: prev k)
  case (Cons l ls)
  obtain now u where l: "l = (now, u)" by (cases l)
  let ?d = "nanos now - nanos (wireTime prev)"
  from Cons.prems(2) l have now: "instant now" "orderly now ls" and u: "0 \<le> u" "u < pow2 16"
    and gap: "nanos prev \<le> nanos now" "nanos now - nanos prev \<le> 999 * hour" by (simp_all add: pow2_def)
  note d = elapsed_near [OF Cons.prems(1) gap]
  define x where "x = u * (of_int ?d / of_int hour)"
  have c: "charged prev (l # ls) = x + charged now ls" by (simp add: l hoursBetween_def x_def)
  have pos: "0 \<le> x" using u d(2) by (simp add: hour_def x_def)
  have rest: "0 \<le> charged now ls" using charged_bounds [OF now] by simp
  have "of_nat (length (l # ls)) / 10 ^ 6 = of_nat (length ls) / 10 ^ 6 + (1 / 10 ^ 6 :: rat)"
    by (simp add: add_divide_distrib)
  note size = this
  have "of_nat k / 10 ^ 6 \<le> of_nat k / 10 ^ 6 + charged prev (l # ls) + (of_nat (length (l # ls)) / 10 ^ 6 :: rat)"
    using c pos rest by simp
  also have "\<dots> < pow2 30" using Cons.prems(3) by (simp add: pow2_def)
  finally have "of_nat k / 10 ^ 6 < pow2 30" .
  from tick_near [OF this u d(2,3)] obtain k1
    where k1: "fmtF 6 (parseF (storedTotal k) + Fin u * hoursF ?d) = storedTotal k1"
      and e1: "\<bar>of_nat k1 / 10 ^ 6 - (of_nat k / 10 ^ 6 + x)\<bar> \<le> 1 / 10 ^ 6" unfolding x_def .
  have "of_nat k1 / 10 ^ 6 + charged now ls + of_nat (length ls) / 10 ^ 6 < 2 ^ 30"
    using Cons.prems(3) c e1 size by linarith
  from Cons.IH [OF now this] obtain k'
    where k': "totals (storedTotal k1) (wireTime now) (map (apsnd Fin) ls) = storedTotal k'"
      and e': "\<bar>of_nat k' / 10 ^ 6 - (of_nat k1 / 10 ^ 6 + charged now ls)\<bar> \<le> of_nat (length ls) / 10 ^ 6"
    by blast
  have "totals (storedTotal k) (wireTime prev) (map (apsnd Fin) (l # ls)) = storedTotal k'"
    using k' by (simp add: l d(1) k1)
  moreover have "\<bar>of_nat k' / 10 ^ 6 - (of_nat k / 10 ^ 6 + charged prev (l # ls))\<bar> \<le> of_nat (length (l # ls)) / 10 ^ 6"
    using e' e1 c size by linarith
  ultimately show ?case by blast
qed simp

section \<open>A month of ticks\<close>

text \<open>
  What the cluster holds after a run of ticks, each with the samples of both queries: every
  tick accumulates in the status the tick before stored.
\<close>

definition metered ::
  "NamespaceBudgetStatus \<Rightarrow> (gotime \<times> Sample list \<times> Sample list) list \<Rightarrow> NamespaceBudgetStatus" where
  "metered st ticks = foldl (\<lambda>s (now, cpu, mem). wireStatus (accumulate now cpu mem s)) st ticks"

lemma metered_simps [simp]:
  "metered st [] = st"
  "metered st ((now, cpu, mem) # ticks) = metered (wireStatus (accumulate now cpu mem st)) ticks"
  by (simp_all add: metered_def)

lemma stored_accumulate:
  "stLastReconcile (wireStatus (accumulate now cpu mem st)) = wireTime now"
  "acCoreHours (stAccumulated (wireStatus (accumulate now cpu mem st))) =
    fmtF 6 (parseF (acCoreHours (stAccumulated st)) + SumValues cpu * elapsedHours now (stLastReconcile st))"
  "acGiBHours (stAccumulated (wireStatus (accumulate now cpu mem st))) =
    fmtF 6 (parseF (acGiBHours (stAccumulated st)) + SumValues mem / gibi * elapsedHours now (stLastReconcile st))"
  by (simp_all add: accumulate_def Let_def wireStatus_def)

lemma metered_totals:
  "acCoreHours (stAccumulated (metered st ticks)) =
    totals (acCoreHours (stAccumulated st)) (stLastReconcile st)
      (map (\<lambda>(now, cpu, mem). (now, SumValues cpu)) ticks)"
  "acGiBHours (stAccumulated (metered st ticks)) =
    totals (acGiBHours (stAccumulated st)) (stLastReconcile st)
      (map (\<lambda>(now, cpu, mem). (now, SumValues mem / gibi)) ticks)"
  by (induction ticks arbitrary: st) (auto simp: stored_accumulate)

text \<open>What a reconciliation stores of its totals is one such tick.\<close>

context cluster
begin

lemma governTick_metered:
  assumes "run_state (governTick E r ns prev b) w = ((res, err), w')"
    and "buds w' (nbNamespace b, nbName b) = Some s" and "buds w (nbNamespace b, nbName b) \<noteq> Some s"
  shows "\<exists>now cpu mem. stAccumulated (nbStatus s) = stAccumulated (metered (nbStatus b) [(now, cpu, mem)]) \<and>
    stLastReconcile (nbStatus s) = stLastReconcile (metered (nbStatus b) [(now, cpu, mem)])"
  using assms(1)
proof (cases rule: governTick_steps)
  case quiet
  with assms(2,3) show ?thesis by (simp add: same_def)
next
  case (applied t cs ms w1)
  from applyPhase_stores [OF applied(2)] obtain now ph n "is" where
    "statusStored (nbNamespace b, nbName b) (phaseStatus now ph n
      ((accumulate t cs ms (nbStatus b))\<lparr>stIdleWorkloads := is\<rparr>)) (buds w1) (buds w')"
    by auto
  with assms(2,3) applied(1) have "nbStatus s = wireStatus (phaseStatus now ph n
      ((accumulate t cs ms (nbStatus b))\<lparr>stIdleWorkloads := is\<rparr>))"
    by (auto simp: statusStored_def same_def)
  then show ?thesis by (intro exI [of _ t] exI [of _ cs] exI [of _ ms]) (simp add: wireStatus_def phaseStatus_def)
qed

end

text \<open>The loads of a run, where every sum is a finite number.\<close>

definition cpuLoads :: "(gotime \<times> Sample list \<times> Sample list) list \<Rightarrow> (gotime \<times> rat) list" where
  "cpuLoads ticks = map (\<lambda>(now, cpu, mem). (now, fval (SumValues cpu))) ticks"

definition memLoads :: "(gotime \<times> Sample list \<times> Sample list) list \<Rightarrow> (gotime \<times> rat) list" where
  "memLoads ticks = map (\<lambda>(now, cpu, mem). (now, fval (SumValues mem / gibi))) ticks"

definition finiteF :: "f64 \<Rightarrow> bool" where
  "finiteF x = (case x of Fin r \<Rightarrow> True | _ \<Rightarrow> False)"

lemma finiteF_fval: "finiteF x \<Longrightarrow> Fin (fval x) = x"
  by (cases x) (simp_all add: finiteF_def)

lemma cpuLoads_Fin:
  "\<forall>(now, cpu, mem) \<in> set ticks. finiteF (SumValues cpu) \<Longrightarrow>
   map (apsnd Fin) (cpuLoads ticks) = map (\<lambda>(now, cpu, mem). (now, SumValues cpu)) ticks"
  by (auto simp: cpuLoads_def finiteF_fval)

lemma memLoads_Fin:
  "\<forall>(now, cpu, mem) \<in> set ticks. finiteF (SumValues mem / gibi) \<Longrightarrow>
   map (apsnd Fin) (memLoads ticks) = map (\<lambda>(now, cpu, mem). (now, SumValues mem / gibi)) ticks"
  by (auto simp: memLoads_def finiteF_fval)

section \<open>Properties\<close>

text \<open>
  The memory total, likewise.
\<close>

lemma metering_accurate_memory:
  assumes "stLastReconcile st = wireTime start" and "instant start"
    and "acGiBHours (stAccumulated st) = storedTotal k"
    and "\<forall>(now, cpu, mem) \<in> set ticks. finiteF (SumValues mem / gibi)" and "orderly start (memLoads ticks)"
    and "of_nat k / 10 ^ 6 + charged start (memLoads ticks) + of_nat (length ticks) / 10 ^ 6 < 2 ^ 30"
  shows "\<exists>k'. acGiBHours (stAccumulated (metered st ticks)) = storedTotal k' \<and>
    \<bar>of_nat k' / 10 ^ 6 - (of_nat k / 10 ^ 6 + charged start (memLoads ticks))\<bar> \<le> of_nat (length ticks) / 10 ^ 6"
proof -
  have "length (memLoads ticks) = length ticks" by (simp add: memLoads_def)
  with totals_near [OF assms(2,5), of k] assms(6) show ?thesis
    by (simp add: metered_totals(2) assms(1,3) memLoads_Fin [OF assms(4)])
qed

text \<open>
  C13. The total of a month is accurate to a millionth of a core-hour per tick: after any run
  of ticks, each going through six decimals, binary floats and the cluster, the stored total
  is within that of what was charged. What is charged is at least what was consumed, and by
  up to a second of load per tick more, because the time of a tick is stored in whole seconds
  and the next tick counts from there.
\<close>

theorem metering_accurate:
  assumes "stLastReconcile st = wireTime start" and "instant start"
    and "acCoreHours (stAccumulated st) = storedTotal k"
    and "\<forall>(now, cpu, mem) \<in> set ticks. finiteF (SumValues cpu)" and "orderly start (cpuLoads ticks)"
    and "of_nat k / 10 ^ 6 + charged start (cpuLoads ticks) + of_nat (length ticks) / 10 ^ 6 < 2 ^ 30"
  shows "(\<exists>k'. acCoreHours (stAccumulated (metered st ticks)) = storedTotal k' \<and>
      \<bar>of_nat k' / 10 ^ 6 - (of_nat k / 10 ^ 6 + charged start (cpuLoads ticks))\<bar> \<le> of_nat (length ticks) / 10 ^ 6) \<and>
    consumed start (cpuLoads ticks) \<le> charged start (cpuLoads ticks) \<and>
    charged start (cpuLoads ticks) \<le> consumed start (cpuLoads ticks) + sum_list (map snd (cpuLoads ticks)) / 3600"
proof -
  have "length (cpuLoads ticks) = length ticks" by (simp add: cpuLoads_def)
  with totals_near [OF assms(2,5), of k] assms(6) have
    "\<exists>k'. acCoreHours (stAccumulated (metered st ticks)) = storedTotal k' \<and>
      \<bar>of_nat k' / 10 ^ 6 - (of_nat k / 10 ^ 6 + charged start (cpuLoads ticks))\<bar> \<le> of_nat (length ticks) / 10 ^ 6"
    by (simp add: metered_totals(1) assms(1,3) cpuLoads_Fin [OF assms(4)])
  with charged_bounds [OF assms(2,5)] show ?thesis by blast
qed

text \<open>
  Ticks one minute apart, each at the end of a second: two minutes on one core are charged
  as 121.8 seconds.
\<close>

definition exLate :: "int \<Rightarrow> gotime" where
  "exLate m = \<lparr>tsec = 1768478400 + 60 * m, tnsec = 900000000, tzoff = 0\<rparr>"

definition exCore :: "Sample list" where
  "exCore = [\<lparr>smPod = ''api'', smTimeStamp = exNoon, smValue = Fin 1\<rparr>]"

theorem metering_accurate_witness:
  "let st = exUsed ''1.500000'' ''0''; ticks = [(exLate 1, exCore, []), (exLate 2, exCore, [])]
   in consumed (exLate 0) (cpuLoads ticks) = 120 / 3600 \<and> charged (exLate 0) (cpuLoads ticks) = 1218 / 36000 \<and>
    (\<exists>k'. acCoreHours (stAccumulated (metered st ticks)) = storedTotal k' \<and>
      \<bar>of_nat k' / 10 ^ 6 - (1500000 / 10 ^ 6 + 1218 / 36000 :: rat)\<bar> \<le> 2 / 10 ^ 6)"
proof -
  let ?st = "exUsed ''1.500000'' ''0''" and ?ticks = "[(exLate 1, exCore, []), (exLate 2, exCore, [])]"
  have 1: "stLastReconcile ?st = wireTime (exLate 0)" and 2: "instant (exLate 0)"
    and 3: "acCoreHours (stAccumulated ?st) = storedTotal 1500000"
    and 5: "orderly (exLate 0) (cpuLoads ?ticks)"
    and c: "consumed (exLate 0) (cpuLoads ?ticks) = 120 / 3600" "charged (exLate 0) (cpuLoads ?ticks) = 1218 / 36000"
    by code_simp+
  have "finiteF (SumValues exCore)" by code_simp
  then have 4: "\<forall>(now, cpu, mem) \<in> set ?ticks. finiteF (SumValues cpu)" by simp
  from metering_accurate [OF 1 2 3 4 5] c show ?thesis by (simp add: Let_def)
qed

end
