(* ===== verification/Tabwriter.thy ===== *)
theory Tabwriter
  imports GoStrings
begin

text \<open>
  Go's \<^verbatim>\<open>text/tabwriter\<close> as the plugin uses it (\<^verbatim>\<open>NewWriter(os.Stdout, 0, 0, 3, ' ', 0)\<close>: no least
  width, a padding of three blanks, cells to the left), on UTF-8 bytes. Shown: what reaches
  the output does not depend on how the text is cut into writes, and a table whose rows have
  the same number of cells comes out with one width per column. The escape byte \<^verbatim>\<open>0xFF\<close> of the
  package is not modelled: it occurs in no UTF-8 text.
\<close>

section \<open>Counting runes: \<open>utf8.RuneCount\<close>\<close>

definition contByte :: "nat \<Rightarrow> nat \<Rightarrow> char \<Rightarrow> bool" where
  "contByte lo hi c \<longleftrightarrow> lo \<le> code_of c \<and> code_of c \<le> hi"

text \<open>The size of a sequence by its first byte, and the range of its second; 1 for an invalid one.\<close>

definition firstByte :: "nat \<Rightarrow> nat \<times> nat \<times> nat" where
  "firstByte c =
    (if 0xC2 \<le> c \<and> c \<le> 0xDF then (2, 0x80, 0xBF)
     else if c = 0xE0 then (3, 0xA0, 0xBF)
     else if c = 0xED then (3, 0x80, 0x9F)
     else if 0xE1 \<le> c \<and> c \<le> 0xEF then (3, 0x80, 0xBF)
     else if c = 0xF0 then (4, 0x90, 0xBF)
     else if 0xF1 \<le> c \<and> c \<le> 0xF3 then (4, 0x80, 0xBF)
     else if c = 0xF4 then (4, 0x80, 0x8F)
     else (1, 0, 0))"

definition runeSize :: "char \<Rightarrow> string \<Rightarrow> nat" where
  "runeSize c cs =
    (case firstByte (code_of c) of (n, lo, hi) \<Rightarrow>
       if n \<le> 1 \<or> length cs < n - 1 then 1
       else if \<not> contByte lo hi (cs ! 0) then 1
       else if list_all (contByte 0x80 0xBF) (take (n - 2) (tl cs)) then n else 1)"

lemma runeSize_pos: "0 < runeSize c cs"
  by (auto simp: runeSize_def split: prod.split)

function RuneCount :: "string \<Rightarrow> nat" where
  "RuneCount [] = 0"
| "RuneCount (c # cs) = Suc (RuneCount (drop (runeSize c cs - 1) cs))"
  by pat_completeness auto
termination by (relation "measure length") auto

lemma RuneCount_ASCII: "\<forall>c \<in> set s. code_of c < 128 \<Longrightarrow> RuneCount s = length s"
  by (induction s) (auto simp: runeSize_def firstByte_def)

section \<open>Cells and columns\<close>

abbreviation "isTab c \<equiv> c = CHR 0x09 \<or> c = CHR 0x0B"

abbreviation "newline \<equiv> CHR 0x0A"

abbreviation "formFeed \<equiv> CHR 0x0C"

text \<open>The cells of a line; the last one is not terminated by a tab.\<close>

fun cellsOf :: "string \<Rightarrow> string list" where
  "cellsOf [] = [[]]"
| "cellsOf (c # cs) =
    (if isTab c then [] # cellsOf cs
     else case cellsOf cs of [] \<Rightarrow> [[c]] | p # ps \<Rightarrow> (c # p) # ps)"

text \<open>A line under given column widths: a cell that has one is padded with blanks.\<close>

fun writeCells :: "nat list \<Rightarrow> string list \<Rightarrow> string" where
  "writeCells ws [] = []"
| "writeCells [] (c # cs) = c @ writeCells [] cs"
| "writeCells (w # ws) (c # cs) = c @ replicate (w - RuneCount c) (CHR '' '') @ writeCells ws cs"

text \<open>
  \<open>layout ws lines\<close>: a run of lines with a cell in the next column is a column block; its
  width is that of the widest cell and the padding; inside it the columns to the right are
  laid out. A line without one is written.
\<close>

abbreviation "hasColumn k line \<equiv> Suc k < length line"

definition blockWidth :: "nat \<Rightarrow> string list list \<Rightarrow> nat" where
  "blockWidth k lines = foldr (\<lambda>l w. max (RuneCount (l ! k) + 3) w) lines 0"

lemma block_shrinks:
  "\<forall>l \<in> set ls. hasColumn k l \<Longrightarrow>
   sum_list (map (\<lambda>l. Suc (length l - Suc k)) ls) + length ls = sum_list (map (\<lambda>l. Suc (length l - k)) ls)"
  by (induction ls) auto

lemma sum_takeWhile_le: "sum_list (map f (takeWhile P xs)) \<le> (sum_list (map f xs) :: nat)"
  and sum_dropWhile_le: "sum_list (map f (dropWhile P xs)) \<le> (sum_list (map f xs) :: nat)"
  by (induction xs) auto

function layout :: "nat list \<Rightarrow> string list list \<Rightarrow> string list" where
  "layout ws [] = []"
| "layout ws (l # ls) =
    (if \<not> hasColumn (length ws) l then writeCells ws l # layout ws ls
     else layout (ws @ [blockWidth (length ws) (takeWhile (hasColumn (length ws)) (l # ls))])
            (takeWhile (hasColumn (length ws)) (l # ls))
          @ layout ws (dropWhile (hasColumn (length ws)) (l # ls)))"
  by pat_completeness auto
termination
proof (relation "measure (\<lambda>(ws, ls). sum_list (map (\<lambda>l. Suc (length l - length ws)) ls))", goal_cases)
  case (3 ws l ls)
  let ?b = "takeWhile (hasColumn (length ws)) (l # ls)"
  have "\<forall>x \<in> set ?b. hasColumn (length ws) x" by (auto dest: set_takeWhileD)
  from block_shrinks [OF this] sum_takeWhile_le [of "\<lambda>l. Suc (length l - length ws)" "hasColumn (length ws)" "l # ls"]
  show ?case using 3 by simp
next
  case (4 ws l ls)
  with sum_dropWhile_le [of "\<lambda>l. Suc (length l - length ws)" "hasColumn (length ws)" ls] show ?case by simp
qed simp_all

section \<open>Writing and flushing\<close>

definition layoutText :: "string \<Rightarrow> string" where
  "layoutText t = joinWith [newline] (layout [] (map cellsOf (splitOn newline t)))"

text \<open>
  A write lays out and hands on the text up to the last line without a tab and up to the last
  form feed; the rest is kept. \<open>settle acc tabbed\<close> has read \<open>acc\<close> (backwards) since, and
  \<open>tabbed\<close> tells whether the line at hand has a tab.
\<close>

fun settle :: "string \<Rightarrow> bool \<Rightarrow> string \<Rightarrow> string list \<times> string" where
  "settle acc tabbed [] = ([], rev acc)"
| "settle acc tabbed (c # cs) =
    (if c = formFeed \<or> c = newline \<and> \<not> tabbed
     then (rev (newline # acc) # fst (settle [] False cs), snd (settle [] False cs))
     else settle (c # acc) (c \<noteq> newline \<and> (tabbed \<or> isTab c)) cs)"

text \<open>What reaches the output of a text that is written and flushed.\<close>

definition tabText :: "string \<Rightarrow> string" where
  "tabText t = concat (map layoutText (fst (settle [] False t))) @ layoutText (snd (settle [] False t))"

lemma settle_resume:
  assumes "\<And>ys. settle [] False (rev acc @ ys) = settle acc tabbed ys"
  shows "settle acc tabbed (xs @ ys) =
    (fst (settle acc tabbed xs) @ fst (settle [] False (snd (settle acc tabbed xs) @ ys)),
     snd (settle [] False (snd (settle acc tabbed xs) @ ys)))"
  using assms
proof (induction xs arbitrary: acc tabbed)
  case (Cons c xs)
  show ?case
  proof (cases "c = formFeed \<or> c = newline \<and> \<not> tabbed")
    case True
    with Cons.IH [of "[]" False] show ?thesis by simp
  next
    case False
    then have "settle [] False (rev (c # acc) @ zs) = settle (c # acc) (c \<noteq> newline \<and> (tabbed \<or> isTab c)) zs" for zs
      using Cons.prems [of "c # zs"] by (cases "c = newline") auto
    from Cons.IH [OF this] False show ?thesis by (cases "c = newline") simp_all
  qed
qed simp

lemma settle_append:
  "fst (settle [] False (xs @ ys)) =
     fst (settle [] False xs) @ fst (settle [] False (snd (settle [] False xs) @ ys))"
  "snd (settle [] False (xs @ ys)) = snd (settle [] False (snd (settle [] False xs) @ ys))"
  using settle_resume [of "[]" False xs ys] by simp_all

section \<open>A rectangular table\<close>

declare layout.simps(2) [simp del]

text \<open>A column block of several lines, and what follows it.\<close>

lemma layout_block:
  assumes "ls \<noteq> []" and "\<forall>l \<in> set ls. hasColumn (length ws) l"
    and "rest = [] \<or> \<not> hasColumn (length ws) (hd rest)"
  shows "layout ws (ls @ rest) = layout (ws @ [blockWidth (length ws) ls]) ls @ layout ws rest"
proof (cases ls)
  case (Cons l ls')
  let ?P = "hasColumn (length ws)"
  have "takeWhile ?P rest = []" "dropWhile ?P rest = rest" using assms(3) by (cases rest; simp)+
  then have "takeWhile ?P (ls @ rest) = ls" "dropWhile ?P (ls @ rest) = rest"
    using assms(2) by (simp_all add: takeWhile_append2 dropWhile_append2)
  moreover have "?P l" using assms(2) Cons by simp
  ultimately show ?thesis unfolding Cons append_Cons by (subst layout.simps(2)) simp
qed (use assms(1) in simp)

lemma layout_rectangle:
  assumes "\<forall>l \<in> set ls. length l = length ws + Suc m"
  shows "layout ws ls = map (writeCells (ws @ map (\<lambda>j. blockWidth j ls) [length ws..<length ws + m])) ls"
  using assms
proof (induction m arbitrary: ws)
  case 0
  then show ?case by (induction ls) (simp_all add: layout.simps(2))
next
  case (Suc m)
  show ?case
  proof (cases "ls = []")
    case False
    have "layout ws ls = layout (ws @ [blockWidth (length ws) ls]) ls"
      using layout_block [OF False, of ws "[]"] Suc.prems by simp
    also have "\<dots> = map (writeCells ((ws @ [blockWidth (length ws) ls]) @
        map (\<lambda>j. blockWidth j ls) [Suc (length ws)..<Suc (length ws) + m])) ls"
      using Suc.IH [of "ws @ [blockWidth (length ws) ls]"] Suc.prems by simp
    also have "Suc (length ws) + m = length ws + Suc m" by simp
    finally show ?thesis by (simp add: upt_conv_Cons [of "length ws"] del: upt_Suc)
  qed simp
qed

text \<open>The text of a row, and of a table.\<close>

definition rowText :: "string list \<Rightarrow> string" where
  "rowText r = joinWith [CHR 0x09] r @ [newline]"

lemma rowText_append: "rowText r @ t = joinWith [CHR 0x09] r @ newline # t"
  by (simp add: rowText_def)

definition plainCell :: "string \<Rightarrow> bool" where
  "plainCell s \<longleftrightarrow> (\<forall>c \<in> set s. \<not> isTab c \<and> c \<noteq> newline \<and> c \<noteq> formFeed)"

lemma cellsOf_plain: "plainCell s \<Longrightarrow> cellsOf s = [s]"
  by (induction s) (auto simp: plainCell_def)

lemma cellsOf_append: "plainCell s \<Longrightarrow> cellsOf (s @ CHR 0x09 # t) = s # cellsOf t"
  by (induction s) (auto simp: plainCell_def)

lemma cellsOf_row: "r \<noteq> [] \<Longrightarrow> \<forall>s \<in> set r. plainCell s \<Longrightarrow> cellsOf (joinWith [CHR 0x09] r) = r"
proof (induction r)
  case (Cons s r)
  then show ?case by (cases r) (simp_all add: cellsOf_plain cellsOf_append)
qed simp

lemma row_chars: "\<forall>s \<in> set r. plainCell s \<Longrightarrow> c \<in> set (joinWith [CHR 0x09] r) \<Longrightarrow> c \<noteq> newline \<and> c \<noteq> formFeed"
proof (induction r)
  case (Cons s r)
  then show ?case by (cases r) (auto simp: plainCell_def)
qed simp

lemma settle_kept:
  assumes "newline \<notin> set t" and "formFeed \<notin> set t"
  shows "settle acc tabbed (t @ ys) = settle (rev t @ acc) (tabbed \<or> (\<exists>c \<in> set t. isTab c)) ys"
  using assms by (induction t arbitrary: acc tabbed) auto

lemma settle_rows:
  assumes "\<forall>r \<in> set rs. (\<forall>s \<in> set r. plainCell s) \<and> Suc 0 < length r"
  shows "settle acc False (concat (map rowText rs)) = ([], rev acc @ concat (map rowText rs))"
  using assms
proof (induction rs arbitrary: acc)
  case (Cons r rs)
  then have r: "\<forall>s \<in> set r. plainCell s" and "Suc 0 < length r" by simp_all
  then obtain a b r' where "r = a # b # r'" by (cases r; cases "tl r") auto
  then have "CHR 0x09 \<in> set (joinWith [CHR 0x09] r)" by simp
  then have tab: "\<exists>c \<in> set (joinWith [CHR 0x09] r). isTab c" by blast
  have chars: "newline \<notin> set (joinWith [CHR 0x09] r)" "formFeed \<notin> set (joinWith [CHR 0x09] r)"
    using row_chars [OF r] by blast+
  have "settle acc False (concat (map rowText (r # rs))) =
      settle (newline # rev (joinWith [CHR 0x09] r) @ acc) False (concat (map rowText rs))"
    using settle_kept [OF chars, of acc False "newline # concat (map rowText rs)"] tab
    by (simp add: rowText_append)
  with Cons.IH [of "newline # rev (joinWith [CHR 0x09] r) @ acc"] Cons.prems show ?case
    by (simp add: rowText_append)
qed simp

lemma splitOn_rows:
  assumes "\<forall>r \<in> set rs. \<forall>s \<in> set r. plainCell s"
  shows "splitOn newline (concat (map rowText rs)) = map (joinWith [CHR 0x09]) rs @ [[]]"
  using assms
proof (induction rs)
  case (Cons r rs)
  then have "newline \<notin> set (joinWith [CHR 0x09] r)" using row_chars [of r newline] by auto
  with Cons splitOn_append [of newline "joinWith [CHR 0x09] r" "concat (map rowText rs)"] show ?case
    by (simp add: rowText_append splitOn_none)
qed simp

text \<open>A table of rows of \<open>m + 2\<close> plain cells: every column but the last has one width.\<close>

lemma tabText_table:
  assumes "\<forall>r \<in> set rs. (\<forall>s \<in> set r. plainCell s) \<and> length r = Suc (Suc m)"
  shows "tabText (concat (map rowText rs)) =
    concat (map (\<lambda>r. writeCells (map (\<lambda>j. blockWidth j rs) [0..<Suc m]) r @ [newline]) rs)"
proof -
  let ?t = "concat (map rowText rs)"
  have ragged: "layout [] (rs @ [[[]]]) = layout [] rs @ [[]]"
  proof (cases "rs = []")
    case False
    from assms have all: "\<forall>r \<in> set rs. hasColumn (length ([] :: nat list)) r" by simp
    from layout_block [OF False all, of "[[[]]]"] layout_block [OF False all, of "[]"] show ?thesis
      by (simp add: layout.simps(2))
  qed (simp add: layout.simps(2))
  have "settle [] False ?t = ([], ?t)" using settle_rows [of rs "[]"] assms by simp
  then have "tabText ?t = layoutText ?t" by (simp add: tabText_def)
  also have "map cellsOf (splitOn newline ?t) = rs @ [[[]]]"
    using assms by (force simp: splitOn_rows intro!: map_idI cellsOf_row)
  then have "layoutText ?t = joinWith [newline] (map (writeCells (map (\<lambda>j. blockWidth j rs) [0..<Suc m])) rs @ [[]])"
    using layout_rectangle [of rs "[]" "Suc m"] assms by (simp add: layoutText_def ragged)
  also have "joinWith [newline] (ls @ [[]]) = concat (map (\<lambda>l. l @ [newline]) ls)" for ls
    by (induction ls) (simp_all add: joinWith_Cons)
  finally show ?thesis by (simp add: comp_def)
qed

end
