(* ===== verification/Plugin.thy ===== *)
theory Plugin
  imports Guarantees Tabwriter "HOL-Library.Char_ord" "HOL-Library.List_Lexorder"
begin

text \<open>
  \<^verbatim>\<open>cmd/kubectl-budget\<close>: the three commands of the kubectl plugin (\<^verbatim>\<open>status\<close>, \<^verbatim>\<open>restore\<close>,
  \<^verbatim>\<open>report\<close>) and the check of their argument. Shown: what a restore by hand does to the
  cluster, which report is printed, and what the terminal shows.
\<close>

section \<open>The outside of the plugin\<close>

text \<open>
  The loaders of a cluster configuration (in the cluster; by the rules of kubectl), the
  constructor of a client and the DNS check of \<^verbatim>\<open>k8s.io/apimachinery\<close> are not code of the
  repository. A text printed by \<^verbatim>\<open>fmt\<close> ignores its error (\<open>pPrint\<close>), what a \<^verbatim>\<open>tabwriter\<close> hands
  on to the terminal reports it (\<open>pWrite\<close>). \<open>pErrText\<close> is the text of an error of the Kubernetes
  client.
\<close>

record ('w, 'cfg) plugin =
  pInClusterConfig :: "('w, 'cfg result) io"
  pClientConfig :: "('w, 'cfg result) io"
  pNewClient :: "'cfg \<Rightarrow> ('w, error option) io"
  pIsDNS1123Subdomain :: "string \<Rightarrow> string list"
  pErrText :: "kerr \<Rightarrow> string"
  pPrint :: "string \<Rightarrow> ('w, unit) io"
  pWrite :: "string \<Rightarrow> ('w, error option) io"

text \<open>Sequencing of operations that answer an error or nothing.\<close>

definition andThen :: "string \<Rightarrow> ('w, error option) io \<Rightarrow> ('w, error option) io \<Rightarrow> ('w, error option) io" where
  "andThen msg m k = do {
     r \<leftarrow> m;
     (case r of Some e \<Rightarrow> State_Monad.return (Some (Wrapped msg e)) | None \<Rightarrow> k) }"

section \<open>The client\<close>

definition loadConfig :: "('w, 'cfg) plugin \<Rightarrow> ('w, 'cfg result) io" where
  "loadConfig P = do {
     r \<leftarrow> pInClusterConfig P;
     (case r of
        Inr config \<Rightarrow> State_Monad.return (Inr config)
      | Inl _ \<Rightarrow> pClientConfig P) }"

definition buildClient :: "('w, 'cfg) plugin \<Rightarrow> ('w, error option) io" where
  "buildClient P = do {
     r \<leftarrow> loadConfig P;
     (case r of
        Inl err \<Rightarrow> State_Monad.return (Some err)
      | Inr config \<Rightarrow> pNewClient P config) }"

section \<open>The namespace argument\<close>

text \<open>
  \<^verbatim>\<open>strings.TrimSpace\<close> on UTF-8 bytes: the white space characters of ASCII and of Unicode.
\<close>

definition spaces :: "string list" where
  "spaces = [[CHR 0x09], [CHR 0x0A], [CHR 0x0B], [CHR 0x0C], [CHR 0x0D], [CHR 0x20],
     [CHR 0xC2, CHR 0x85], [CHR 0xC2, CHR 0xA0], [CHR 0xE1, CHR 0x9A, CHR 0x80]]
     @ map (\<lambda>n. [CHR 0xE2, CHR 0x80, char_of n]) [0x80..<0x8B]
     @ [[CHR 0xE2, CHR 0x80, CHR 0xA8], [CHR 0xE2, CHR 0x80, CHR 0xA9], [CHR 0xE2, CHR 0x80, CHR 0xAF],
        [CHR 0xE2, CHR 0x81, CHR 0x9F], [CHR 0xE3, CHR 0x80, CHR 0x80]]"

fun stripPrefix :: "string list \<Rightarrow> string \<Rightarrow> string option" where
  "stripPrefix [] s = None"
| "stripPrefix (p # ps) s =
    (if p \<noteq> [] \<and> take (length p) s = p then Some (drop (length p) s) else stripPrefix ps s)"

lemma stripPrefix_shorter: "stripPrefix ps s = Some t \<Longrightarrow> length t < length s"
proof (induction ps)
  case (Cons p ps)
  show ?case
  proof (cases "p \<noteq> [] \<and> take (length p) s = p")
    case True
    then have "0 < length p" and "0 < length s" by auto
    moreover have "t = drop (length p) s" using Cons.prems True by simp
    ultimately show ?thesis by simp
  next
    case False
    with Cons show ?thesis by auto
  qed
qed simp

function trimLeft :: "string list \<Rightarrow> string \<Rightarrow> string" where
  "trimLeft ps s = (case stripPrefix ps s of None \<Rightarrow> s | Some t \<Rightarrow> trimLeft ps t)"
  by pat_completeness auto
termination by (relation "measure (\<lambda>(ps, s). length s)") (auto dest: stripPrefix_shorter)

declare trimLeft.simps [simp del]

definition TrimSpace :: "string \<Rightarrow> string" where
  "TrimSpace s = rev (trimLeft (map rev spaces) (rev (trimLeft spaces s)))"

definition validateNamespace :: "('w, 'sel) env \<Rightarrow> ('w, 'cfg) plugin \<Rightarrow> string \<Rightarrow> string result" where
  "validateNamespace E P arg =
    (let namespace = TrimSpace arg in
     if namespace = [] then Inl (Plain ''namespace cannot be empty'')
     else let errs = pIsDNS1123Subdomain P namespace in
       if errs \<noteq> [] then Inl (Plain (''invalid namespace '' @ goQuote (eQuoteRunes E) namespace @ '': '' @ joinWith ''; '' errs))
       else Inr namespace)"

text \<open>What the three commands begin with.\<close>

definition withClient ::
  "('w, 'sel) env \<Rightarrow> ('w, 'cfg) plugin \<Rightarrow> string \<Rightarrow> (string \<Rightarrow> ('w, error option) io) \<Rightarrow> ('w, error option) io" where
  "withClient E P arg run =
    (case validateNamespace E P arg of
       Inl e \<Rightarrow> State_Monad.return (Some e)
     | Inr namespace \<Rightarrow> andThen ''building client'' (buildClient P) (run namespace))"

section \<open>restore\<close>

definition arrow :: string where
  "arrow = [CHR 0xE2, CHR 0x86, CHR 0x92]"

definition lf :: string where
  "lf = [CHR 0x0A]"

text \<open>One patch puts the replica count back and removes the record.\<close>

definition restoredBy :: "int \<Rightarrow> deployment \<Rightarrow> deployment" where
  "restoredBy original d = unrecorded (d\<lparr>dReplicas := Some (word_of_int original)\<rparr>)"

text \<open>The number of Deployments restored; a failure is printed and the next one tried.\<close>

fun restoreLoop :: "('w, 'sel) env \<Rightarrow> ('w, 'cfg) plugin \<Rightarrow> deployment list \<Rightarrow> ('w, nat) io" where
  "restoreLoop E P [] = State_Monad.return 0"
| "restoreLoop E P (d # ds) =
    (if \<not> IsScaledDownByOperator d then restoreLoop E P ds
     else case annOf d AnnotationOriginalReplicas of
       None \<Rightarrow> do {
         _ \<leftarrow> pPrint P (''  skipping '' @ dName d @ '': missing original-replicas annotation'' @ lf);
         restoreLoop E P ds }
     | Some originalStr \<Rightarrow>
         (case ParseInt32 originalStr of
            Inl _ \<Rightarrow> do {
              _ \<leftarrow> pPrint P (''  skipping '' @ dName d @ '': invalid original-replicas annotation'' @ lf);
              restoreLoop E P ds }
          | Inr original \<Rightarrow> do {
              r \<leftarrow> ePatchDeployment E d (restoredBy original d);
              (case r of
                 Inl e \<Rightarrow> do {
                   _ \<leftarrow> pPrint P (''  failed to restore '' @ dName d @ '': '' @ pErrText P e @ lf);
                   restoreLoop E P ds }
               | Inr _ \<Rightarrow> do {
                   _ \<leftarrow> pPrint P (''  restored '' @ dName d @ '' '' @ arrow @ '' ''
                      @ show_int original @ '' replicas'' @ lf);
                   restored \<leftarrow> restoreLoop E P ds;
                   State_Monad.return (Suc restored) }) }))"

definition restoreCmd :: "('w, 'sel) env \<Rightarrow> ('w, 'cfg) plugin \<Rightarrow> string \<Rightarrow> ('w, error option) io" where
  "restoreCmd E P arg = withClient E P arg (\<lambda>namespace. do {
     r \<leftarrow> eListDeployments E namespace;
     (case r of
        Inl e \<Rightarrow> State_Monad.return (Some (wrapErr ''listing deployments'' e))
      | Inr items \<Rightarrow> do {
          restored \<leftarrow> restoreLoop E P items;
          _ \<leftarrow> pPrint P (if restored = 0 then ''No workloads to restore.'' @ lf
                 else lf @ ''Restored '' @ show_nat restored @ '' workload(s).'' @ lf);
          State_Monad.return None }) })"

section \<open>report\<close>

definition tab :: string where
  "tab = [CHR 0x09]"

definition emDash :: string where
  "emDash = [CHR 0xE2, CHR 0x80, CHR 0x94]"

definition ruler :: string where
  "ruler = concat (replicate 50 [CHR 0xE2, CHR 0x94, CHR 0x80])"

text \<open>A print to a tabwriter and its flush; \<open>kept\<close> is the text it has not handed on.\<close>

fun writeAll :: "('w, 'cfg) plugin \<Rightarrow> string list \<Rightarrow> ('w, error option) io" where
  "writeAll P [] = State_Monad.return None"
| "writeAll P (s # ss) = do {
     r \<leftarrow> pWrite P s;
     (case r of Some e \<Rightarrow> State_Monad.return (Some e) | None \<Rightarrow> writeAll P ss) }"

definition tabPrint :: "('w, 'cfg) plugin \<Rightarrow> string \<Rightarrow> string \<Rightarrow> ('w, string result) io" where
  "tabPrint P kept s = do {
     r \<leftarrow> writeAll P (map layoutText (fst (settle [] False (kept @ s))));
     State_Monad.return (case r of Some e \<Rightarrow> Inl e | None \<Rightarrow> Inr (snd (settle [] False (kept @ s)))) }"

definition tabFlush :: "('w, 'cfg) plugin \<Rightarrow> string \<Rightarrow> ('w, error option) io" where
  "tabFlush P kept = pWrite P (layoutText kept)"

text \<open>A table: its header, its rows, its flush; the first failing write ends it.\<close>

fun rows ::
  "('w, 'cfg) plugin \<Rightarrow> string \<Rightarrow> string list \<Rightarrow> string \<Rightarrow> (string \<Rightarrow> ('w, error option) io)
     \<Rightarrow> ('w, error option) io" where
  "rows P msg [] kept k = k kept"
| "rows P msg (r # rs) kept k = do {
     x \<leftarrow> tabPrint P kept r;
     (case x of
        Inl e \<Rightarrow> State_Monad.return (Some (Wrapped msg e))
      | Inr kept' \<Rightarrow> rows P msg rs kept' k) }"

definition table ::
  "('w, 'cfg) plugin \<Rightarrow> string \<Rightarrow> string \<Rightarrow> string \<Rightarrow> string \<Rightarrow> string list \<Rightarrow> ('w, error option) io" where
  "table P headerMsg rowMsg flushMsg header body =
    rows P headerMsg [header] [] (\<lambda>kept. rows P rowMsg body kept (\<lambda>kept.
      andThen flushMsg (tabFlush P kept) (State_Monad.return None)))"

definition consumerRow :: "TopConsumer \<Rightarrow> string" where
  "consumerRow tc = ''  '' @ tpWorkload tc @ tab @ show_int (sint (tpCPUPercent tc)) @ ''%'' @ tab
     @ show_int (sint (tpMemoryPercent tc)) @ ''%'' @ tab @ tpEstimatedUSD tc @ lf"

definition eventRow :: "SuspensionEvent \<Rightarrow> string" where
  "eventRow ev = ''  '' @ seWorkload ev @ tab @ seScaledDownAt ev @ tab @ seReason ev @ lf"

definition reportTable :: "('w, 'cfg) plugin \<Rightarrow> TopConsumer list \<Rightarrow> ('w, error option) io" where
  "reportTable P consumers =
     table P ''writing report header'' ''writing report consumer'' ''flushing report consumers''
       (''  WORKLOAD'' @ tab @ ''CPU%'' @ tab @ ''MEM%'' @ tab @ ''ESTIMATED'' @ lf)
       (map consumerRow consumers)"

definition eventTable :: "('w, 'cfg) plugin \<Rightarrow> SuspensionEvent list \<Rightarrow> ('w, error option) io" where
  "eventTable P events =
     table P ''writing suspension header'' ''writing suspension event'' ''flushing suspension events''
       (''  WORKLOAD'' @ tab @ ''SCALED DOWN AT'' @ tab @ ''REASON'' @ lf) (map eventRow events)"

definition laterPeriod :: "CostReport \<Rightarrow> CostReport \<Rightarrow> bool" where
  "laterPeriod a b = (rsPeriod (crStatus b) < rsPeriod (crStatus a))"

definition latestReport :: "('w, 'sel) env \<Rightarrow> CostReport list \<Rightarrow> CostReport" where
  "latestReport E items = hd (sortSlice E laterPeriod items)"

definition printReport :: "('w, 'cfg) plugin \<Rightarrow> string \<Rightarrow> CostReportStatus \<Rightarrow> ('w, error option) io" where
  "printReport P namespace st = do {
     _ \<leftarrow> pPrint P (''Cost Report '' @ emDash @ '' '' @ namespace @ '' ('' @ rsPeriod st @ '')'' @ lf);
     _ \<leftarrow> pPrint P (ruler @ lf);
     _ \<leftarrow> pPrint P (''Total CPU:    '' @ tcCoreHours (rsTotalCost st) @ '' core-hours'' @ lf);
     _ \<leftarrow> pPrint P (''Total Memory: '' @ tcGiBHours (rsTotalCost st) @ '' GiB-hours'' @ lf);
     _ \<leftarrow> pPrint P (''Estimated:    '' @ tcEstimatedUSD (rsTotalCost st) @ lf);
     _ \<leftarrow> pPrint P lf;
     r \<leftarrow> (if rsTopConsumers st \<noteq> [] then do {
             _ \<leftarrow> pPrint P (''Top consumers:'' @ lf);
             t \<leftarrow> reportTable P (rsTopConsumers st);
             (case t of Some e \<Rightarrow> State_Monad.return (Some e)
              | None \<Rightarrow> do { _ \<leftarrow> pPrint P lf; State_Monad.return None }) }
           else State_Monad.return None);
     (case r of
        Some e \<Rightarrow> State_Monad.return (Some e)
      | None \<Rightarrow>
          if rsSuspendedEvents st \<noteq> [] then do {
            _ \<leftarrow> pPrint P (''Suspension events:'' @ lf);
            eventTable P (rsSuspendedEvents st) }
          else State_Monad.return None) }"

definition reportCmd :: "('w, 'sel) env \<Rightarrow> ('w, 'cfg) plugin \<Rightarrow> string \<Rightarrow> ('w, error option) io" where
  "reportCmd E P arg = withClient E P arg (\<lambda>namespace. do {
     r \<leftarrow> eListReports E namespace;
     (case r of
        Inl e \<Rightarrow> State_Monad.return (Some (wrapErr ''listing cost reports'' e))
      | Inr items \<Rightarrow>
          if items = [] then do {
            _ \<leftarrow> pPrint P (''No cost reports found for namespace '' @ namespace @ ''.'' @ lf);
            State_Monad.return None }
          else printReport P namespace (crStatus (latestReport E items))) })"

section \<open>status\<close>

definition formatDateTime :: "gotime \<Rightarrow> string" where
  "formatDateTime t =
     padInt 4 (yearOf t) @ ''-'' @ padInt 2 (monthOf t) @ ''-'' @ padInt 2 (dayOf t) @ '' ''
     @ padInt 2 (clockOf t div 3600) @ '':'' @ padInt 2 (clockOf t div 60 mod 60) @ '':''
     @ padInt 2 (clockOf t mod 60)"

definition statusRow :: "string \<Rightarrow> NamespaceBudgetStatus \<Rightarrow> string" where
  "statusRow namespace st = namespace @ tab @ stPhase st @ tab @ show_int (sint (stBudgetPercent st))
     @ ''%'' @ tab @ uCpu (stCurrentUsage st) @ '' cores'' @ tab @ uMemory (stCurrentUsage st)
     @ '' GiB'' @ tab @ formatDateTime (stLastReconcile st) @ lf"

definition idleRow :: "IdleWorkloadStatus \<Rightarrow> string" where
  "idleRow i = ''  '' @ iwName i @ tab @ formatDateTime (iwIdleSince i) @ lf"

definition conditionRow :: "Condition \<Rightarrow> string" where
  "conditionRow c = ''  '' @ cType c @ tab @ cStatus c @ tab @ cMessage c @ lf"

text \<open>A titled table, printed when there is something to list; then \<open>k\<close>.\<close>

definition listed ::
  "('w, 'cfg) plugin \<Rightarrow> string \<Rightarrow> string list \<Rightarrow> ('w, error option) io \<Rightarrow> ('w, error option) io
     \<Rightarrow> ('w, error option) io" where
  "listed P title body t k =
    (if body = [] then k
     else do {
       _ \<leftarrow> pPrint P (lf @ title @ lf);
       r \<leftarrow> t;
       (case r of Some e \<Rightarrow> State_Monad.return (Some e) | None \<Rightarrow> k) })"

definition printStatus :: "('w, 'cfg) plugin \<Rightarrow> string \<Rightarrow> NamespaceBudgetStatus \<Rightarrow> ('w, error option) io" where
  "printStatus P namespace st = do {
     r \<leftarrow> table P ''writing status header'' ''writing status'' ''flushing status''
            (''NAMESPACE'' @ tab @ ''PHASE'' @ tab @ ''BUDGET%'' @ tab @ ''CPU'' @ tab @ '' MEMORY'' @ tab
             @ ''LAST RECONCILE'' @ lf) [statusRow namespace st];
     (case r of
        Some e \<Rightarrow> State_Monad.return (Some e)
      | None \<Rightarrow>
          listed P ''Idle workloads:'' (map idleRow (stIdleWorkloads st))
            (table P ''writing idle header'' ''writing idle workload'' ''flushing idle workloads''
              (''  NAME'' @ tab @ ''IDLE SINCE'' @ lf) (map idleRow (stIdleWorkloads st)))
            (listed P ''Conditions:'' (map conditionRow (stConditions st))
              (table P ''writing conditions header'' ''writing condition'' ''flushing conditions''
                (''  TYPE'' @ tab @ ''STATUS'' @ tab @ ''MESSAGE'' @ lf)
                (map conditionRow (stConditions st)))
              (State_Monad.return None))) }"

definition statusCmd :: "('w, 'sel) env \<Rightarrow> ('w, 'cfg) plugin \<Rightarrow> string \<Rightarrow> ('w, error option) io" where
  "statusCmd E P arg = withClient E P arg (\<lambda>namespace. do {
     r \<leftarrow> eGetBudget E namespace ''budget'';
     (case r of
        Inl e \<Rightarrow> State_Monad.return (Some (wrapErr (''fetching budget for namespace '' @ namespace) e))
      | Inr budget \<Rightarrow> printStatus P namespace (nbStatus budget)) })"

section \<open>What the plugin relies on\<close>

text \<open>
  Printing changes the terminal and nothing in the cluster; a write that answers no error
  shows its text. The reads of the API server print nothing.
\<close>

locale plugin_world = cluster E deps buds reps slack same
  for E :: "('w, 'sel) env" and deps :: "'w \<Rightarrow> objkey \<rightharpoonup> deployment"
    and buds :: "'w \<Rightarrow> objkey \<rightharpoonup> 'sel NamespaceBudget" and reps :: "'w \<Rightarrow> objkey \<rightharpoonup> CostReport"
    and slack :: "'w \<Rightarrow> SlackMessage list" and same :: "'w \<Rightarrow> 'w \<Rightarrow> bool" +
  fixes P :: "('w, 'cfg) plugin" and out :: "'w \<Rightarrow> string"
  assumes inCluster_same: "keeps (\<lambda>w w'. same w w' \<and> out w' = out w) (pInClusterConfig P)"
    and config_same: "keeps (\<lambda>w w'. same w w' \<and> out w' = out w) (pClientConfig P)"
    and client_same: "keeps (\<lambda>w w'. same w w' \<and> out w' = out w) (pNewClient P cfg)"
    and print_same: "keeps same (pPrint P s)"
    and write_same: "keeps same (pWrite P s)"
    and print_out: "run_state (pPrint P s) w = (u, w') \<Longrightarrow> out w' = out w @ s"
    and write_out: "run_state (pWrite P s) w = (None, w') \<Longrightarrow> out w' = out w @ s"
    and budget_out: "keeps (\<lambda>w w'. out w' = out w) (eGetBudget E ns n)"
    and reports_out: "keeps (\<lambda>w w'. out w' = out w) (eListReports E ns)"

text \<open>The terminal of the world in memory.\<close>

definition memTty :: "(mem, string) plugin" where
  "memTty = \<lparr>
     pInClusterConfig = State_Monad.return (Inl (Plain ''not in a cluster'')),
     pClientConfig = State_Monad.return (Inr ''context''),
     pNewClient = (\<lambda>_. State_Monad.return None),
     pIsDNS1123Subdomain = (\<lambda>s. if list_all (\<lambda>c. c \<in> set ''abcdefghijklmnopqrstuvwxyz0123456789-.'') s
       then [] else [''must consist of lower case alphanumeric characters''] ),
     pErrText = (\<lambda>e. case e of NotFound \<Rightarrow> ''not found'' | Conflict \<Rightarrow> ''conflict'' | OtherErr s \<Rightarrow> s),
     pPrint = (\<lambda>s. State (\<lambda>w. ((), w\<lparr>mOut := mOut w @ [s]\<rparr>))),
     pWrite = (\<lambda>s. State (\<lambda>w. (None, w\<lparr>mOut := mOut w @ [s]\<rparr>)))\<rparr>"

definition memOut :: "mem \<Rightarrow> string" where
  "memOut w = concat (mOut w)"

lemma memTty_simps [simp]:
  "pInClusterConfig memTty = State_Monad.return (Inl (Plain ''not in a cluster''))"
  "pClientConfig memTty = State_Monad.return (Inr ''context'')"
  "pNewClient memTty cfg = State_Monad.return None"
  "pPrint memTty s = State (\<lambda>w. ((), w\<lparr>mOut := mOut w @ [s]\<rparr>))"
  "pWrite memTty s = State (\<lambda>w. (None, w\<lparr>mOut := mOut w @ [s]\<rparr>))"
  by (simp_all add: memTty_def)

lemma memTty_build [simp]: "buildClient memTty = State_Monad.return None"
  by (simp add: buildClient_def loadConfig_def)

lemma memTty_laws:
  "keeps (\<lambda>w w'. memSame w w' \<and> memOut w' = memOut w) (State_Monad.return a)"
  "keeps memSame (State (\<lambda>w. (a, w\<lparr>mOut := mOut w @ [s]\<rparr>)))"
  "keeps (\<lambda>w w'. memOut w' = memOut w) (eGetBudget memEnv ns n)"
  "keeps (\<lambda>w w'. memOut w' = memOut w) (eListReports memEnv ns)"
  by (auto simp: keeps_def memSame_def memOut_def)

interpretation memp: plugin_world memEnv memDeps memBuds memReps mSlack memSame memTty memOut
  by unfold_locales (simp_all only: memTty_simps memTty_laws, auto simp: memOut_def)

interpretation calmp: plugin_world calmEnv memDeps memBuds memReps mSlack memSame memTty memOut
  by unfold_locales (simp_all only: memTty_simps memTty_laws calm_rest, auto simp: memOut_def)

text \<open>Writes to that terminal do not fail.\<close>

lemma memTty_writeAll [simp]: "fst (run_state (writeAll memTty ss) w) = None"
  by (induction ss arbitrary: w) simp_all

lemma memTty_rows:
  assumes "\<And>kept w. fst (run_state (k kept) w) = None"
  shows "fst (run_state (rows memTty msg body kept k) w) = None"
proof (induction body arbitrary: kept w)
  case (Cons r rs)
  let ?s = "settle [] False (kept @ r)"
  obtain w1 where "run_state (writeAll memTty (map layoutText (fst ?s))) w = (None, w1)"
    by (metis memTty_writeAll prod.collapse)
  with Cons.IH show ?case by (simp add: tabPrint_def)
qed (simp add: assms)

lemma memTty_table [simp]: "fst (run_state (table memTty a b c header body) w) = None"
  unfolding table_def by (intro memTty_rows) (simp add: tabFlush_def andThen_def)

lemma memTty_listed:
  assumes "\<And>w. fst (run_state t w) = None" and "\<And>w. fst (run_state k w) = None"
  shows "fst (run_state (listed memTty title body t k) w) = None"
proof (cases "body = []")
  case False
  obtain w1 where "run_state t (w\<lparr>mOut := mOut w @ [lf @ title @ lf]\<rparr>) = (None, w1)"
    by (metis assms(1) prod.collapse)
  with False assms(2) show ?thesis by (simp add: listed_def del: append_Cons)
qed (simp add: listed_def assms(2))

lemma memTty_printStatus: "fst (run_state (printStatus memTty ns st) w) = None"
proof -
  obtain w1 where "run_state (table memTty ''writing status header'' ''writing status'' ''flushing status''
      (''NAMESPACE'' @ tab @ ''PHASE'' @ tab @ ''BUDGET%'' @ tab @ ''CPU'' @ tab @ '' MEMORY'' @ tab
        @ ''LAST RECONCILE'' @ lf) [statusRow ns st]) w = (None, w1)"
    by (metis memTty_table prod.collapse)
  moreover have "fst (run_state (listed memTty ''Idle workloads:'' (map idleRow (stIdleWorkloads st))
      (table memTty a b c d e) (listed memTty ''Conditions:'' (map conditionRow (stConditions st))
        (table memTty f g h i j) (State_Monad.return None))) w1) = None" for a b c d e f g h i j
    by (intro memTty_listed memTty_table) simp
  ultimately show ?thesis by (simp add: printStatus_def del: append_Cons append.simps)
qed

section \<open>Facts on the commands\<close>

text \<open>Where a record is usable the one patch gives the Deployment back.\<close>

lemma restoredBy_restored:
  assumes "IsScaledDownByOperator d" and "annOf d AnnotationOriginalReplicas = Some s"
    and "ParseInt32 s = Inr v"
  shows "intended d = Some (word_of_int v)" and "restoredBy v d = restored d"
proof -
  show "intended d = Some (word_of_int v)"
    using assms by (simp add: intended_def IsScaledDown_annOf)
  then show "restoredBy v d = restored d" by (simp add: restoredBy_def restored_def)
qed

definition givenBack :: "(objkey \<rightharpoonup> deployment) \<Rightarrow> (objkey \<rightharpoonup> deployment) \<Rightarrow> bool" where
  "givenBack m m' \<longleftrightarrow> (\<forall>k. m' k = m k \<or>
    (\<exists>d d'. m k = Some d \<and> IsScaledDownByOperator d \<and> intended d \<noteq> None \<and>
      m' k = Some d' \<and> depEq d' (restored d)))"

lemma givenBack_rules:
  "transp (\<lambda>w w'. givenBack (v w) (v w'))" "reflp (\<lambda>w w'. givenBack (v w) (v w'))"
proof -
  have "givenBack m p" if 1: "givenBack m n" and 2: "givenBack n p" for m n p
    unfolding givenBack_def
  proof
    fix k
    from 1 [unfolded givenBack_def, rule_format, of k] 2 [unfolded givenBack_def, rule_format, of k]
    show "p k = m k \<or> (\<exists>d d'. m k = Some d \<and> IsScaledDownByOperator d \<and> intended d \<noteq> None \<and>
      p k = Some d' \<and> depEq d' (restored d))"
      using depEq_scaled restored_unmarked by (metis option.inject)
  qed
  then show "transp (\<lambda>w w'. givenBack (v w) (v w'))" by (auto simp: transp_def)
  show "reflp (\<lambda>w w'. givenBack (v w) (v w'))" by (simp add: reflp_def givenBack_def)
qed

context deployment_api
begin

lemma givenBack_safe:
  assumes "givenBack m m'"
  shows "depsSafe m m'"
  unfolding depsSafe_def
proof
  fix k
  from assms have "m' k = m k \<or> (\<exists>d d'. m k = Some d \<and> IsScaledDownByOperator d \<and> intended d \<noteq> None \<and>
      m' k = Some d' \<and> depEq d' (restored d))"
    unfolding givenBack_def by (rule spec)
  then show "rel_option sameIntent (m k) (m' k)"
  proof
    assume "m' k = m k"
    then show ?thesis by (simp add: option.rel_refl)
  next
    assume "\<exists>d d'. m k = Some d \<and> IsScaledDownByOperator d \<and> intended d \<noteq> None \<and>
      m' k = Some d' \<and> depEq d' (restored d)"
    then show ?thesis using sameIntent_depEq [OF intent_restored depEq_refl] by auto
  qed
qed

end

context plugin_world
begin

text \<open>One step of the loop, as a change of the Deployments it meets.\<close>

lemma restoreLoop_step:
  assumes "run_state (restoreLoop E P (d # ds)) w = (c, w')" and "deps w (dkey d) = Some d"
  obtains w1 c1 where "run_state (restoreLoop E P ds) w1 = (c1, w')"
    and "\<forall>k. k \<noteq> dkey d \<longrightarrow> deps w1 k = deps w k" and "givenBack (deps w) (deps w1)"
    and "reliable_api E deps \<longrightarrow> intended d \<noteq> None \<longrightarrow>
      (\<exists>d1. deps w1 (dkey d) = Some d1 \<and> \<not> IsScaledDownByOperator d1)"
proof (cases "IsScaledDownByOperator d")
  case False
  with assms show ?thesis by (intro that [of w c]) (auto simp: givenBack_def)
next
  case marked: True
  show ?thesis
  proof (cases "intended d")
    case None
    then obtain s u v1 where p: "run_state (pPrint P s) w = (u, v1)"
      and run: "run_state (restoreLoop E P ds) v1 = (c, w')"
      using assms(1) marked
      by (auto simp: intended_def IsScaledDown_annOf split: option.splits sum.splits prod.splits)
    from keepsD [OF print_same p] have "deps v1 = deps w" by (simp add: same_def)
    with run None show ?thesis by (intro that [of v1 c]) (auto simp: givenBack_def)
  next
    case (Some m)
    then obtain str v where o: "annOf d AnnotationOriginalReplicas = Some str" "ParseInt32 str = Inr v"
      using marked by (auto simp: intended_def IsScaledDown_annOf split: option.splits sum.splits)
    obtain x w1 where p: "run_state (ePatchDeployment E d (restoredBy v d)) w = (x, w1)"
      by (cases "run_state (ePatchDeployment E d (restoredBy v d)) w") auto
    have one: "deps w1 = deps w \<and> (\<exists>e. x = Inl e) \<or>
        (\<exists>d'. depEq d' (restored d) \<and> deps w1 = (deps w)(dkey d \<mapsto> d'))"
      using patch_result [OF p assms(2) depEq_refl] restoredBy_restored [OF marked o]
      by (auto simp: restoredBy_def)
    obtain s u v1 c' where pr: "run_state (pPrint P s) w1 = (u, v1)"
      and run: "run_state (restoreLoop E P ds) v1 = (c', w')"
      using assms(1) marked o p by (cases x) (auto split: prod.splits)
    from keepsD [OF print_same pr] have v1: "deps v1 = deps w1" by (simp add: same_def)
    show ?thesis
    proof (rule that [OF run])
      show "\<forall>k. k \<noteq> dkey d \<longrightarrow> deps v1 k = deps w k" using one v1 by auto
      show "givenBack (deps w) (deps v1)"
        using one v1 assms(2) marked Some by (auto simp: givenBack_def)
      have "\<exists>d1. deps v1 (dkey d) = Some d1 \<and> \<not> IsScaledDownByOperator d1" if "reliable_api E deps"
      proof -
        from reliable_api.patch_up [OF that, of w d "restoredBy v d"] assms(2) p
        have "\<exists>y. x = Inr y" by auto
        with one obtain d' where "depEq d' (restored d)" "deps w1 = (deps w)(dkey d \<mapsto> d')" by auto
        with v1 depEq_scaled show ?thesis by (metis fun_upd_same restored_unmarked)
      qed
      then show "reliable_api E deps \<longrightarrow> intended d \<noteq> None \<longrightarrow>
        (\<exists>d1. deps v1 (dkey d) = Some d1 \<and> \<not> IsScaledDownByOperator d1)" by blast
    qed
  qed
qed

lemma restoreLoop_tail:
  assumes "distinct (map dName (d # ds))" and stored: "\<And>y. y \<in> set (d # ds) \<Longrightarrow> m (dkey y) = Some y"
    and "\<And>y. y \<in> set (d # ds) \<Longrightarrow> dNamespace y = ns" and frame: "\<forall>k. k \<noteq> dkey d \<longrightarrow> m1 k = m k"
  shows "distinct (map dName ds)" and "\<And>y. y \<in> set ds \<Longrightarrow> m1 (dkey y) = Some y"
    and "\<And>y. y \<in> set ds \<Longrightarrow> dNamespace y = ns"
proof -
  show "distinct (map dName ds)" using assms(1) by simp
  show "dNamespace y = ns" if "y \<in> set ds" for y using assms(3) that by simp
  show "m1 (dkey y) = Some y" if y: "y \<in> set ds" for y
  proof -
    from y assms(1,3) have "dkey y \<noteq> dkey d" by (auto simp: dkey_def image_iff)
    with frame have "m1 (dkey y) = m (dkey y)" by blast
    with stored [of y] y show ?thesis by simp
  qed
qed

lemma restoreLoop_given:
  assumes "run_state (restoreLoop E P ds) w = (c, w')" and "distinct (map dName ds)"
    and "\<And>d. d \<in> set ds \<Longrightarrow> deps w (dkey d) = Some d"
    and "\<And>d. d \<in> set ds \<Longrightarrow> dNamespace d = ns"
  shows "givenBack (deps w) (deps w')"
  using assms
proof (induction ds arbitrary: w c)
  case Nil
  then show ?case by (simp add: givenBack_def)
next
  case (Cons d ds)
  obtain w1 c1 where run: "run_state (restoreLoop E P ds) w1 = (c1, w')"
    and frame: "\<forall>k. k \<noteq> dkey d \<longrightarrow> deps w1 k = deps w k" and given: "givenBack (deps w) (deps w1)"
    by (rule restoreLoop_step [OF Cons.prems(1) Cons.prems(3)]) simp_all
  from restoreLoop_tail [OF Cons.prems(2-4) frame] have "givenBack (deps w1) (deps w')"
    by (intro Cons.IH [OF run])
  with given givenBack_rules(1) [of "\<lambda>x. x"] show ?case by (blast dest: transpD)
qed

lemma restoreLoop_up:
  assumes "run_state (restoreLoop E P ds) w = (c, w')" and "distinct (map dName ds)"
    and "\<And>d. d \<in> set ds \<Longrightarrow> deps w (dkey d) = Some d"
    and "\<And>d. d \<in> set ds \<Longrightarrow> dNamespace d = ns"
    and "reliable_api E deps" and "x \<in> set ds" and "intended x \<noteq> None"
  shows "\<exists>d'. deps w' (dkey x) = Some d' \<and> \<not> IsScaledDownByOperator d'"
  using assms(1-4,6)
proof (induction ds arbitrary: w c)
  case (Cons d ds)
  obtain w1 c1 where run: "run_state (restoreLoop E P ds) w1 = (c1, w')"
    and frame: "\<forall>k. k \<noteq> dkey d \<longrightarrow> deps w1 k = deps w k"
    and given: "reliable_api E deps \<longrightarrow> intended d \<noteq> None \<longrightarrow>
      (\<exists>d1. deps w1 (dkey d) = Some d1 \<and> \<not> IsScaledDownByOperator d1)"
    by (rule restoreLoop_step [OF Cons.prems(1) Cons.prems(3)]) simp_all
  note ds = restoreLoop_tail [OF Cons.prems(2-4) frame]
  show ?case
  proof (cases "x = d")
    case False
    with Cons.IH [OF run ds] Cons.prems(5) show ?thesis by simp
  next
    case True
    with given assms(5,7) obtain d1 where d1: "deps w1 (dkey x) = Some d1" "\<not> IsScaledDownByOperator d1" by auto
    from restoreLoop_given [OF run ds] have "deps w' (dkey x) = deps w1 (dkey x) \<or>
      (\<exists>d d'. deps w1 (dkey x) = Some d \<and> IsScaledDownByOperator d \<and> intended d \<noteq> None \<and>
        deps w' (dkey x) = Some d' \<and> depEq d' (restored d))"
      unfolding givenBack_def by (rule spec)
    with d1 show ?thesis by auto
  qed
qed simp

end

context plugin_world
begin

lemma buildClient_keeps: "keeps (\<lambda>w w'. same w w' \<and> out w' = out w) (buildClient P)"
proof -
  have refl: "reflp (\<lambda>w w'. same w w' \<and> out w' = out w)" by (auto simp: reflp_def same_def)
  have trans: "transp (\<lambda>w w'. same w w' \<and> out w' = out w)" by (auto simp: transp_def same_def)
  show ?thesis
    unfolding buildClient_def loadConfig_def
    by (intro keeps_bind keeps_sum keeps_return refl trans inCluster_same config_same client_same)
qed

lemma withClient_run:
  assumes "run_state (withClient E P arg run) w = (r, w')"
  obtains (refused) e where "r = Some e" and "same w w'"
  | (ran) ns w1 where "validateNamespace E P arg = Inr ns" and "same w w1" and "out w1 = out w"
      and "run_state (run ns) w1 = (r, w')"
proof (cases "validateNamespace E P arg")
  case (Inl e)
  with assms show ?thesis by (intro refused [of e]) (auto simp: withClient_def same_def)
next
  case (Inr ns)
  obtain b w1 where b: "run_state (buildClient P) w = (b, w1)" by (cases "run_state (buildClient P) w") auto
  from keepsD [OF buildClient_keeps b] have s: "same w w1" and o: "out w1 = out w" by auto
  show ?thesis
  proof (cases b)
    case (Some e)
    with assms Inr b s show ?thesis by (intro refused) (auto simp: withClient_def andThen_def)
  next
    case None
    with assms Inr b s o show ?thesis by (intro ran) (auto simp: withClient_def andThen_def)
  qed
qed

text \<open>A restore by hand is one listing and one loop over what it answers.\<close>

lemma restoreCmd_run:
  assumes "run_state (restoreCmd E P arg) w = (r, w')"
  obtains (failed) e where "r = Some e" and "deps w' = deps w" and "same w w'"
  | (looped) ns ds c w1 w2 where "r = None" and "validateNamespace E P arg = Inr ns"
      and "deps w1 = deps w" and "run_state (restoreLoop E P ds) w1 = (c, w2)" and "deps w' = deps w2"
      and "distinct (map dName ds)" and "set ds = {d. \<exists>n. deps w (ns, n) = Some d}"
proof -
  from assms [unfolded restoreCmd_def] show ?thesis
  proof (cases rule: withClient_run)
    case (refused e)
    then show ?thesis by (intro failed) (simp_all add: same_def)
  next
    case (ran ns w1)
    obtain x w2 where list: "run_state (eListDeployments E ns) w1 = (x, w2)"
      by (cases "run_state (eListDeployments E ns) w1") auto
    from keepsD [OF list_same list] ran(2) have s2: "same w w2" and w2: "deps w2 = deps w" by (auto simp: same_def)
    show ?thesis
    proof (cases x)
      case (Inl e)
      with ran(4) list w2 s2 show ?thesis by (intro failed) auto
    next
      case (Inr ds)
      obtain c w3 where loop: "run_state (restoreLoop E P ds) w2 = (c, w3)"
        by (cases "run_state (restoreLoop E P ds) w2") auto
      let ?m = "if c = 0 then ''No workloads to restore.'' @ lf
        else lf @ ''Restored '' @ show_nat c @ '' workload(s).'' @ lf"
      obtain u w4 where p: "run_state (pPrint P ?m) w3 = (u, w4)" by (cases "run_state (pPrint P ?m) w3") auto
      from keepsD [OF print_same p] have "deps w4 = deps w3" by (simp add: same_def)
      moreover from ran(4) list Inr loop p have "r = None" "w' = w4" by (auto split: if_splits)
      moreover from list_ok [OF list [unfolded Inr]] ran(2)
      have "set ds = {d. \<exists>n. deps w (ns, n) = Some d}" "distinct (map dName ds)"
        by (simp_all add: same_def)
      ultimately show ?thesis using ran(1) w2 loop by (intro looped) auto
    qed
  qed
qed

lemma restoreCmd_given: "keeps (\<lambda>w w'. givenBack (deps w) (deps w')) (restoreCmd E P arg)"
proof (rule keepsI)
  fix w r w' assume "run_state (restoreCmd E P arg) w = (r, w')"
  then show "givenBack (deps w) (deps w')"
  proof (cases rule: restoreCmd_run)
    case (failed e)
    then show ?thesis by (simp add: givenBack_def)
  next
    case (looped ns ds c w1 w2)
    have "givenBack (deps w1) (deps w2)"
      by (rule restoreLoop_given [OF looped(4,6)])
        (use looped(3,7) stored_ns stored_key in \<open>auto simp: dkey_def\<close>)
    with looped(3,5) show ?thesis by simp
  qed
qed

lemma restoreCmd_up:
  assumes "run_state (restoreCmd E P arg) w = (None, w')" and "reliable_api E deps"
    and "validateNamespace E P arg = Inr ns" and "deps w (ns, m) = Some d" and "intended d \<noteq> None"
  shows "\<exists>d'. deps w' (ns, m) = Some d' \<and> \<not> IsScaledDownByOperator d' \<and> sameIntent d d'"
proof -
  from keepsD [OF restoreCmd_given assms(1)] have "depsSafe (deps w) (deps w')" by (rule givenBack_safe)
  then obtain d' where d': "deps w' (ns, m) = Some d'" "sameIntent d d'"
    using assms(4) by (rule depsSafe_at)
  from assms(1) show ?thesis
  proof (cases rule: restoreCmd_run)
    case (looped ns' ds c w1 w2)
    from looped(2) assms(3) have [simp]: "ns' = ns" by simp
    from stored_ns [OF assms(4)] have k: "dkey d = (ns, m)" by (simp add: dkey_def)
    from looped(7) assms(4) have d: "d \<in> set ds" by auto
    have "\<exists>e. deps w2 (dkey d) = Some e \<and> \<not> IsScaledDownByOperator e"
      by (rule restoreLoop_up [OF looped(4,6) _ _ assms(2) d assms(5), of ns])
        (use looped(3,7) stored_ns in \<open>auto simp: dkey_def\<close>)
    with k d' looped(5) show ?thesis by auto
  qed simp
qed

end

section \<open>The commands that only read\<close>

context plugin_world
begin

lemmas same_keeps = keeps_bind [OF transp_same] keeps_return [OF reflp_same] print_same write_same

lemma writeAll_same: "keeps same (writeAll P ss)"
  by (induction ss) (auto intro!: same_keeps split: option.split)

lemma rows_same:
  assumes "\<And>kept. keeps same (k kept)"
  shows "keeps same (rows P msg body kept k)"
  by (induction body arbitrary: kept)
    (auto simp: tabPrint_def assms intro!: same_keeps writeAll_same split: sum.split)

lemma table_same: "keeps same (table P a b c header body)"
  unfolding table_def
  by (intro rows_same) (auto simp: tabFlush_def andThen_def intro!: same_keeps split: option.split)

lemma listed_same: "keeps same t \<Longrightarrow> keeps same k \<Longrightarrow> keeps same (listed P title body t k)"
  by (auto simp: listed_def intro!: same_keeps split: option.split)

lemma printStatus_same: "keeps same (printStatus P ns st)"
  unfolding printStatus_def
  by (auto intro!: same_keeps table_same listed_same split: option.split)

lemma printReport_same: "keeps same (printReport P ns st)"
  unfolding printReport_def reportTable_def eventTable_def
  by (auto intro!: same_keeps table_same split: option.split)

lemma withClient_same:
  assumes "\<And>ns. keeps same (run ns)"
  shows "keeps same (withClient E P arg run)"
proof (rule keepsI)
  fix w r w'
  assume "run_state (withClient E P arg run) w = (r, w')"
  then show "same w w'"
  proof (cases rule: withClient_run)
    case (ran ns w1)
    with keepsD [OF assms ran(4)] show ?thesis by (simp add: same_def)
  qed
qed

lemma statusCmd_same: "keeps same (statusCmd E P arg)"
  unfolding statusCmd_def
  by (auto intro!: withClient_same same_keeps printStatus_same budget_same split: sum.split)

lemma reportCmd_same: "keeps same (reportCmd E P arg)"
  unfolding reportCmd_def
  by (auto intro!: withClient_same same_keeps printReport_same reports_same split: sum.split)

end

section \<open>What the terminal shows\<close>

definition listText :: "string \<Rightarrow> string \<Rightarrow> string list \<Rightarrow> string" where
  "listText title header body =
    (if body = [] then [] else lf @ title @ lf @ tabText (header @ concat body))"

text \<open>The text of a status.\<close>

definition statusText :: "string \<Rightarrow> NamespaceBudgetStatus \<Rightarrow> string" where
  "statusText ns st =
     tabText (''NAMESPACE'' @ tab @ ''PHASE'' @ tab @ ''BUDGET%'' @ tab @ ''CPU'' @ tab @ '' MEMORY'' @ tab
      @ ''LAST RECONCILE'' @ lf @ statusRow ns st)
     @ listText ''Idle workloads:'' (''  NAME'' @ tab @ ''IDLE SINCE'' @ lf) (map idleRow (stIdleWorkloads st))
     @ listText ''Conditions:'' (''  TYPE'' @ tab @ ''STATUS'' @ tab @ ''MESSAGE'' @ lf)
         (map conditionRow (stConditions st))"

text \<open>
  The summary is two lines with one width per column, unless a text of the status holds a tab
  or a line break.
\<close>

definition statusCells :: "string \<Rightarrow> NamespaceBudgetStatus \<Rightarrow> string list" where
  "statusCells ns st = [ns, stPhase st, show_int (sint (stBudgetPercent st)) @ ''%'',
     uCpu (stCurrentUsage st) @ '' cores'', uMemory (stCurrentUsage st) @ '' GiB'',
     formatDateTime (stLastReconcile st)]"

lemma summary_aligned:
  assumes "\<forall>c \<in> set (statusCells ns st). plainCell c"
  defines "rs \<equiv> [[''NAMESPACE'', ''PHASE'', ''BUDGET%'', ''CPU'', '' MEMORY'', ''LAST RECONCILE''], statusCells ns st]"
  shows "tabText (''NAMESPACE'' @ tab @ ''PHASE'' @ tab @ ''BUDGET%'' @ tab @ ''CPU'' @ tab @ '' MEMORY'' @ tab
      @ ''LAST RECONCILE'' @ lf @ statusRow ns st) =
    concat (map (\<lambda>r. writeCells (map (\<lambda>j. blockWidth j rs) [0..<5]) r @ lf) rs)"
proof -
  have "\<forall>r \<in> set rs. (\<forall>c \<in> set r. plainCell c) \<and> length r = Suc (Suc 4)"
    using assms(1) by (simp add: rs_def plainCell_def statusCells_def)
  from tabText_table [OF this]
  show ?thesis
    by (simp add: rs_def rowText_def statusCells_def statusRow_def tab_def lf_def joinWith_Cons)
qed

text \<open>What a tabwriter has handed on of a text.\<close>

definition handedOn :: "string \<Rightarrow> string" where
  "handedOn t = concat (map layoutText (fst (settle [] False t)))"

lemma handedOn_Nil [simp]: "handedOn [] = []"
  by (simp add: handedOn_def)

context plugin_world
begin

lemma andThen_ok:
  assumes "run_state (andThen msg m k) w = (None, w')"
  obtains w1 where "run_state m w = (None, w1)" and "run_state k w1 = (None, w')"
  using assms by (auto simp: andThen_def split: prod.splits option.splits)

lemma writeAll_out:
  assumes "run_state (writeAll P ss) w = (None, w')"
  shows "out w' = out w @ concat ss"
  using assms
proof (induction ss arbitrary: w)
  case (Cons s ss)
  then obtain w1 where 1: "run_state (pWrite P s) w = (None, w1)" and 2: "run_state (writeAll P ss) w1 = (None, w')"
    by (auto split: prod.splits option.splits)
  from write_out [OF 1] Cons.IH [OF 2] show ?case by simp
qed simp

lemma tabPrint_ok:
  assumes "run_state (tabPrint P (snd (settle [] False t)) s) w = (Inr kept, w')" and "out w = z @ handedOn t"
  shows "kept = snd (settle [] False (t @ s))" and "out w' = z @ handedOn (t @ s)"
proof -
  let ?t = "snd (settle [] False t) @ s"
  from assms(1) have kept: "kept = snd (settle [] False ?t)"
    and w: "run_state (writeAll P (map layoutText (fst (settle [] False ?t)))) w = (None, w')"
    by (auto simp: tabPrint_def split: prod.splits option.splits)
  show "kept = snd (settle [] False (t @ s))" by (simp only: kept settle_append(2) [of t s])
  show "out w' = z @ handedOn (t @ s)"
    using writeAll_out [OF w] assms(2) by (simp add: handedOn_def settle_append(1) [of t s])
qed

lemma rows_ok:
  assumes "run_state (rows P msg body (snd (settle [] False t)) k) w = (None, w')" and "out w = z @ handedOn t"
  obtains w1 where "run_state (k (snd (settle [] False (t @ concat body)))) w1 = (None, w')"
    and "out w1 = z @ handedOn (t @ concat body)"
  using assms
proof (induction body arbitrary: w t thesis)
  case (Cons r rs)
  from Cons.prems(2) obtain kept w1
    where 1: "run_state (tabPrint P (snd (settle [] False t)) r) w = (Inr kept, w1)"
      and 2: "run_state (rows P msg rs kept k) w1 = (None, w')"
    by (auto split: prod.splits sum.splits)
  note t = tabPrint_ok [OF 1 Cons.prems(3)]
  obtain w2 where "run_state (k (snd (settle [] False ((t @ r) @ concat rs)))) w2 = (None, w')"
    and "out w2 = z @ handedOn ((t @ r) @ concat rs)"
    by (rule Cons.IH [OF _ 2 [unfolded t(1)] t(2)])
  then show ?case by (intro Cons.prems(1)) simp_all
qed simp

lemma table_ok:
  assumes "run_state (table P a b c header body) w = (None, w')"
  shows "out w' = out w @ tabText (header @ concat body)"
proof -
  let ?flush = "\<lambda>kept. andThen c (tabFlush P kept) (State_Monad.return None)"
  have start: "snd (settle [] False []) = []" "out w = out w @ handedOn []" by simp_all
  from assms have "run_state (rows P a [header] (snd (settle [] False []))
      (\<lambda>kept. rows P b body kept ?flush)) w = (None, w')" by (simp add: table_def)
  then obtain w1 where "run_state (rows P b body (snd (settle [] False ([] @ concat [header]))) ?flush) w1 = (None, w')"
    and "out w1 = out w @ handedOn ([] @ concat [header])"
    by (rule rows_ok [OF _ start(2)])
  then obtain w2 where "run_state (?flush (snd (settle [] False (([] @ concat [header]) @ concat body)))) w2 = (None, w')"
    and out: "out w2 = out w @ handedOn (([] @ concat [header]) @ concat body)"
    by (rule rows_ok)
  then obtain w3 where "run_state (tabFlush P (snd (settle [] False (header @ concat body)))) w2 = (None, w3)" "w3 = w'"
    by (auto elim: andThen_ok)
  with out write_out show ?thesis by (auto simp: tabFlush_def tabText_def handedOn_def)
qed

lemma listed_ok:
  assumes "run_state (listed P title body (table P a b c header body) k) w = (None, w')"
  obtains w1 where "out w1 = out w @ listText title header body" and "run_state k w1 = (None, w')"
proof (cases "body = []")
  case True
  with assms that show ?thesis by (simp add: listed_def listText_def)
next
  case False
  obtain u w1 where p: "run_state (pPrint P (lf @ title @ lf)) w = (u, w1)"
    by (cases "run_state (pPrint P (lf @ title @ lf)) w") auto
  from assms False p obtain w2 where t: "run_state (table P a b c header body) w1 = (None, w2)"
    and k: "run_state k w2 = (None, w')"
    by (auto simp: listed_def split: prod.splits option.splits)
  from table_ok [OF t] print_out [OF p] False
  have "out w2 = out w @ listText title header body" by (simp add: listText_def)
  with k show ?thesis by (rule that [rotated])
qed

lemma printStatus_ok:
  assumes "run_state (printStatus P ns st) w = (None, w')"
  shows "out w' = out w @ statusText ns st"
proof -
  let ?h = "''NAMESPACE'' @ tab @ ''PHASE'' @ tab @ ''BUDGET%'' @ tab @ ''CPU'' @ tab @ '' MEMORY'' @ tab
      @ ''LAST RECONCILE'' @ lf"
  let ?t = "table P ''writing status header'' ''writing status'' ''flushing status'' ?h [statusRow ns st]"
  obtain r w1 where t: "run_state ?t w = (r, w1)" by (cases "run_state ?t w") auto
  with assms have r: "r = None" by (cases r) (auto simp: printStatus_def)
  let ?k = "listed P ''Conditions:'' (map conditionRow (stConditions st))
              (table P ''writing conditions header'' ''writing condition'' ''flushing conditions''
                (''  TYPE'' @ tab @ ''STATUS'' @ tab @ ''MESSAGE'' @ lf)
                (map conditionRow (stConditions st)))
              (State_Monad.return None)"
  from assms t r have "run_state (listed P ''Idle workloads:'' (map idleRow (stIdleWorkloads st))
            (table P ''writing idle header'' ''writing idle workload'' ''flushing idle workloads''
              (''  NAME'' @ tab @ ''IDLE SINCE'' @ lf) (map idleRow (stIdleWorkloads st))) ?k) w1 = (None, w')"
    by (simp add: printStatus_def)
  then obtain w2 where 2: "out w2 = out w1 @ listText ''Idle workloads:'' (''  NAME'' @ tab @ ''IDLE SINCE'' @ lf)
      (map idleRow (stIdleWorkloads st))" and "run_state ?k w2 = (None, w')" by (rule listed_ok)
  from this(2) obtain w3 where "out w3 = out w2 @ listText ''Conditions:''
      (''  TYPE'' @ tab @ ''STATUS'' @ tab @ ''MESSAGE'' @ lf) (map conditionRow (stConditions st))"
    and "run_state (State_Monad.return (None :: error option)) w3 = (None, w')" by (rule listed_ok)
  with 2 table_ok [OF t [unfolded r]] show ?thesis by (simp add: statusText_def)
qed

lemma statusCmd_ok:
  assumes "run_state (statusCmd E P arg) w = (None, w')"
  shows "\<exists>ns b. validateNamespace E P arg = Inr ns \<and> buds w (ns, ''budget'') = Some b \<and>
    out w' = out w @ statusText ns (nbStatus b)"
  using assms [unfolded statusCmd_def]
proof (cases rule: withClient_run)
  case (ran ns w1)
  obtain x w2 where get: "run_state (eGetBudget E ns ''budget'') w1 = (x, w2)"
    by (cases "run_state (eGetBudget E ns ''budget'') w1") auto
  with ran(4) obtain b where x: "x = Inr b" by (cases x) auto
  from budget_ok [OF get [unfolded x]] ran(2) have "buds w (ns, ''budget'') = Some b" by (simp add: same_def)
  moreover from ran(4) get x have "run_state (printStatus P ns (nbStatus b)) w2 = (None, w')" by simp
  from printStatus_ok [OF this] keepsD [OF budget_out get] ran(3)
  have "out w' = out w @ statusText ns (nbStatus b)" by simp
  ultimately show ?thesis using ran(1) by blast
qed simp

end

section \<open>Periods compare as months\<close>

lemma append_less:
  "length xs = length us \<Longrightarrow> (xs @ ys < us @ vs) = (xs < us \<or> xs = us \<and> ys < (vs :: 'a :: linorder list))"
  by (induction xs us rule: list_induct2) auto

lemma digit_char_less: "d < 10 \<Longrightarrow> e < 10 \<Longrightarrow> (digit_char d < digit_char e) = (d < e)"
  unfolding less_char_def code_of_def [symmetric] by simp

lemma pad_inj: "n < 10 ^ k \<Longrightarrow> m < 10 ^ k \<Longrightarrow> (pad k n = pad k m) = (n = m)"
  by (metis digits_val_pad mod_less mult_zero_left add_0)

lemma pad_less: "n < 10 ^ k \<Longrightarrow> m < 10 ^ k \<Longrightarrow> (pad k n < pad k m) = (n < m)"
proof (induction k arbitrary: n m)
  case (Suc k)
  then have b: "n div 10 < 10 ^ k" "m div 10 < 10 ^ k" by (simp_all add: less_mult_imp_div_less mult.commute)
  have "(pad (Suc k) n < pad (Suc k) m) = (n div 10 < m div 10 \<or> n div 10 = m div 10 \<and> n mod 10 < m mod 10)"
    using Suc.IH [OF b] pad_inj [OF b] by (simp add: append_less digit_char_less)
  also have "\<dots> = (n < m)"
    using div_mult_mod_eq [of n 10] div_mult_mod_eq [of m 10] div_le_mono [of m n 10] by linarith
  finally show ?case .
qed simp

text \<open>For years of four digits the text order of the periods is the order of the months.\<close>

definition fourDigits :: "gotime \<Rightarrow> bool" where
  "fourDigits t \<longleftrightarrow> 0 \<le> yearOf t \<and> yearOf t \<le> 9999"

definition laterMonth :: "gotime \<Rightarrow> gotime \<Rightarrow> bool" where
  "laterMonth a b \<longleftrightarrow> yearOf b < yearOf a \<or> yearOf b = yearOf a \<and> monthOf b < monthOf a"

lemma padInt_pad: "0 \<le> n \<Longrightarrow> n < 10 ^ w \<Longrightarrow> padInt w n = pad w (nat n)"
  by (simp add: padInt_def)

lemma formatYM_less:
  assumes "fourDigits a" and "fourDigits b"
  shows "(formatYM b < formatYM a) = laterMonth a b"
proof -
  have m: "1 \<le> monthOf a" "monthOf a \<le> 12" "1 \<le> monthOf b" "monthOf b \<le> 12"
    by (rule dateOf_valid)+
  have p: "padInt 4 (yearOf a) = pad 4 (nat (yearOf a))" "padInt 4 (yearOf b) = pad 4 (nat (yearOf b))"
    "padInt 2 (monthOf a) = pad 2 (nat (monthOf a))" "padInt 2 (monthOf b) = pad 2 (nat (monthOf b))"
    using assms m by (auto simp: fourDigits_def intro!: padInt_pad)
  have l: "length (pad 4 (nat (yearOf b))) = length (pad 4 (nat (yearOf a)))" by (simp only: length_pad)
  have y: "nat (yearOf a) < 10 ^ 4" "nat (yearOf b) < 10 ^ 4" "nat (monthOf a) < 10 ^ 2" "nat (monthOf b) < 10 ^ 2"
    using assms m by (auto simp: fourDigits_def)
  have "(formatYM b < formatYM a) =
    (nat (yearOf b) < nat (yearOf a) \<or> nat (yearOf b) = nat (yearOf a) \<and> nat (monthOf b) < nat (monthOf a))"
    unfolding formatYM_def p append_less [OF l] pad_less [OF y(2,1)] pad_inj [OF y(2,1)]
    by (simp add: pad_less [OF y(4,3)])
  also have "\<dots> = laterMonth a b"
    using assms m by (auto simp: laterMonth_def fourDigits_def)
  finally show ?thesis .
qed

lemma formatYM_nonempty: "[] < formatYM t"
proof -
  have "formatYM t \<noteq> []" by (simp add: formatYM_def)
  then show ?thesis by (cases "formatYM t") auto
qed

context go_runtime
begin

lemma latest_max:
  assumes "items \<noteq> []"
  shows "latestReport E items \<in> set items \<and>
    (\<forall>r \<in> set items. rsPeriod (crStatus r) \<le> rsPeriod (crStatus (latestReport E items)))"
proof -
  let ?s = "sortSlice E laterPeriod items"
  have set: "set ?s = set items" by (rule set_perm [OF sortSlice_mset])
  with assms have "?s \<noteq> []" by auto
  then obtain x xs where s: "?s = x # xs" by (cases ?s) auto
  have "sorted_wrt (\<lambda>a b. \<not> laterPeriod b a) ?s"
    by (rule sortSlice_sorted) (auto simp: laterPeriod_def)
  with s have "\<forall>y \<in> set ?s. rsPeriod (crStatus y) \<le> rsPeriod (crStatus x)"
    by (auto simp: laterPeriod_def not_less)
  with s set show ?thesis by (auto simp: latestReport_def)
qed

end

section \<open>Properties\<close>

text \<open>
  C21. A restore by hand is atomic per Deployment: whatever fails, each one is afterwards
  exactly what it was or completely given back (its recorded count in place and the whole
  record gone), and it is given back only if it was marked with a usable record. There is
  no half-way state as a failing \<open>Restore\<close> of the operator can leave.
\<close>

theorem restore_cmd_atomic:
  assumes "plugin_world E deps buds reps slack same P out"
  shows "keeps (\<lambda>w w'. \<forall>k. deps w' k = deps w k \<or>
    (\<exists>d d'. deps w k = Some d \<and> IsScaledDownByOperator d \<and> intended d \<noteq> None \<and>
      deps w' k = Some d' \<and> depEq d' (restored d))) (restoreCmd E P arg)"
  using plugin_world.restoreCmd_given [OF assms] unfolding givenBack_def .

theorem restore_cmd_atomic_witness:
  "let w' = snd (run_state (restoreCmd memEnv memTty ''team'') (exCluster (exParked None) (exOver [] None)))
   in memDeps w' (''team'', ''api'') = Some (exParked None)"
proof -
  let ?w = "exCluster (exParked None) (exOver [] None)"
  obtain r w' where run: "run_state (restoreCmd memEnv memTty ''team'') ?w = (r, w')"
    by (cases "run_state (restoreCmd memEnv memTty ''team'') ?w") auto
  from keepsD [OF restore_cmd_atomic [OF memp.plugin_world_axioms] run]
  have "memDeps w' (''team'', ''api'') = memDeps ?w (''team'', ''api'') \<or>
    (\<exists>d d'. memDeps ?w (''team'', ''api'') = Some d \<and> IsScaledDownByOperator d \<and> intended d \<noteq> None \<and>
      memDeps w' (''team'', ''api'') = Some d' \<and> depEq d' (restored d))"
    by (rule spec)
  with run show ?thesis by simp
qed

text \<open>
  C22. With an API server that is up a restore by hand that answers no error gives back every
  Deployment of the namespace that has a usable record; one without is passed over.
\<close>

theorem restore_cmd_complete:
  assumes "plugin_world E deps buds reps slack same P out" and "reliable_api E deps"
    and "run_state (restoreCmd E P arg) w = (None, w')" and "validateNamespace E P arg = Inr ns"
    and "deps w (ns, m) = Some d" and "intended d \<noteq> None"
  shows "\<exists>d'. deps w' (ns, m) = Some d' \<and> \<not> IsScaledDownByOperator d' \<and> sameIntent d d'"
  by (rule plugin_world.restoreCmd_up [OF assms(1,3,2,4-6)])

theorem restore_cmd_complete_witness:
  "\<exists>w' d'. run_state (restoreCmd calmEnv memTty '' team'')
      (exCluster (exParked (Some ''3'')) (exOver [] None)) = (None, w') \<and>
    memDeps w' (''team'', ''api'') = Some d' \<and> \<not> IsScaledDownByOperator d' \<and> intended d' = Some 3"
proof -
  let ?w = "exCluster (exParked (Some ''3'')) (exOver [] None)"
  have v: "validateNamespace E memTty '' team'' = Inr ''team''" for E :: "(mem, 's) env" by code_simp
  have "fst (run_state (restoreCmd calmEnv memTty '' team'') ?w) = None"
    by (simp add: restoreCmd_def withClient_def v andThen_def split: prod.split)
  then obtain w' where run: "run_state (restoreCmd calmEnv memTty '' team'') ?w = (None, w')"
    by (cases "run_state (restoreCmd calmEnv memTty '' team'') ?w") auto
  from restore_cmd_complete [OF calmp.plugin_world_axioms calm.reliable_api_axioms run v,
      of "''api''" "exParked (Some ''3'')"]
  have "\<exists>d'. memDeps w' (''team'', ''api'') = Some d' \<and> \<not> IsScaledDownByOperator d' \<and>
      sameIntent (exParked (Some ''3'')) d'"
    by simp
  with run show ?thesis by (auto simp: sameIntent_def)
qed

text \<open>
  C39. The report that is printed is one of the newest month: the text order of the periods
  the generator writes is the order of the months (years of four digits), and a report
  whose status was never written comes after every other.
\<close>

theorem latest_report_newest:
  assumes "go_runtime E"
    and "\<forall>r \<in> set items. rsPeriod (crStatus r) = [] \<or>
      (\<exists>t. fourDigits t \<and> rsPeriod (crStatus r) = formatYM t)"
    and "s \<in> set items" and "fourDigits u" and "rsPeriod (crStatus s) = formatYM u"
  shows "latestReport E items \<in> set items \<and>
    (\<exists>t. fourDigits t \<and> rsPeriod (crStatus (latestReport E items)) = formatYM t \<and> \<not> laterMonth u t)"
proof -
  let ?l = "latestReport E items"
  from assms(3) have "items \<noteq> []" by auto
  from go_runtime.latest_max [OF assms(1) this] assms(3,5)
  have l: "?l \<in> set items" and max: "formatYM u \<le> rsPeriod (crStatus ?l)" by auto
  from max formatYM_nonempty [of u] have "rsPeriod (crStatus ?l) \<noteq> []" by auto
  with assms(2) l obtain t where t: "fourDigits t" "rsPeriod (crStatus ?l) = formatYM t" by blast
  from max t(2) have "\<not> formatYM t < formatYM u" by (simp add: leD)
  then have "\<not> laterMonth u t" by (simp only: formatYM_less [OF assms(4) t(1)] not_False_eq_True)
  with l t show ?thesis by blast
qed

definition exReport :: "string \<Rightarrow> CostReport" where
  "exReport period = \<lparr>crName = period, crNamespace = ''team'',
     crStatus = emptyReportStatus\<lparr>rsPeriod := period\<rparr>\<rparr>"

theorem latest_report_newest_witness:
  "\<exists>t. rsPeriod (crStatus (latestReport memEnv [exReport [], exReport (formatYM exNoon)])) = formatYM t \<and>
    \<not> laterMonth exNoon t"
proof -
  have "yearOf exNoon = 2026" by code_simp
  then have y: "fourDigits exNoon" by (simp add: fourDigits_def)
  have "\<forall>r \<in> set [exReport [], exReport (formatYM exNoon)]. rsPeriod (crStatus r) = [] \<or>
      (\<exists>t. fourDigits t \<and> rsPeriod (crStatus r) = formatYM t)"
    using y by (auto simp: exReport_def)
  from latest_report_newest [OF memrt.go_runtime_axioms this _ y, of "exReport (formatYM exNoon)"]
  show ?thesis by (auto simp: exReport_def)
qed

text \<open>
  C40. A status command that answers no error has shown the budget named budget of the
  namespace as it is stored, and nothing else: its summary, then every idle workload and every
  condition once and in order, each of the three tables laid out as a whole by the
  tabwriter although it is printed line by line.
\<close>

theorem status_output_exact:
  assumes "plugin_world E deps buds reps slack same P out"
    and "run_state (statusCmd E P arg) w = (None, w')"
  shows "\<exists>ns b. validateNamespace E P arg = Inr ns \<and> buds w (ns, ''budget'') = Some b \<and>
    out w' = out w @ statusText ns (nbStatus b)"
  by (rule plugin_world.statusCmd_ok [OF assms])

theorem status_output_exact_witness:
  "\<exists>w'. run_state (statusCmd memEnv memTty ''team'') (exCluster (exParked None) (exOver [] None)) = (None, w') \<and>
    memOut w' = statusText ''team'' (exUsed ''150'' ''0'')"
proof -
  let ?w = "exCluster (exParked None) (exOver [] None)"
  have v: "validateNamespace E memTty ''team'' = Inr ''team''" for E :: "(mem, 's) env" by code_simp
  have "fst (run_state (statusCmd memEnv memTty ''team'') ?w) = None"
    by (simp add: statusCmd_def withClient_def v andThen_def lookupOr404_def memTty_printStatus
        split: prod.split)
  then obtain w' where run: "run_state (statusCmd memEnv memTty ''team'') ?w = (None, w')"
    by (cases "run_state (statusCmd memEnv memTty ''team'') ?w") auto
  have "memOut ?w = []" by (simp add: memOut_def exCluster_def exMem_def)
  with status_output_exact [OF memp.plugin_world_axioms run] v run show ?thesis
    by (auto split: if_splits)
qed

end
