(* ===== verification/CommandLine.thy ===== *)
theory CommandLine
  imports Plugin
begin

text \<open>
  \<^verbatim>\<open>cmd/kubectl-budget/main.go\<close> and the \<^verbatim>\<open>cobra.Command\<close> values of the three commands. The
  parsing and dispatching of \<^verbatim>\<open>cobra\<close> (\<^verbatim>\<open>Execute\<close>) is an argument; the locale \<open>command_line\<close> has
  what is relied on. Shown: a run with a failing exit status left the cluster alone.
\<close>

section \<open>Commands\<close>

text \<open>
  \<^verbatim>\<open>cobra.ExactArgs(n)\<close> is \<open>Some n\<close>; a command without \<^verbatim>\<open>RunE\<close> prints its help.
\<close>

datatype 'w Command = Command
  (cmdUse: string) (cmdShort: string) (cmdArgs: "nat option")
  (cmdRunE: "(string list \<Rightarrow> ('w, error option) io) option") (cmdSubs: "'w Command list")

definition statusCommand :: "('w, 'sel) env \<Rightarrow> ('w, 'cfg) plugin \<Rightarrow> 'w Command" where
  "statusCommand E P = Command ''status <namespace>'' ''Show budget status for a namespace''
     (Some 1) (Some (\<lambda>args. statusCmd E P (args ! 0))) []"

definition restoreCommand :: "('w, 'sel) env \<Rightarrow> ('w, 'cfg) plugin \<Rightarrow> 'w Command" where
  "restoreCommand E P = Command ''restore <namespace>''
     ''Restore all workloads scaled down by the cost governor''
     (Some 1) (Some (\<lambda>args. restoreCmd E P (args ! 0))) []"

definition reportCommand :: "('w, 'sel) env \<Rightarrow> ('w, 'cfg) plugin \<Rightarrow> 'w Command" where
  "reportCommand E P = Command ''report <namespace>'' ''Print the latest cost report for a namespace''
     (Some 1) (Some (\<lambda>args. reportCmd E P (args ! 0))) []"

definition rootCommand :: "('w, 'sel) env \<Rightarrow> ('w, 'cfg) plugin \<Rightarrow> 'w Command" where
  "rootCommand E P = Command ''kubectl-budget'' ''Manage namespace cost budgets'' None None
     [statusCommand E P, restoreCommand E P, reportCommand E P]"

text \<open>The exit status.\<close>

definition pluginMain ::
  "('w Command \<Rightarrow> string list \<Rightarrow> ('w, error option) io) \<Rightarrow> ('w, 'sel) env \<Rightarrow> ('w, 'cfg) plugin
     \<Rightarrow> string list \<Rightarrow> ('w, int) io" where
  "pluginMain execute E P args = do {
     r \<leftarrow> execute (rootCommand E P) args;
     State_Monad.return (case r of Some _ \<Rightarrow> 1 | None \<Rightarrow> 0) }"

section \<open>What is relied on\<close>

text \<open>
  \<^verbatim>\<open>Execute\<close> runs at most one of the subcommands, once, on as many arguments as it wants, and
  answers its error; what it does besides (help, usage, the text of an error) leaves the
  cluster alone.
\<close>

locale command_line = plugin_world E deps buds reps slack same P out
  for E :: "('w, 'sel) env" and deps :: "'w \<Rightarrow> objkey \<rightharpoonup> deployment"
    and buds :: "'w \<Rightarrow> objkey \<rightharpoonup> 'sel NamespaceBudget" and reps :: "'w \<Rightarrow> objkey \<rightharpoonup> CostReport"
    and slack :: "'w \<Rightarrow> SlackMessage list" and same :: "'w \<Rightarrow> 'w \<Rightarrow> bool"
    and P :: "('w, 'cfg) plugin" and out :: "'w \<Rightarrow> string" +
  fixes execute :: "'w Command \<Rightarrow> string list \<Rightarrow> ('w, error option) io"
  assumes execute_runs: "run_state (execute cmd args) w = (r, w') \<Longrightarrow> same w w' \<or>
    (\<exists>c run as w1 w2. c \<in> set (cmdSubs cmd) \<and> cmdRunE c = Some run \<and>
      cmdArgs c \<in> {None, Some (length as)} \<and>
      same w w1 \<and> run_state (run as) w1 = (r, w2) \<and> same w2 w')"
begin

text \<open>Either no cluster object was touched, or \<open>restore\<close> ran on one argument and answered no error.\<close>

lemma pluginMain_run:
  assumes "run_state (pluginMain execute E P args) w = (s, w')"
  obtains (harmless) "s \<in> {0, 1}" and "same w w'"
  | (restored) ns w1 w2 where "s = 0" and "same w w1"
      and "run_state (restoreCmd E P ns) w1 = (None, w2)" and "same w2 w'"
proof -
  obtain r where r: "run_state (execute (rootCommand E P) args) w = (r, w')" and s: "s = (case r of Some _ \<Rightarrow> 1 | None \<Rightarrow> 0)"
    using assms by (auto simp: pluginMain_def split: prod.splits)
  have 01: "s \<in> {0, 1}" by (cases r) (simp_all add: s)
  from execute_runs [OF r] show ?thesis
  proof (elim disjE exE conjE)
    fix c run as w1 w2
    assume c: "c \<in> set (cmdSubs (rootCommand E P))" "cmdRunE c = Some run"
      and w1: "same w w1" and run: "run_state (run as) w1 = (r, w2)" and w2: "same w2 w'"
    from c consider "run = (\<lambda>args. statusCmd E P (args ! 0))" | "run = (\<lambda>args. reportCmd E P (args ! 0))"
      | "run = (\<lambda>args. restoreCmd E P (args ! 0))"
      by (auto simp: rootCommand_def statusCommand_def restoreCommand_def reportCommand_def)
    then show ?thesis
    proof cases
      case 1
      with run keepsD [OF statusCmd_same] have "same w1 w2" by blast
      with w1 w2 show ?thesis by (intro harmless [OF 01]) (simp add: same_def)
    next
      case 2
      with run keepsD [OF reportCmd_same] have "same w1 w2" by blast
      with w1 w2 show ?thesis by (intro harmless [OF 01]) (simp add: same_def)
    next
      case 3
      with run have restore: "run_state (restoreCmd E P (as ! 0)) w1 = (r, w2)" by simp
      then show ?thesis
      proof (cases rule: restoreCmd_run)
        case failed
        with w1 w2 show ?thesis by (intro harmless [OF 01]) (simp add: same_def)
      next
        case looped
        with restore w1 w2 show ?thesis by (intro restored [of w1 "as ! 0" w2]) (simp_all add: s)
      qed
    qed
  qed (rule harmless [OF 01])
qed

lemma pluginMain_harmless:
  assumes "run_state (pluginMain execute E P args) w = (s, w')"
  shows "s = 0 \<or> s = 1 \<and> deps w' = deps w \<and> buds w' = buds w \<and> reps w' = reps w"
  using assms by (cases rule: pluginMain_run) (auto simp: same_def)

end

section \<open>A command line in memory\<close>

definition memExecute :: "'w Command \<Rightarrow> string list \<Rightarrow> ('w, error option) io" where
  "memExecute cmd args =
    (case args of
       [] \<Rightarrow> State_Monad.return None
     | name # as \<Rightarrow>
         (case find (\<lambda>c. takeWhile (\<lambda>x. x \<noteq> CHR '' '') (cmdUse c) = name) (cmdSubs cmd) of
            None \<Rightarrow> State_Monad.return (Some (Plain (''unknown command '' @ name)))
          | Some c \<Rightarrow>
              (case (cmdArgs c, cmdRunE c) of
                 (_, None) \<Rightarrow> State_Monad.return None
               | (None, Some run) \<Rightarrow> run as
               | (Some n, Some run) \<Rightarrow>
                   if length as = n then run as
                   else State_Monad.return (Some (Plain ''wrong number of arguments'')))))"

lemma memExecute_else:
  assumes "\<not> (\<exists>c run as. c \<in> set (cmdSubs cmd) \<and> cmdRunE c = Some run \<and>
    cmdArgs c \<in> {None, Some (length as)} \<and> memExecute cmd args = run as)"
  shows "\<exists>e. memExecute cmd args = State_Monad.return e"
proof (cases args)
  case (Cons name as)
  show ?thesis
  proof (cases "find (\<lambda>c. takeWhile (\<lambda>x. x \<noteq> CHR '' '') (cmdUse c) = name) (cmdSubs cmd)")
    case (Some c)
    then have "c \<in> set (cmdSubs cmd)" by (auto simp: find_Some_iff)
    with assms have "cmdRunE c = Some f \<Longrightarrow> cmdArgs c \<in> {None, Some (length as)} \<Longrightarrow> memExecute cmd args \<noteq> f as" for f
      by blast
    with Some Cons show ?thesis by (auto simp: memExecute_def split: option.splits)
  qed (auto simp: memExecute_def Cons)
qed (auto simp: memExecute_def)

interpretation memcl: command_line memEnv memDeps memBuds memReps mSlack memSame memTty memOut memExecute
proof unfold_locales
  fix cmd :: "mem Command" and args w r w'
  assume run: "run_state (memExecute cmd args) w = (r, w')"
  have refl: "memSame v v" for v by (simp add: memSame_def)
  show "memSame w w' \<or> (\<exists>c run as w1 w2. c \<in> set (cmdSubs cmd) \<and> cmdRunE c = Some run \<and>
      cmdArgs c \<in> {None, Some (length as)} \<and>
      memSame w w1 \<and> run_state (run as) w1 = (r, w2) \<and> memSame w2 w')"
  proof (cases "\<exists>c run as. c \<in> set (cmdSubs cmd) \<and> cmdRunE c = Some run \<and>
      cmdArgs c \<in> {None, Some (length as)} \<and> memExecute cmd args = run as")
    case True
    then obtain c f as where "c \<in> set (cmdSubs cmd)" "cmdRunE c = Some f"
      "cmdArgs c \<in> {None, Some (length as)}" "memExecute cmd args = f as" by blast
    with run refl show ?thesis
      by (intro disjI2 exI [of _ c] exI [of _ f] exI [of _ as] exI [of _ w] exI [of _ w']) simp
  next
    case False
    then have "\<exists>e. memExecute cmd args = State_Monad.return e" by (rule memExecute_else)
    with run refl show ?thesis by auto
  qed
qed

section \<open>Guarantee\<close>

text \<open>
  C23. The exit status of the plugin is 0 or 1, and a run that ends with 1 has changed no
  Deployment, no budget and no report: a restore by hand fails, if it fails, before its first
  patch. (A patch that fails later is printed and does not change the exit status.)
\<close>

theorem plugin_failure_harmless:
  assumes "command_line E deps buds reps slack same P out execute"
    and "run_state (pluginMain execute E P args) w = (s, w')"
  shows "s = 0 \<or> s = 1 \<and> deps w' = deps w \<and> buds w' = buds w \<and> reps w' = reps w"
  by (rule command_line.pluginMain_harmless [OF assms])

theorem plugin_failure_harmless_witness:
  "\<exists>w'. run_state (pluginMain memExecute memEnv memTty [''restore'', '' '']) (exCluster (exParked None) (exOver [] None)) =
      (1, w') \<and> memDeps w' (''team'', ''api'') = Some (exParked None)"
proof -
  let ?w = "exCluster (exParked None) (exOver [] None)"
  have v: "validateNamespace E memTty '' '' = Inl (Plain ''namespace cannot be empty'')" for E :: "(mem, 's) env"
    by code_simp
  have s: "fst (run_state (pluginMain memExecute memEnv memTty [''restore'', '' '']) ?w) = 1"
    by (simp add: pluginMain_def memExecute_def rootCommand_def statusCommand_def restoreCommand_def
        restoreCmd_def withClient_def v)
  obtain w' where run: "run_state (pluginMain memExecute memEnv memTty [''restore'', '' '']) ?w = (1, w')"
    using s by (metis prod.collapse)
  from plugin_failure_harmless [OF memcl.command_line_axioms run] have "memDeps w' = memDeps ?w" by simp
  with run show ?thesis by simp
qed

end
