(* ===== verification/Registration.thy ===== *)
theory Registration
  imports Controller
begin

text \<open>
  \<^verbatim>\<open>api/v1alpha1/groupversion_info.go\<close>, the \<^verbatim>\<open>init\<close> functions that register the types of the
  API group, and the two \<^verbatim>\<open>SetupWithManager\<close>. The schemes of apimachinery and the builder of
  controller-runtime are arguments; what the code hands to them is a value here. Shown: every
  type a controller is set up for is registered, exactly once.
\<close>

section \<open>The API group\<close>

record GroupVersion =
  gvGroup :: string
  gvVersion :: string

definition SchemeGroupVersion :: GroupVersion where
  "SchemeGroupVersion = \<lparr>gvGroup = ''cost.cost.platform.io'', gvVersion = ''v1alpha1''\<rparr>"

text \<open>The Go types that are handed to a scheme.\<close>

datatype apiType = NamespaceBudgetType | NamespaceBudgetListType | CostReportType | CostReportListType

text \<open>
  \<^verbatim>\<open>SchemeBuilder\<close> is its group version and the calls of \<^verbatim>\<open>Register\<close> it has seen. Go runs the
  \<^verbatim>\<open>init\<close> functions of a package in the order of its files.
\<close>

record schemeBuilder =
  sbGroupVersion :: GroupVersion
  sbRegistered :: "apiType list list"

definition Register :: "schemeBuilder \<Rightarrow> apiType list \<Rightarrow> schemeBuilder" where
  "Register b types = b\<lparr>sbRegistered := sbRegistered b @ [types]\<rparr>"

definition emptyBuilder :: schemeBuilder where
  "emptyBuilder = \<lparr>sbGroupVersion = SchemeGroupVersion, sbRegistered = []\<rparr>"

definition initCostReport :: "schemeBuilder \<Rightarrow> schemeBuilder" where
  "initCostReport b = Register b [CostReportType, CostReportListType]"

definition initNamespaceBudget :: "schemeBuilder \<Rightarrow> schemeBuilder" where
  "initNamespaceBudget b = Register b [NamespaceBudgetType, NamespaceBudgetListType]"

definition SchemeBuilder :: schemeBuilder where
  "SchemeBuilder = initNamespaceBudget (initCostReport emptyBuilder)"

text \<open>
  The \<^verbatim>\<open>init\<close> of \<^verbatim>\<open>cmd/main.go\<close>; \<^verbatim>\<open>utilruntime.Must\<close> panics on an error (\<open>None\<close>).
\<close>

definition initScheme ::
  "('sch \<Rightarrow> error + 'sch) \<Rightarrow> (schemeBuilder \<Rightarrow> 'sch \<Rightarrow> error + 'sch) \<Rightarrow> 'sch \<Rightarrow> 'sch option" where
  "initScheme clientgoAddToScheme addToScheme sch =
    (case clientgoAddToScheme sch of
       Inl _ \<Rightarrow> None
     | Inr sch1 \<Rightarrow>
         (case addToScheme SchemeBuilder sch1 of
            Inl _ \<Rightarrow> None
          | Inr sch2 \<Rightarrow> Some sch2))"

section \<open>The controllers\<close>

datatype eventPredicate = GenerationChangedPredicate

text \<open>What is handed to the builder of controller-runtime before \<^verbatim>\<open>Complete\<close>.\<close>

record controllerSetup =
  csFor :: apiType
  csPredicates :: "eventPredicate list"
  csNamed :: string

datatype reconcilerValue = NamespaceBudgetReconciler Reconciler | CostReportReconciler

definition SetupBudgetWithManager ::
  "(controllerSetup \<Rightarrow> reconcilerValue \<Rightarrow> ('w, error option) io) \<Rightarrow> Reconciler \<Rightarrow> ('w, error option) io" where
  "SetupBudgetWithManager finish r =
    finish \<lparr>csFor = NamespaceBudgetType, csPredicates = [GenerationChangedPredicate],
      csNamed = ''namespacebudget''\<rparr> (NamespaceBudgetReconciler r)"

definition SetupReportWithManager ::
  "(controllerSetup \<Rightarrow> reconcilerValue \<Rightarrow> ('w, error option) io) \<Rightarrow> ('w, error option) io" where
  "SetupReportWithManager finish =
    finish \<lparr>csFor = CostReportType, csPredicates = [], csNamed = ''costreport''\<rparr> CostReportReconciler"

section \<open>Facts\<close>

definition knownTypes :: "schemeBuilder \<Rightarrow> apiType set" where
  "knownTypes b = set (concat (sbRegistered b))"

lemma every_type_registered: "t \<in> knownTypes SchemeBuilder"
  by (cases t) (simp_all add: knownTypes_def SchemeBuilder_def initNamespaceBudget_def
      initCostReport_def Register_def emptyBuilder_def)

lemma registered_once: "distinct (concat (sbRegistered SchemeBuilder))"
  by (simp add: SchemeBuilder_def initNamespaceBudget_def initCostReport_def Register_def emptyBuilder_def)

text \<open>A builder that completes exactly the controllers of known types completes both.\<close>

lemma setups_known:
  assumes "\<And>c x. csFor c \<in> knownTypes SchemeBuilder \<Longrightarrow> finish c x = State_Monad.return None"
  shows "SetupBudgetWithManager finish r = State_Monad.return None"
    and "SetupReportWithManager finish = State_Monad.return None"
  by (simp_all add: SetupBudgetWithManager_def SetupReportWithManager_def assms every_type_registered)

end
