(* ===== verification/Startup.thy ===== *)
theory Startup
  imports Guarantees Registration
begin

text \<open>
  \<^verbatim>\<open>cmd/main.go\<close>: flags, environment, the options of the two servers and the wiring of the
  reconcilers; and the reconciler of cost reports, \<^verbatim>\<open>internal/controller/costreport_controller.go\<close>.
  Shown: what the program is once started, and when it refuses to start.
\<close>

section \<open>Flags and environment\<close>

record flags =
  fMetricsAddr :: string
  fProbeAddr :: string
  fEnableLeaderElection :: bool
  fSecureMetrics :: bool
  fWebhookCertPath :: string
  fWebhookCertName :: string
  fWebhookCertKey :: string
  fMetricsCertPath :: string
  fMetricsCertName :: string
  fMetricsCertKey :: string
  fPrometheusAddr :: string
  fEnableHTTP2 :: bool

text \<open>The values without a command line.\<close>

definition defaultFlags :: flags where
  "defaultFlags = \<lparr>fMetricsAddr = ''0'', fProbeAddr = '':8081'', fEnableLeaderElection = False,
     fSecureMetrics = True, fWebhookCertPath = [], fWebhookCertName = ''tls.crt'',
     fWebhookCertKey = ''tls.key'', fMetricsCertPath = [], fMetricsCertName = ''tls.crt'',
     fMetricsCertKey = ''tls.key'', fPrometheusAddr = ''http://prometheus:9090'', fEnableHTTP2 = False\<rparr>"

text \<open>\<open>getenv\<close> is \<^verbatim>\<open>os.Getenv\<close>: an unset variable and an empty one are the same.\<close>

definition getEnvOrDefault :: "(string \<Rightarrow> string) \<Rightarrow> string \<Rightarrow> string \<Rightarrow> string" where
  "getEnvOrDefault getenv key fallback =
    (let v = getenv key in if v \<noteq> [] then v else fallback)"

definition priceOf :: "(string \<Rightarrow> string) \<Rightarrow> string \<Rightarrow> string \<Rightarrow> f64 option" where
  "priceOf getenv key fallback =
    (case ParseFloat (getEnvOrDefault getenv key fallback) of
       (x, None) \<Rightarrow> Some x
     | (x, Some _) \<Rightarrow> None)"

section \<open>Servers\<close>

text \<open>Of a TLS configuration the program sets the protocols it offers only.\<close>

record tlsConfig =
  tlNextProtos :: "string list"

record serverOptions =
  soBindAddress :: string
  soSecureServing :: bool
  soAuth :: bool
  soTLSOpts :: "(tlsConfig \<Rightarrow> tlsConfig) list"
  soCertDir :: string
  soCertName :: string
  soKeyName :: string

definition disableHTTP2 :: "tlsConfig \<Rightarrow> tlsConfig" where
  "disableHTTP2 c = c\<lparr>tlNextProtos := [''http/1.1'']\<rparr>"

definition tlsOpts :: "flags \<Rightarrow> (tlsConfig \<Rightarrow> tlsConfig) list" where
  "tlsOpts f = (if \<not> fEnableHTTP2 f then [disableHTTP2] else [])"

definition withCert :: "string \<Rightarrow> string \<Rightarrow> string \<Rightarrow> serverOptions \<Rightarrow> serverOptions" where
  "withCert path name key so =
    (if 0 < length path then so\<lparr>soCertDir := path, soCertName := name, soKeyName := key\<rparr> else so)"

definition webhookServerOptions :: "flags \<Rightarrow> serverOptions" where
  "webhookServerOptions f =
    withCert (fWebhookCertPath f) (fWebhookCertName f) (fWebhookCertKey f)
      \<lparr>soBindAddress = [], soSecureServing = False, soAuth = False, soTLSOpts = tlsOpts f,
       soCertDir = [], soCertName = [], soKeyName = []\<rparr>"

definition metricsServerOptions :: "flags \<Rightarrow> serverOptions" where
  "metricsServerOptions f =
    withCert (fMetricsCertPath f) (fMetricsCertName f) (fMetricsCertKey f)
      \<lparr>soBindAddress = fMetricsAddr f, soSecureServing = fSecureMetrics f, soAuth = fSecureMetrics f,
       soTLSOpts = tlsOpts f, soCertDir = [], soCertName = [], soKeyName = []\<rparr>"

record 'sch managerOptions =
  moScheme :: 'sch
  moMetrics :: serverOptions
  moWebhookServer :: serverOptions
  moHealthProbeBindAddress :: string
  moLeaderElection :: bool
  moLeaderElectionID :: string

definition managerOptionsOf :: "'sch \<Rightarrow> flags \<Rightarrow> 'sch managerOptions" where
  "managerOptionsOf sch f = \<lparr>moScheme = sch, moMetrics = metricsServerOptions f, moWebhookServer = webhookServerOptions f,
     moHealthProbeBindAddress = fProbeAddr f, moLeaderElection = fEnableLeaderElection f,
     moLeaderElectionID = ''1a5211e3.cost.platform.io''\<rparr>"

section \<open>The program\<close>

text \<open>
  The manager of controller-runtime: every step of it can fail. \<open>mgComplete\<close> is the \<^verbatim>\<open>Complete\<close>
  of its controller builder.
\<close>

record ('w, 'sch) manager =
  mgNew :: "'sch managerOptions \<Rightarrow> ('w, error option) io"
  mgComplete :: "controllerSetup \<Rightarrow> reconcilerValue \<Rightarrow> ('w, error option) io"
  mgHealthz :: "('w, error option) io"
  mgReadyz :: "('w, error option) io"
  mgStart :: "('w, error option) io"

definition orExit :: "('w, error option) io \<Rightarrow> ('w, int) io \<Rightarrow> ('w, int) io" where
  "orExit m k = do {
     r \<leftarrow> m;
     (case r of Some _ \<Rightarrow> State_Monad.return 1 | None \<Rightarrow> k) }"

definition budgetReconciler :: "flags \<Rightarrow> f64 \<Rightarrow> f64 \<Rightarrow> Reconciler" where
  "budgetReconciler f cpuPrice memPrice = \<lparr>rPrometheusClient = NewClient (fPrometheusAddr f),
     rSlackWebhookURL = [], rCPUPricePerCoreHour = cpuPrice, rMemPricePerGiBHour = memPrice\<rparr>"

text \<open>The exit status of the program.\<close>

definition main :: "'sch \<Rightarrow> flags \<Rightarrow> (string \<Rightarrow> string) \<Rightarrow> ('w, 'sch) manager \<Rightarrow> ('w, int) io" where
  "main sch f getenv M =
    (case priceOf getenv ''CPU_PRICE_PER_CORE_HOUR'' ''0.048'' of
       None \<Rightarrow> State_Monad.return 1
     | Some cpuPrice \<Rightarrow>
         (case priceOf getenv ''MEM_PRICE_PER_GIB_HOUR'' ''0.006'' of
            None \<Rightarrow> State_Monad.return 1
          | Some memPrice \<Rightarrow>
              orExit (mgNew M (managerOptionsOf sch f))
             (orExit (SetupBudgetWithManager (mgComplete M) (budgetReconciler f cpuPrice memPrice))
             (orExit (SetupReportWithManager (mgComplete M))
             (orExit (mgHealthz M)
             (orExit (mgReadyz M)
             (orExit (mgStart M)
             (State_Monad.return 0))))))))"

text \<open>The program from its \<^verbatim>\<open>init\<close> functions on; a Go program that panics exits with status 2.\<close>

definition programRun ::
  "('sch \<Rightarrow> error + 'sch) \<Rightarrow> (schemeBuilder \<Rightarrow> 'sch \<Rightarrow> error + 'sch) \<Rightarrow> 'sch \<Rightarrow> flags
     \<Rightarrow> (string \<Rightarrow> string) \<Rightarrow> ('w, 'sch) manager \<Rightarrow> ('w, int) io" where
  "programRun clientgoAddToScheme addToScheme newScheme f getenv M =
    (case initScheme clientgoAddToScheme addToScheme newScheme of
       None \<Rightarrow> State_Monad.return 2
     | Some sch \<Rightarrow> main sch f getenv M)"

section \<open>The reconciler of cost reports\<close>

definition ReconcileReport :: "('w, Result \<times> error option) io" where
  "ReconcileReport = State_Monad.return (noResult, None)"

section \<open>Facts\<close>

lemma orExit_zero:
  assumes "run_state (orExit m k) w = (0, w')"
  obtains w1 where "run_state m w = (None, w1)" and "run_state k w1 = (0, w')"
  using assms by (auto simp: orExit_def split: prod.splits option.splits)

lemma orExit_status:
  assumes "run_state (orExit m k) w = (s, w')" and "\<And>w. fst (run_state k w) \<in> {0, 1}"
  shows "s \<in> {0, 1}"
proof -
  obtain r w1 where m: "run_state m w = (r, w1)" by (cases "run_state m w") auto
  with assms(1) assms(2) [of w1] show ?thesis by (cases r) (auto simp: orExit_def)
qed

lemma applied_protocols:
  "\<not> fEnableHTTP2 f \<Longrightarrow> tlNextProtos (foldl (\<lambda>c opt. opt c) c0 (tlsOpts f)) = [''http/1.1'']"
  "fEnableHTTP2 f \<Longrightarrow> foldl (\<lambda>c opt. opt c) c0 (tlsOpts f) = c0"
  by (simp_all add: tlsOpts_def disableHTTP2_def)

lemma withCert_TLS [simp]: "soTLSOpts (withCert p n k so) = soTLSOpts so"
  by (simp add: withCert_def)

context cluster
begin

text \<open>Without a webhook no reconciliation posts.\<close>

lemma Reconcile_silent:
  assumes "rSlackWebhookURL r = []"
  shows "keeps (\<lambda>w w'. slack w' = slack w) (Reconcile E r ns n)"
proof -
  have slack_of: "keeps (\<lambda>w w'. slack w' = slack w) m"
    if "keeps same m" for m :: "('w, 'b) io"
    using that by (rule keeps_mono) (simp add: same_def)
  have tick: "keeps (\<lambda>w w'. slack w' = slack w) (applyPhase E r ns prev b)" for prev b
  proof (rule keepsI)
    fix w x w' assume "run_state (applyPhase E r ns prev b) w = (x, w')"
    then have "run_state (applyPhase E r ns prev b) w = ((fst x, snd x), w')" by simp
    from applyPhase_slack [OF this] assms show "slack w' = slack w" by auto
  qed
  have gov: "keeps (\<lambda>w w'. slack w' = slack w) (governTick E r ns prev b)" for prev b
    unfolding governTick_def
    by (intro keeps_bind keeps_sum keeps_return view_rules tick slack_of QueryInstant_same now_same)
  have del: "keeps (\<lambda>w w'. slack w' = slack w) (handleDeletion E b)" for b
    unfolding handleDeletion_def
    by (intro keeps_bind keeps_if keeps_option keeps_return view_rules
        keeps_mono [OF cleanup_others] keeps_mono [OF update_frame]) simp_all
  have reg: "keeps (\<lambda>w w'. slack w' = slack w) (registerFinalizer E b)" for b
    by (rule keeps_mono [OF registerFinalizer_effect]) simp
  have roll: "keeps (\<lambda>w w'. slack w' = slack w) (rolloverMonth E r now b)" for now b
    by (rule keeps_mono [OF rollover_effect]) simp
  show ?thesis
    unfolding Reconcile_def
    by (intro keeps_bind keeps_sum keeps_if keeps_return view_rules gov del reg roll
        slack_of budget_same now_same)
qed

end

lemma servers_http1:
  assumes "\<not> fEnableHTTP2 f"
  shows "tlNextProtos (foldl (\<lambda>c opt. opt c) c0 (soTLSOpts (moMetrics (managerOptionsOf sch f)))) = [''http/1.1'']"
    and "tlNextProtos (foldl (\<lambda>c opt. opt c) c0 (soTLSOpts (moWebhookServer (managerOptionsOf sch f)))) = [''http/1.1'']"
  using applied_protocols(1) [OF assms]
  by (simp_all add: managerOptionsOf_def metricsServerOptions_def webhookServerOptions_def)

text \<open>A world for the manager: every step succeeds.\<close>

definition okManager :: "('w, 'sch) manager" where
  "okManager = \<lparr>mgNew = (\<lambda>_. State_Monad.return None), mgComplete = (\<lambda>_ _. State_Monad.return None),
     mgHealthz = State_Monad.return None,
     mgReadyz = State_Monad.return None, mgStart = State_Monad.return None\<rparr>"

section \<open>Properties\<close>

text \<open>
  C34. The governor as it is shipped never notifies anybody: the reconciler the program sets
  up has no webhook, whatever the flags and prices, so no reconciliation posts a message,
  in any phase and on any path.
\<close>

theorem shipped_governor_silent:
  assumes "cluster E deps buds reps slack same"
  shows "keeps (\<lambda>w w'. slack w' = slack w) (Reconcile E (budgetReconciler f cpuPrice memPrice) ns n)"
  by (rule cluster.Reconcile_silent [OF assms]) (simp add: budgetReconciler_def)

theorem shipped_governor_silent_witness:
  "mSlack (snd (run_state (Reconcile memEnv (budgetReconciler defaultFlags (Fin 0) (Fin 0)) ''team'' ''budget'')
     (exCluster (exDep ''api'' (Some 3)) (exOver [] None)))) = []"
proof -
  let ?r = "budgetReconciler defaultFlags (Fin 0) (Fin 0)"
  let ?w = "exCluster (exDep ''api'' (Some 3)) (exOver [] None)"
  obtain x w' where run: "run_state (Reconcile memEnv ?r ''team'' ''budget'') ?w = (x, w')"
    by (cases "run_state (Reconcile memEnv ?r ''team'' ''budget'') ?w") auto
  from keepsD [OF shipped_governor_silent [OF memc.cluster_axioms] run] run show ?thesis by simp
qed

text \<open>
  The program exits with status 0 only after every step of the start-up answered no
  error, in the order of the code and with both prices read; with a price that is not a
  number it exits with status 1 before it has touched anything. There is no third status.
\<close>

lemma main_exit_status:
  assumes "run_state (main sch f getenv M) w = (s, w')"
  shows "(s = 1 \<or> s = 0) \<and>
    (priceOf getenv ''CPU_PRICE_PER_CORE_HOUR'' ''0.048'' = None \<or>
     priceOf getenv ''MEM_PRICE_PER_GIB_HOUR'' ''0.006'' = None \<longrightarrow> s = 1 \<and> w' = w) \<and>
    (s = 0 \<longrightarrow> (\<exists>cpuPrice memPrice w1 w2 w3 w4 w5.
       priceOf getenv ''CPU_PRICE_PER_CORE_HOUR'' ''0.048'' = Some cpuPrice \<and>
       priceOf getenv ''MEM_PRICE_PER_GIB_HOUR'' ''0.006'' = Some memPrice \<and>
       run_state (mgNew M (managerOptionsOf sch f)) w = (None, w1) \<and>
       run_state (SetupBudgetWithManager (mgComplete M) (budgetReconciler f cpuPrice memPrice)) w1 = (None, w2) \<and>
       run_state (SetupReportWithManager (mgComplete M)) w2 = (None, w3) \<and> run_state (mgHealthz M) w3 = (None, w4) \<and>
       run_state (mgReadyz M) w4 = (None, w5) \<and> run_state (mgStart M) w5 = (None, w')))"
proof -
  let ?c = "priceOf getenv ''CPU_PRICE_PER_CORE_HOUR'' ''0.048''"
  let ?m = "priceOf getenv ''MEM_PRICE_PER_GIB_HOUR'' ''0.006''"
  show ?thesis
  proof (cases "?c = None \<or> ?m = None")
    case True
    then have "main sch f getenv M = State_Monad.return 1" by (auto simp: main_def split: option.split)
    with assms True show ?thesis by auto
  next
    case False
    then obtain c m where p: "?c = Some c" "?m = Some m" by auto
    from assms p have run: "run_state (orExit (mgNew M (managerOptionsOf sch f))
             (orExit (SetupBudgetWithManager (mgComplete M) (budgetReconciler f c m))
             (orExit (SetupReportWithManager (mgComplete M)) (orExit (mgHealthz M) (orExit (mgReadyz M) (orExit (mgStart M)
             (State_Monad.return 0))))))) w = (s, w')"
      by (simp add: main_def)
    have status: "fst (run_state (orExit n k) v) \<in> {0, 1}"
      if "\<And>v. fst (run_state k v) \<in> {0, 1}" for n :: "('a, error option) io" and k v
      using orExit_status [of n k v] that by (cases "run_state (orExit n k) v") auto
    have "s \<in> {0, 1}"
      by (rule orExit_status [OF run]) (intro status, simp)
    moreover have "s = 0 \<longrightarrow> (\<exists>w1 w2 w3 w4 w5. run_state (mgNew M (managerOptionsOf sch f)) w = (None, w1) \<and>
       run_state (SetupBudgetWithManager (mgComplete M) (budgetReconciler f c m)) w1 = (None, w2) \<and>
       run_state (SetupReportWithManager (mgComplete M)) w2 = (None, w3) \<and> run_state (mgHealthz M) w3 = (None, w4) \<and>
       run_state (mgReadyz M) w4 = (None, w5) \<and> run_state (mgStart M) w5 = (None, w'))"
    proof
      assume "s = 0"
      with run show "\<exists>w1 w2 w3 w4 w5. run_state (mgNew M (managerOptionsOf sch f)) w = (None, w1) \<and>
         run_state (SetupBudgetWithManager (mgComplete M) (budgetReconciler f c m)) w1 = (None, w2) \<and>
         run_state (SetupReportWithManager (mgComplete M)) w2 = (None, w3) \<and> run_state (mgHealthz M) w3 = (None, w4) \<and>
         run_state (mgReadyz M) w4 = (None, w5) \<and> run_state (mgStart M) w5 = (None, w')"
        by (auto elim!: orExit_zero)
    qed
    ultimately show ?thesis using p False by auto
  qed
qed

lemma main_exit_status_witness:
  "fst (run_state (main () defaultFlags (\<lambda>k. if k = ''MEM_PRICE_PER_GIB_HOUR'' then ''a lot'' else []) okManager)
     (exMem [] [] [])) = 1"
proof -
  let ?env = "\<lambda>k. if k = ''MEM_PRICE_PER_GIB_HOUR'' then ''a lot'' else []"
  obtain s w' where run: "run_state (main () defaultFlags ?env okManager) (exMem [] [] []) = (s, w')"
    by (cases "run_state (main () defaultFlags ?env okManager) (exMem [] [] [])") auto
  have "(case ParseFloat ''a lot'' of (x, None) \<Rightarrow> Some x | (x, Some _) \<Rightarrow> None) = None" by code_simp
  then have "priceOf ?env ''MEM_PRICE_PER_GIB_HOUR'' ''0.006'' = None"
    by (simp only: priceOf_def getEnvOrDefault_def Let_def if_True simp_thms list.distinct)
  with main_exit_status [OF run] run show ?thesis by simp
qed

end
