(* ===== verification/Lifecycle.thy ===== *)
theory Lifecycle
  imports Plugin
begin

text \<open>
  Who holds a Deployment. An abstract machine of two states per Deployment, owned or parked
  by the operator with the owner's replica count on record, which every reconciliation
  refines; and the histories of a namespace, sequences of reconciliations, restores by hand and
  the owner's own edits in any order, failing anywhere, with the invariant that the count an
  owner asked for while the Deployment was not parked is never lost.
\<close>

section \<open>The abstract machine\<close>

datatype custody = Owned "32 word" | Parked "32 word option"

fun wanted :: "custody \<Rightarrow> 32 word option" where
  "wanted (Owned n) = Some n"
| "wanted (Parked r) = r"

text \<open>
  The moves on behalf of one budget: it parks what is owned while it lives, and releases
  what it can while it is being deleted. A Deployment without a usable record never moves.
\<close>

inductive handover :: "bool \<Rightarrow> custody \<Rightarrow> custody \<Rightarrow> bool" where
  stay: "handover deleted c c"
| park: "handover False (Owned n) (Parked (Some n))"
| release: "handover True (Parked (Some n)) (Owned n)"

code_pred (modes: i \<Rightarrow> i \<Rightarrow> i \<Rightarrow> bool, i \<Rightarrow> i \<Rightarrow> o \<Rightarrow> bool) handover .

inductive_cases handover_ownedE [elim!]: "handover deleted (Owned n) c"
inductive_cases handover_parkedE [elim!]: "handover deleted (Parked r) c"

lemma handover_wanted: "handover deleted c c' \<Longrightarrow> wanted c' = wanted c"
  by (induction rule: handover.induct) simp_all

text \<open>Over any number of moves a count on record stays, and a lost one stays lost.\<close>

lemma handovers_wanted: "(handover deleted)\<^sup>*\<^sup>* c c' \<Longrightarrow> wanted c' = wanted c"
  by (induction rule: rtranclp_induct) (auto dest: handover_wanted)

section \<open>The concrete one\<close>

definition custodyOf :: "deployment \<Rightarrow> custody" where
  "custodyOf d = (if IsScaledDownByOperator d then Parked (intended d) else Owned (originalReplicas d))"

lemma wanted_custodyOf [simp]: "wanted (custodyOf d) = intended d"
  by (simp add: custodyOf_def intended_def IsScaledDown_annOf)

lemma custodyOf_depEq: "depEq d e \<Longrightarrow> custodyOf d = custodyOf e"
  using depEq_scaled [of d e] depEq_intended [of d e] originalReplicas_cong [of d e]
  by (simp add: custodyOf_def depEq_def)

text \<open>Keeping the intent and one direction is a move of the abstract machine.\<close>

lemma park_or_stay:
  assumes "sameIntent d d'" and "IsScaledDownByOperator d \<Longrightarrow> d' = d"
  shows "handover False (custodyOf d) (custodyOf d')"
proof (cases "IsScaledDownByOperator d")
  case True
  with assms(2) show ?thesis by (simp add: stay)
next
  case False
  with assms(1) have "intended d' = Some (originalReplicas d)"
    by (simp add: sameIntent_def intended_def IsScaledDown_annOf)
  with False show ?thesis
    by (cases "IsScaledDownByOperator d'")
       (auto simp: custodyOf_def intended_def IsScaledDown_annOf intro: stay park)
qed

lemma release_or_stay:
  assumes "sameIntent d d'" and "\<not> IsScaledDownByOperator d \<Longrightarrow> d' = d"
  shows "handover True (custodyOf d) (custodyOf d')"
proof (cases "IsScaledDownByOperator d")
  case False
  with assms(2) show ?thesis by (simp add: stay)
next
  case True
  from assms(1) have i: "intended d' = intended d" by (simp add: sameIntent_def)
  show ?thesis
  proof (cases "IsScaledDownByOperator d'")
    case True
    with \<open>IsScaledDownByOperator d\<close> i show ?thesis by (simp add: custodyOf_def stay)
  next
    case False
    with i have "intended d = Some (originalReplicas d')" by (simp add: intended_def IsScaledDown_annOf)
    with False \<open>IsScaledDownByOperator d\<close> show ?thesis by (simp add: custodyOf_def release)
  qed
qed

context cluster
begin

lemma Reconcile_handover:
  assumes "run_state (Reconcile E r ns n) w = ((res, err), w')"
    and "buds w (ns, n) = Some b" and "deps w k = Some d"
  shows "\<exists>d'. deps w' k = Some d' \<and> handover (beingDeleted b) (custodyOf d) (custodyOf d')"
proof -
  from keepsD [OF Reconcile_safe assms(1)] assms(3)
  obtain d' where d': "deps w' k = Some d'" "sameIntent d d'" by (rule depsSafe_at)
  show ?thesis
  proof (cases "beingDeleted b")
    case True
    have "d' = d" if "\<not> IsScaledDownByOperator d"
      using Reconcile_unmarked [OF assms(1,2) True assms(3) that] d'(1) by simp
    with release_or_stay [OF d'(2)] d'(1) True show ?thesis by auto
  next
    case False
    have "d' = d" if "IsScaledDownByOperator d"
      using Reconcile_marked [OF assms(1,2) False assms(3) that] d'(1) by simp
    with park_or_stay [OF d'(2)] d'(1) False show ?thesis by auto
  qed
qed

lemma Reconcile_moves:
  assumes "run_state (Reconcile E r ns n) w = ((res, err), w')" and "buds w (ns, n) = Some b"
  shows "rel_option (\<lambda>d d'. handover (beingDeleted b) (custodyOf d) (custodyOf d')) (deps w k) (deps w' k)"
proof (cases "deps w k")
  case None
  from keepsD [OF Reconcile_safe assms(1)] have "rel_option sameIntent (deps w k) (deps w' k)"
    unfolding depsSafe_def by (rule spec)
  with None show ?thesis by simp
next
  case (Some d)
  with Reconcile_handover [OF assms Some] show ?thesis by (auto simp: option_rel_Some1)
qed

end

section \<open>Histories\<close>

text \<open>
  A configuration is a world and, per Deployment, its wish: the replica count its owner asked
  for last while it was not parked. The operator and the plugin run their code, against an API
  server that may refuse or lose any of their calls; the owner creates, removes and scales
  Deployments and edits what is neither a count nor the operator's record. An owner who scales
  a Deployment that is parked (\<open>override\<close>) is not heard: the operator's record stays, and with
  it the wish. The steps are whole operations, one at a time: an edit that falls between the
  read and the write of one operation (a race that \<^verbatim>\<open>docs/design.md\<close> admits) is no step here.
\<close>

type_synonym wishes = "objkey \<rightharpoonup> 32 word"

inductive evolves ::
  "('w, 'sel) env \<Rightarrow> ('w \<Rightarrow> objkey \<rightharpoonup> deployment) \<Rightarrow> ('w, 'cfg) plugin \<Rightarrow> 'w \<times> wishes \<Rightarrow> 'w \<times> wishes \<Rightarrow> bool"
  for E deps P where
  tick: "run_state (Reconcile E r ns n) w = (x, w') \<Longrightarrow> evolves E deps P (w, wish) (w', wish)"
| byHand: "run_state (restoreCmd E P arg) w = (y, w') \<Longrightarrow> evolves E deps P (w, wish) (w', wish)"
| scale: "deps w k = Some d \<Longrightarrow> \<not> IsScaledDownByOperator d \<Longrightarrow>
    deps w' = (deps w)(k \<mapsto> d\<lparr>dReplicas := Some m\<rparr>) \<Longrightarrow> evolves E deps P (w, wish) (w', wish(k \<mapsto> m))"
| override: "deps w k = Some d \<Longrightarrow> IsScaledDownByOperator d \<Longrightarrow>
    deps w' = (deps w)(k \<mapsto> d\<lparr>dReplicas := Some m\<rparr>) \<Longrightarrow> evolves E deps P (w, wish) (w', wish)"
| edit: "deps w k = Some d \<Longrightarrow> custodyOf d' = custodyOf d \<Longrightarrow> dReplicas d' = dReplicas d \<Longrightarrow>
    deps w' = (deps w)(k \<mapsto> d') \<Longrightarrow> evolves E deps P (w, wish) (w', wish)"
| create: "deps w k = None \<Longrightarrow> \<not> IsScaledDownByOperator d \<Longrightarrow> deps w' = (deps w)(k \<mapsto> d) \<Longrightarrow>
    evolves E deps P (w, wish) (w', wish(k \<mapsto> originalReplicas d))"
| remove: "deps w' = (deps w)(k := None) \<Longrightarrow> evolves E deps P (w, wish) (w', wish(k := None))"

text \<open>Every Deployment has a wish, and its wish is recoverable.\<close>

definition agrees :: "deployment option \<Rightarrow> 32 word option \<Rightarrow> bool" where
  "agrees x y \<longleftrightarrow> rel_option (\<lambda>d m. wanted (custodyOf d) = Some m) x y"

definition honours :: "('w \<Rightarrow> objkey \<rightharpoonup> deployment) \<Rightarrow> 'w \<times> wishes \<Rightarrow> bool" where
  "honours deps c \<longleftrightarrow> (\<forall>k. agrees (deps (fst c) k) (snd c k))"

lemma honoursI: "(\<And>k. agrees (deps w k) (wish k)) \<Longrightarrow> honours deps (w, wish)"
  by (simp add: honours_def)

lemma honoursD: "honours deps (w, wish) \<Longrightarrow> agrees (deps w k) (wish k)"
  unfolding honours_def fst_conv snd_conv by (rule spec)

lemma agrees_simps [simp]:
  "agrees (Some d) (Some m) \<longleftrightarrow> intended d = Some m" "agrees None None"
  "agrees None y \<longleftrightarrow> y = None" "agrees x None \<longleftrightarrow> x = None"
  by (cases x; cases y; simp add: agrees_def)+

lemma honours_update:
  assumes "honours deps (w, wish)" and "deps w' = (deps w)(k := x)" and "agrees x y"
  shows "honours deps (w', wish(k := y))"
  using assms by (intro honoursI) (simp add: honoursD)

lemma honours_safe:
  assumes "honours deps (w, wish)" and "depsSafe (deps w) (deps w')"
  shows "honours deps (w', wish)"
proof (rule honoursI)
  fix k
  from assms(2) have "rel_option sameIntent (deps w k) (deps w' k)"
    unfolding depsSafe_def by (rule spec)
  with honoursD [OF assms(1), of k] show "agrees (deps w' k) (wish k)"
    by (cases "deps w k"; cases "deps w' k"; cases "wish k") (auto simp: sameIntent_def)
qed

lemma honours_at: "honours deps (w, wish) \<Longrightarrow> deps w k = Some d \<Longrightarrow> \<exists>m. wish k = Some m \<and> intended d = Some m"
  using honoursD [of deps w wish k] by (cases "wish k") auto

lemma honours_wish: "honours deps (w, wish) \<Longrightarrow> wish k = Some m \<Longrightarrow> \<exists>d. deps w k = Some d \<and> intended d = Some m"
  using honoursD [of deps w wish k] by (cases "deps w k") auto

context plugin_world
begin

lemma evolves_honours:
  assumes "evolves E deps P c c'" and "honours deps c"
  shows "honours deps c'"
  using assms
proof (induction rule: evolves.induct)
  case (tick r ns n w x w' wish)
  from honours_safe [OF tick(2) keepsD [OF Reconcile_safe tick(1)]] show ?case .
next
  case (byHand arg w y w' wish)
  from honours_safe [OF byHand(2) givenBack_safe [OF keepsD [OF restoreCmd_given byHand(1)]]] show ?case .
next
  case (scale w k d w' m wish)
  then show ?case
    by (intro honours_update) (auto simp: intended_def IsScaledDown_annOf originalReplicas_def)
next
  case (override w k d w' m wish)
  from override(2) have "intended (d\<lparr>dReplicas := Some m\<rparr>) = intended d"
    by (simp add: intended_def IsScaledDown_annOf annOf_def)
  with honoursD [OF override(4), of k] override(1) have "agrees (Some (d\<lparr>dReplicas := Some m\<rparr>)) (wish k)"
    by (cases "wish k") auto
  from honours_update [OF override(4,3) this] show ?case by simp
next
  case (edit w k d d' w' wish)
  from edit(2) have "intended d' = intended d" by (metis wanted_custodyOf)
  with honoursD [OF edit(5), of k] edit(1) have "agrees (Some d') (wish k)" by (cases "wish k") auto
  from honours_update [OF edit(5,4) this] show ?case by simp
next
  case (create w k d w' wish)
  then show ?case by (intro honours_update) (auto simp: intended_def IsScaledDown_annOf)
next
  case (remove w' w k wish)
  then show ?case by (intro honours_update) auto
qed

lemma history_honours:
  "(evolves E deps P)\<^sup>*\<^sup>* c c' \<Longrightarrow> honours deps c \<Longrightarrow> honours deps c'"
  by (induction rule: rtranclp_induct) (auto intro: evolves_honours)

text \<open>Whatever has happened, deleting the budget gives every Deployment the wished count.\<close>

lemma history_returns:
  assumes "reliable_api E deps"
    and "(evolves E deps P)\<^sup>*\<^sup>* (w0, wish0) (w, wish)" and "honours deps (w0, wish0)"
    and "run_state (Reconcile E r ns n) w = ((res, err), w')"
    and "fst (run_state (eGetBudget E ns n) w) = Inr b" and "beingDeleted b"
    and "eContainsFinalizer E (nbFinalizers b) namespaceBudgetFinalizer"
    and "wish (ns, m) = Some v"
  shows "\<exists>d. deps w' (ns, m) = Some d \<and> custodyOf d = Owned v"
proof -
  from history_honours [OF assms(2,3)] have h: "honours deps (w, wish)" .
  from honours_wish [OF h assms(8)] obtain d where d: "deps w (ns, m) = Some d" "intended d = Some v" by blast
  have "intended e \<noteq> None" if "deps w (ns, j) = Some e" for j e
    using honours_at [OF h that] by auto
  with Reconcile_restores [OF assms(1,4-7) _ d(1)]
  obtain d' where d': "deps w' (ns, m) = Some d'" "\<not> IsScaledDownByOperator d'" "sameIntent d d'" by blast
  with d(2) have "originalReplicas d' = v" by (simp add: sameIntent_def intended_def IsScaledDown_annOf)
  with d' show ?thesis by (simp add: custodyOf_def)
qed

end

context cluster
begin

text \<open>A live budget is always looked at again: after an error, at once, or in a minute.\<close>

lemma Reconcile_again:
  assumes "run_state (Reconcile E r ns n) w = ((res, err), w')"
    and "buds w (ns, n) = Some b" and "\<not> beingDeleted b"
  shows "err \<noteq> None \<or> res = inAMinute \<or> resRequeue res"
  using assms(1)
proof (cases rule: Reconcile_steps)
  case unread
  with assms(2) show ?thesis by auto
next
  case (read c b1 now w0 w1)
  from read(1) assms(2) have [simp]: "c = b" by simp
  show ?thesis
  proof (cases "eContainsFinalizer E (nbFinalizers b) namespaceBudgetFinalizer")
    case False
    with read(10) assms(3) show ?thesis
      by (auto simp: registerFinalizer_def split: prod.splits option.splits)
  next
    case True
    with read(10) assms(3)
    have "run_state (governTick E r ns (stPhase (nbStatus b)) b1) w1 = ((res, err), w')" by simp
    then show ?thesis
    proof (cases rule: governTick_steps)
      case (applied t cs ms w2)
      from applied(2) show ?thesis by (cases rule: applyPhase_steps) auto
    qed simp
  qed
qed

end

section \<open>Properties\<close>

text \<open>
  C1. Refinement: every reconciliation of a budget, on every path, is for every Deployment of
  the cluster one move of the abstract machine. While the budget lives a Deployment can only
  be parked, with the owner's replica count on record; once it is being deleted it can only
  be released, with the recorded count. Where there is no Deployment none appears, and none
  disappears.
\<close>

theorem reconcile_refines_handover:
  assumes "cluster E deps buds reps slack same"
    and "run_state (Reconcile E r ns n) w = ((res, err), w')" and "buds w (ns, n) = Some b"
  shows "rel_option (\<lambda>d d'. handover (beingDeleted b) (custodyOf d) (custodyOf d')) (deps w k) (deps w' k)"
  by (rule cluster.Reconcile_moves [OF assms])

text \<open>A Deployment of three replicas that is parked, a parked one that is released, and none where none was.\<close>

theorem reconcile_refines_handover_witness:
  "(\<exists>d. memDeps (snd (run_state (Reconcile calmEnv exRec ''team'' ''budget'')
        (exCluster (exDep ''api'' (Some 3)) (exOver [] None)))) (''team'', ''api'') = Some d \<and>
      custodyOf d = Parked (Some 3)) \<and>
   (\<exists>d. memDeps (snd (run_state (Reconcile calmEnv exRec ''team'' ''budget'')
        (exCluster (exParked (Some ''3'')) (exOver [] (Some exNoon))))) (''team'', ''api'') = Some d \<and>
      custodyOf d = Owned 3) \<and>
   memDeps (snd (run_state (Reconcile calmEnv exRec ''team'' ''budget'')
        (exCluster (exDep ''api'' (Some 3)) (exOver [] None)))) (''team'', ''web'') = None"
proof (intro conjI)
  let ?d = "exDep ''api'' (Some 3)" and ?b = "exOver [] None"
  obtain w' d where run: "run_state (Reconcile calmEnv exRec ''team'' ''budget'') (exCluster ?d ?b) = ((inAMinute, None), w')"
    and d: "memDeps w' (''team'', ''api'') = Some d" "stopped d" using exTick_stopped by blast
  have b: "memBuds (exCluster ?d ?b) (''team'', ''budget'') = Some ?b" by simp
  have c: "custodyOf ?d = Owned 3" by (simp add: custodyOf_def IsScaledDown_annOf originalReplicas_def)
  from reconcile_refines_handover [OF calmc.cluster_axioms, OF run b, of "(''team'', ''api'')"] d(1)
  have "handover False (Owned 3) (custodyOf d)" by (simp add: c)
  moreover have "custodyOf d \<noteq> Owned 3"
    using d(2) by (auto simp: custodyOf_def stopped_def originalReplicas_def split: option.splits)
  ultimately show "\<exists>d. memDeps (snd (run_state (Reconcile calmEnv exRec ''team'' ''budget'') (exCluster ?d ?b)))
      (''team'', ''api'') = Some d \<and> custodyOf d = Parked (Some 3)"
    using run d(1) by auto
  from reconcile_refines_handover [OF calmc.cluster_axioms, OF run b, of "(''team'', ''web'')"]
  show "memDeps (snd (run_state (Reconcile calmEnv exRec ''team'' ''budget'') (exCluster ?d ?b))) (''team'', ''web'') = None"
    using run by simp
next
  let ?d = "exParked (Some ''3'')" and ?b = "exOver [] (Some exNoon)"
  let ?w = "exCluster ?d ?b"
  obtain res err w' where run: "run_state (Reconcile calmEnv exRec ''team'' ''budget'') ?w = ((res, err), w')"
    by (metis prod.collapse)
  have b: "memBuds ?w (''team'', ''budget'') = Some ?b" by simp
  have get: "fst (run_state (eGetBudget calmEnv ''team'' ''budget'') ?w) = Inr ?b"
    and fin: "eContainsFinalizer calmEnv (nbFinalizers ?b) namespaceBudgetFinalizer"
    by (simp_all add: calm_rest lookupOr404_def) (simp add: calmEnv_def)
  have usable: "intended e \<noteq> None" if "memDeps ?w (''team'', m) = Some e" for m e
    using that by (simp split: if_splits) (metis exParked_simps(6) option.distinct(1))
  have "memDeps ?w (''team'', ''api'') = Some ?d" by simp
  from calmc.Reconcile_restores [OF calm.reliable_api_axioms run get exOver_simps(5) fin _ this] usable
  have "\<exists>d'. memDeps w' (''team'', ''api'') = Some d' \<and> \<not> IsScaledDownByOperator d' \<and> sameIntent ?d d'" by blast
  then obtain d where d: "memDeps w' (''team'', ''api'') = Some d" "\<not> IsScaledDownByOperator d" by blast
  have c: "custodyOf ?d = Parked (Some 3)" by (simp add: custodyOf_def)
  from reconcile_refines_handover [OF calmc.cluster_axioms, OF run b, of "(''team'', ''api'')"] d(1)
  have "handover True (Parked (Some 3)) (custodyOf d)" by (simp add: c)
  moreover have "custodyOf d \<noteq> Parked (Some 3)" using d(2) by (simp add: custodyOf_def)
  ultimately have "custodyOf d = Owned 3" by auto
  with run d(1) show "\<exists>d. memDeps (snd (run_state (Reconcile calmEnv exRec ''team'' ''budget'') ?w))
      (''team'', ''api'') = Some d \<and> custodyOf d = Owned 3" by simp
qed

text \<open>
  C2. Invariant of every history, that is, of every sequence of whole reconciliations of any
  budgets, restores by hand and edits of the owners, whichever API calls are refused or lost,
  from a state in which every wish noted so far can be read off its Deployment: the replica count each owner asked for last while the Deployment was not parked can be read
  off the Deployment, from its own field or from a readable record. A count the owner sets
  on a parked Deployment is not such a count, and is forgotten.
\<close>

theorem history_keeps_wishes:
  assumes "plugin_world E deps buds reps slack same P out"
    and "(evolves E deps P)\<^sup>*\<^sup>* (w, wish) (w', wish')" and "honours deps (w, wish)"
  shows "honours deps (w', wish')"
  by (rule plugin_world.history_honours [OF assms])

lemma exHonours:
  "honours memDeps (exCluster (exParked (Some ''3'')) b, [(''team'', ''api'') \<mapsto> 3])"
  by (rule honoursI) simp

theorem history_keeps_wishes_witness:
  "honours memDeps (snd (run_state (Reconcile memEnv exRec ''team'' ''budget'')
      (exCluster (exParked (Some ''3'')) (exOver [] None))), [(''team'', ''api'') \<mapsto> 3])"
proof -
  let ?w = "exCluster (exParked (Some ''3'')) (exOver [] None)"
  let ?wish = "[(''team'', ''api'') \<mapsto> 3]"
  obtain x w' where run: "run_state (Reconcile memEnv exRec ''team'' ''budget'') ?w = (x, w')"
    by (cases "run_state (Reconcile memEnv exRec ''team'' ''budget'') ?w") auto
  from evolves.tick [OF run] have "(evolves memEnv memDeps memTty)\<^sup>*\<^sup>* (?w, ?wish) (w', ?wish)"
    by (rule r_into_rtranclp)
  from history_keeps_wishes [OF memp.plugin_world_axioms this exHonours] run show ?thesis by simp
qed

text \<open>
  C3. After any such history, from such a state, one reconciliation of a budget that is being deleted and still
  carries the operator's finalizer, with the API server up, leaves every Deployment of its
  namespace with its owner, at the replica count that owner asked for last while it was not
  parked; also where the owner has scaled it since.
\<close>

theorem history_then_deletion:
  assumes "plugin_world E deps buds reps slack same P out" and "reliable_api E deps"
    and "(evolves E deps P)\<^sup>*\<^sup>* (w0, wish0) (w, wish)" and "honours deps (w0, wish0)"
    and "run_state (Reconcile E r ns n) w = ((res, err), w')"
    and "fst (run_state (eGetBudget E ns n) w) = Inr b" and "beingDeleted b"
    and "eContainsFinalizer E (nbFinalizers b) namespaceBudgetFinalizer"
    and "wish (ns, m) = Some v"
  shows "\<exists>d. deps w' (ns, m) = Some d \<and> custodyOf d = Owned v"
  by (rule plugin_world.history_returns [OF assms])

theorem history_then_deletion_witness:
  "\<exists>d. memDeps (snd (run_state (Reconcile calmEnv exRec ''team'' ''budget'')
      (exCluster ((exParked (Some ''3''))\<lparr>dReplicas := Some 5\<rparr>) (exOver [] (Some exNoon))))) (''team'', ''api'') = Some d \<and>
    custodyOf d = Owned 3"
proof -
  let ?d = "exParked (Some ''3'')" and ?b = "exOver [] (Some exNoon)"
  let ?d5 = "?d\<lparr>dReplicas := Some 5\<rparr>"
  let ?v = "exCluster ?d (exOver [] None)" and ?w = "exCluster ?d5 ?b"
  let ?wish = "[(''team'', ''api'') \<mapsto> 3 :: 32 word]"
  obtain res err w' where run: "run_state (Reconcile calmEnv exRec ''team'' ''budget'') ?w = ((res, err), w')"
    by (metis prod.collapse)
  have up: "memDeps ?w = (memDeps ?v)((''team'', ''api'') \<mapsto> ?d5)" by (simp add: dkey_def)
  have "evolves calmEnv memDeps memTty (?v, ?wish) (?w, ?wish)"
    by (rule evolves.override [OF _ _ up]) simp_all
  then have h: "(evolves calmEnv memDeps memTty)\<^sup>*\<^sup>* (?v, ?wish) (?w, ?wish)" by (rule r_into_rtranclp)
  have "\<exists>d. memDeps w' (''team'', ''api'') = Some d \<and> custodyOf d = Owned 3"
  proof (rule history_then_deletion [OF calmp.plugin_world_axioms calm.reliable_api_axioms h exHonours run])
    show "fst (run_state (eGetBudget calmEnv ''team'' ''budget'') ?w) = Inr ?b"
      by (simp add: calm_rest lookupOr404_def)
    show "eContainsFinalizer calmEnv (nbFinalizers ?b) namespaceBudgetFinalizer" by (simp add: calmEnv_def)
  qed simp_all
  with run show ?thesis by simp
qed

text \<open>
  C14. A budget that exists and is not being deleted is never dropped: every reconciliation
  ends with an error (which the queue retries), with an immediate requeue, or with the next
  tick one minute ahead, also when Prometheus does not answer.
\<close>

theorem budget_never_dropped:
  assumes "cluster E deps buds reps slack same"
    and "run_state (Reconcile E r ns n) w = ((res, err), w')"
    and "buds w (ns, n) = Some b" and "\<not> beingDeleted b"
  shows "err \<noteq> None \<or> res = inAMinute \<or> resRequeue res"
  by (rule cluster.Reconcile_again [OF assms])

theorem budget_never_dropped_witness:
  "\<exists>res err. fst (run_state (Reconcile memEnv exRec ''team'' ''budget'')
      (exCluster (exDep ''api'' (Some 3)) (exOver [] None))) = (res, err) \<and>
    (err \<noteq> None \<or> res = inAMinute \<or> resRequeue res)"
proof -
  let ?w = "exCluster (exDep ''api'' (Some 3)) (exOver [] None)"
  obtain res err w' where run: "run_state (Reconcile memEnv exRec ''team'' ''budget'') ?w = ((res, err), w')"
    by (metis prod.collapse)
  have "err \<noteq> None \<or> res = inAMinute \<or> resRequeue res"
    by (rule budget_never_dropped [OF memc.cluster_axioms run, of "exOver [] None"]) simp_all
  with run show ?thesis by simp
qed

end
