(* ===== verification/Store.thy ===== *)
theory Store
  imports Prelude
begin

text \<open>
  A store for Go values that share memory: slices and pointers are addresses of cells. The
  locale \<open>deep_copier\<close> states what a deep copy promises; the combinators below build copiers
  of slices, pointers, structs and plain values, and each is shown to keep that promise.
\<close>

section \<open>Cells, slices, pointers\<close>

type_synonym addr = nat

record 'c heap =
  hNext :: addr
  hCells :: "addr \<rightharpoonup> 'c"

text \<open>A slice is nil, or the address of its array with an offset and a length.\<close>

datatype slice = NilSlice | SliceAt addr nat nat

definition alloc :: "'c \<Rightarrow> ('c heap, addr) io" where
  "alloc c = State (\<lambda>h. (hNext h, h\<lparr>hNext := Suc (hNext h), hCells := (hCells h)(hNext h \<mapsto> c)\<rparr>))"

definition readCell :: "addr \<Rightarrow> ('c heap, 'c option) io" where
  "readCell a = State (\<lambda>h. (hCells h a, h))"

text \<open>The elements of a slice, given how the cells of its type hold an array.\<close>

definition window :: "('c \<Rightarrow> 'e list) \<Rightarrow> nat \<Rightarrow> nat \<Rightarrow> 'c option \<Rightarrow> 'e list" where
  "window proj off n c = take n (drop off (case c of None \<Rightarrow> [] | Some x \<Rightarrow> proj x))"

definition elems :: "('c \<Rightarrow> 'e list) \<Rightarrow> 'c heap \<Rightarrow> slice \<Rightarrow> 'e list option" where
  "elems proj h s =
    (case s of NilSlice \<Rightarrow> None | SliceAt a off n \<Rightarrow> Some (window proj off n (hCells h a)))"

text \<open>The heaps \<open>g\<close> and \<open>h\<close> hold the same from address \<open>lo\<close> up to \<open>hi\<close>.\<close>

definition agree :: "addr \<Rightarrow> addr \<Rightarrow> 'c heap \<Rightarrow> 'c heap \<Rightarrow> bool" where
  "agree lo hi g h \<longleftrightarrow> (\<forall>a. lo \<le> a \<and> a < hi \<longrightarrow> hCells g a = hCells h a)"

lemma agree_refl [simp]: "agree lo hi h h"
  by (simp add: agree_def)

lemma agree_sym: "agree lo hi g h \<Longrightarrow> agree lo hi h g"
  by (simp add: agree_def)

lemma agree_trans: "agree lo hi f g \<Longrightarrow> agree lo hi g h \<Longrightarrow> agree lo hi f h"
  by (simp add: agree_def)

lemma agree_sub: "agree lo hi g h \<Longrightarrow> lo \<le> lo' \<Longrightarrow> hi' \<le> hi \<Longrightarrow> agree lo' hi' g h"
  by (simp add: agree_def)

section \<open>The contract of a deep copy\<close>

text \<open>
  \<open>val h p\<close> is what a reader sees through \<open>p\<close>, \<open>ok h p\<close> says that everything reachable
  from \<open>p\<close> is allocated. A copy writes only cells it allocates; what it returns is made of
  those alone, so it reads the same in every heap that keeps them, and the original in
  every heap that keeps the cells from before.
\<close>

locale deep_copier =
  fixes cp :: "'p \<Rightarrow> ('c heap, 'p) io"
    and val :: "'c heap \<Rightarrow> 'p \<Rightarrow> 'v"
    and ok :: "'c heap \<Rightarrow> 'p \<Rightarrow> bool"
  assumes grows: "run_state (cp p) h = (q, h') \<Longrightarrow> hNext h \<le> hNext h'"
    and below: "run_state (cp p) h = (q, h') \<Longrightarrow> agree 0 (hNext h) h' h"
    and ok_stays: "ok h p \<Longrightarrow> hNext h \<le> hNext g \<Longrightarrow> agree 0 (hNext h) g h \<Longrightarrow> ok g p"
    and original: "ok h p \<Longrightarrow> agree 0 (hNext h) g h \<Longrightarrow> val g p = val h p"
    and copied: "ok h p \<Longrightarrow> run_state (cp p) h = (q, h') \<Longrightarrow> agree (hNext h) (hNext h') g h' \<Longrightarrow>
      val g q = val h p"
begin

text \<open>A value still reads the same after another one was copied.\<close>

lemma after:
  assumes "ok h p" and "hNext h \<le> hNext h1" and "agree 0 (hNext h) h1 h"
  shows "ok h1 p" and "val h1 p = val h p"
  by (rule ok_stays [OF assms], rule original [OF assms(1,3)])

lemma frame_all:
  assumes "run_state (forEach cp ps) h = (qs, h')"
  shows "hNext h \<le> hNext h' \<and> agree 0 (hNext h) h' h"
  using assms
proof (induction ps arbitrary: h qs)
  case (Cons p ps)
  obtain q h1 qs1 where 1: "run_state (cp p) h = (q, h1)"
    and 2: "run_state (forEach cp ps) h1 = (qs1, h')"
    using Cons.prems by (auto split: prod.splits)
  from Cons.IH [OF 2] have le: "hNext h1 \<le> hNext h'" and b2: "agree 0 (hNext h1) h' h1" by auto
  from agree_trans [OF agree_sub [OF b2 order_refl grows [OF 1]] below [OF 1]] grows [OF 1] le
  show ?case by simp
qed simp

lemma copy_all:
  assumes "run_state (forEach cp ps) h = (qs, h')" and "\<forall>p \<in> set ps. ok h p"
  shows "hNext h \<le> hNext h' \<and> agree 0 (hNext h) h' h \<and>
    (\<forall>g. agree (hNext h) (hNext h') g h' \<longrightarrow> map (val g) qs = map (val h) ps)"
  using assms
proof (induction ps arbitrary: h qs)
  case (Cons p ps)
  obtain q h1 qs1 where 1: "run_state (cp p) h = (q, h1)"
    and 2: "run_state (forEach cp ps) h1 = (qs1, h')" and qs: "qs = q # qs1"
    using Cons.prems(1) by (auto split: prod.splits)
  note g1 = grows [OF 1] and b1 = below [OF 1]
  have ok1: "\<forall>p \<in> set ps. ok h1 p" using Cons.prems(2) after(1) [OF _ g1 b1] by simp
  note IH = Cons.IH [OF 2 ok1]
  then have le: "hNext h1 \<le> hNext h'" and b2: "agree 0 (hNext h1) h' h1" by auto
  have vals: "map (val h1) ps = map (val h) ps" using Cons.prems(2) after(2) [OF _ g1 b1] by simp
  have "map (val g) qs = map (val h) (p # ps)" if a: "agree (hNext h) (hNext h') g h'" for g
  proof -
    have "agree (hNext h) (hNext h1) g h1"
      using agree_trans [OF agree_sub [OF a order_refl le] agree_sub [OF b2 _ order_refl]] by simp
    with copied [OF _ 1] Cons.prems(2) have "val g q = val h p" by simp
    moreover have "map (val g) qs1 = map (val h1) ps"
      using IH agree_sub [OF a g1 order_refl] by simp
    ultimately show ?thesis using qs vals by simp
  qed
  moreover have "agree 0 (hNext h) h' h"
    using agree_trans [OF agree_sub [OF b2 order_refl g1] b1] .
  ultimately show ?case using g1 le by auto
qed simp

end

section \<open>Copiers of plain values, structs, slices and pointers\<close>

definition copyValue :: "('p \<Rightarrow> 'p) \<Rightarrow> 'p \<Rightarrow> ('c heap, 'p) io" where
  "copyValue f p = State_Monad.return (f p)"

lemma copier_value:
  "(\<And>p. f p = p) \<Longrightarrow> deep_copier (copyValue f) (\<lambda>h p. p) (\<lambda>h p. True)"
  by unfold_locales (auto simp: copyValue_def)

definition copyPair ::
  "('p \<Rightarrow> ('c heap, 'p) io) \<Rightarrow> ('q \<Rightarrow> ('c heap, 'q) io) \<Rightarrow> 'p \<times> 'q \<Rightarrow> ('c heap, 'p \<times> 'q) io" where
  "copyPair cp cq x = do {
     p \<leftarrow> cp (fst x);
     q \<leftarrow> cq (snd x);
     State_Monad.return (p, q) }"

lemma copier_pair:
  assumes "deep_copier cp val ok" and "deep_copier cq val' ok'"
  shows "deep_copier (copyPair cp cq) (\<lambda>h x. (val h (fst x), val' h (snd x)))
    (\<lambda>h x. ok h (fst x) \<and> ok' h (snd x))"
proof -
  have split: "\<exists>h1. run_state (cp (fst x)) h = (fst y, h1) \<and> run_state (cq (snd x)) h1 = (snd y, h')"
    if "run_state (copyPair cp cq x) h = (y, h')" for x h y h'
    using that by (auto simp: copyPair_def split: prod.splits)
  show ?thesis
  proof
    fix x h y h' assume "run_state (copyPair cp cq x) h = (y, h')"
    from split [OF this] obtain h1 where
      1: "run_state (cp (fst x)) h = (fst y, h1)" and 2: "run_state (cq (snd x)) h1 = (snd y, h')" by blast
    note g = deep_copier.grows [OF assms(1) 1] deep_copier.grows [OF assms(2) 2]
    note b = deep_copier.below [OF assms(1) 1] deep_copier.below [OF assms(2) 2]
    show "hNext h \<le> hNext h'" using g by simp
    show "agree 0 (hNext h) h' h"
      using agree_trans [OF agree_sub [OF b(2) order_refl g(1)] b(1)] .
    fix v assume ok: "ok h (fst x) \<and> ok' h (snd x)" and a: "agree (hNext h) (hNext h') v h'"
    have "agree (hNext h) (hNext h1) v h1"
      using agree_trans [OF agree_sub [OF a order_refl g(2)] agree_sub [OF b(2) _ order_refl]] by simp
    moreover have "agree (hNext h1) (hNext h') v h'" using agree_sub [OF a g(1) order_refl] .
    moreover note deep_copier.after [OF assms(2) _ g(1) b(1), of "snd x"]
    ultimately show "(val v (fst y), val' v (snd y)) = (val h (fst x), val' h (snd x))"
      using ok deep_copier.copied [OF assms(1) _ 1] deep_copier.copied [OF assms(2) _ 2] by simp
  qed (use assms in \<open>auto intro: deep_copier.ok_stays deep_copier.original\<close>)
qed

text \<open>A struct with fields to be copied deeply, the rest of it copied as it is.\<close>

definition copyFields :: "('p \<Rightarrow> 'q) \<Rightarrow> ('p \<Rightarrow> 'q \<Rightarrow> 'p) \<Rightarrow> ('q \<Rightarrow> ('c heap, 'q) io) \<Rightarrow> 'p \<Rightarrow> ('c heap, 'p) io"
where
  "copyFields get put cp p = do {
     q \<leftarrow> cp (get p);
     State_Monad.return (put p q) }"

lemma copier_fields:
  assumes "deep_copier cp val ok"
    and "\<And>p q. get (put p q) = q" and "\<And>p q. rest (put p q) = rest p"
  shows "deep_copier (copyFields get put cp) (\<lambda>h p. (rest p, val h (get p))) (\<lambda>h p. ok h (get p))"
proof -
  have split: "\<exists>q. run_state (cp (get p)) h = (q, h') \<and> y = put p q"
    if "run_state (copyFields get put cp p) h = (y, h')" for p h y h'
    using that by (auto simp: copyFields_def split: prod.splits)
  show ?thesis
    by unfold_locales
      (use assms in \<open>auto dest!: split intro: deep_copier.grows deep_copier.below deep_copier.ok_stays
         deep_copier.original deep_copier.copied\<close>)
qed

text \<open>A slice: nil stays nil, otherwise a new array of the copied elements.\<close>

definition copySlice ::
  "('e list \<Rightarrow> 'c) \<Rightarrow> ('c \<Rightarrow> 'e list) \<Rightarrow> ('e \<Rightarrow> ('c heap, 'e) io) \<Rightarrow> slice \<Rightarrow> ('c heap, slice) io" where
  "copySlice mk proj cp s =
    (case s of
       NilSlice \<Rightarrow> State_Monad.return NilSlice
     | SliceAt a off n \<Rightarrow> do {
         c \<leftarrow> readCell a;
         ys \<leftarrow> forEach cp (window proj off n c);
         b \<leftarrow> alloc (mk ys);
         State_Monad.return (SliceAt b 0 (length ys)) })"

definition okSlice :: "('c \<Rightarrow> 'e list) \<Rightarrow> ('c heap \<Rightarrow> 'e \<Rightarrow> bool) \<Rightarrow> 'c heap \<Rightarrow> slice \<Rightarrow> bool" where
  "okSlice proj ok h s =
    (case s of
       NilSlice \<Rightarrow> True
     | SliceAt a off n \<Rightarrow> a < hNext h \<and> (\<forall>x \<in> set (window proj off n (hCells h a)). ok h x))"

definition valSlice :: "('c \<Rightarrow> 'e list) \<Rightarrow> ('c heap \<Rightarrow> 'e \<Rightarrow> 'v) \<Rightarrow> 'c heap \<Rightarrow> slice \<Rightarrow> 'v list option" where
  "valSlice proj val h s = map_option (map (val h)) (elems proj h s)"

lemma copier_slice:
  assumes "deep_copier cp val ok" and inv: "\<And>xs. proj (mk xs) = xs"
  shows "deep_copier (copySlice mk proj cp) (valSlice proj val) (okSlice proj ok)"
proof -
  have step: "hNext h \<le> hNext h' \<and> agree 0 (hNext h) h' h \<and>
      (okSlice proj ok h s \<longrightarrow> (\<forall>g. agree (hNext h) (hNext h') g h' \<longrightarrow>
        valSlice proj val g t = valSlice proj val h s))"
    if run: "run_state (copySlice mk proj cp s) h = (t, h')" for s h t h'
  proof (cases s)
    case NilSlice
    with run show ?thesis by (auto simp: copySlice_def valSlice_def elems_def)
  next
    case (SliceAt a off n)
    let ?xs = "window proj off n (hCells h a)"
    obtain ys h1 where 1: "run_state (forEach cp ?xs) h = (ys, h1)"
      by (cases "run_state (forEach cp ?xs) h") auto
    from run SliceAt 1 have t: "t = SliceAt (hNext h1) 0 (length ys)"
      and h': "h' = h1\<lparr>hNext := Suc (hNext h1), hCells := (hCells h1)(hNext h1 \<mapsto> mk ys)\<rparr>"
      by (auto simp: copySlice_def readCell_def alloc_def)
    have frame: "hNext h \<le> hNext h1 \<and> agree 0 (hNext h) h1 h"
      by (rule deep_copier.frame_all [OF assms(1) 1])
    then have "hNext h \<le> hNext h' \<and> agree 0 (hNext h) h' h" by (auto simp: h' agree_def)
    moreover have "valSlice proj val g t = valSlice proj val h s"
      if ok: "okSlice proj ok h s" and ag: "agree (hNext h) (hNext h') g h'" for g
    proof -
      from ok SliceAt have "\<forall>x \<in> set ?xs. ok h x" by (simp add: okSlice_def)
      from deep_copier.copy_all [OF assms(1) 1 this]
      have "\<forall>g. agree (hNext h) (hNext h1) g h1 \<longrightarrow> map (val g) ys = map (val h) ?xs" by blast
      moreover have "agree (hNext h) (hNext h1) g h1" using ag by (auto simp: agree_def h')
      ultimately have "map (val g) ys = map (val h) ?xs" by blast
      moreover have "hCells g (hNext h1) = Some (mk ys)"
        using ag frame by (auto simp: agree_def h')
      ultimately show ?thesis using SliceAt t by (simp add: valSlice_def elems_def window_def inv)
    qed
    ultimately show ?thesis by blast
  qed
  show ?thesis
  proof
    fix s h g assume "okSlice proj ok h s" "hNext h \<le> hNext g" "agree 0 (hNext h) g h"
    then show "okSlice proj ok g s"
      using deep_copier.ok_stays [OF assms(1)] by (auto simp: okSlice_def agree_def split: slice.splits)
  next
    fix s h g assume ok: "okSlice proj ok h s" and a: "agree 0 (hNext h) g h"
    show "valSlice proj val g s = valSlice proj val h s"
    proof (cases s)
      case (SliceAt b off n)
      with ok a have "hCells g b = hCells h b" by (simp add: okSlice_def agree_def)
      with ok SliceAt deep_copier.original [OF assms(1) _ a] show ?thesis
        by (simp add: valSlice_def elems_def okSlice_def)
    qed (simp add: valSlice_def elems_def)
  qed (use step in blast)+
qed

text \<open>A pointer: nil stays nil, otherwise a new cell.\<close>

definition copyPointer :: "('e \<Rightarrow> 'c) \<Rightarrow> ('c \<Rightarrow> 'e option) \<Rightarrow> ('e \<Rightarrow> 'e) \<Rightarrow> addr option \<Rightarrow> ('c heap, addr option) io"
where
  "copyPointer mk proj f a =
    (case a of
       None \<Rightarrow> State_Monad.return None
     | Some a \<Rightarrow> do {
         c \<leftarrow> readCell a;
         (case Option.bind c proj of
            None \<Rightarrow> State_Monad.return None
          | Some x \<Rightarrow> do { b \<leftarrow> alloc (mk (f x)); State_Monad.return (Some b) }) })"

definition valPointer :: "('c \<Rightarrow> 'e option) \<Rightarrow> 'c heap \<Rightarrow> addr option \<Rightarrow> 'e option" where
  "valPointer proj h a = Option.bind (Option.bind a (hCells h)) proj"

definition okPointer :: "'c heap \<Rightarrow> addr option \<Rightarrow> bool" where
  "okPointer h a = (case a of None \<Rightarrow> True | Some a \<Rightarrow> a < hNext h)"

lemma copier_pointer:
  assumes "\<And>x. proj (mk x) = Some x" and "\<And>x. f x = x"
  shows "deep_copier (copyPointer mk proj f) (valPointer proj) okPointer"
proof
  fix a h b h' assume run: "run_state (copyPointer mk proj f a) h = (b, h')"
  have "h' = h \<and> b = None \<and> valPointer proj h a = None \<or>
    (\<exists>x. valPointer proj h a = Some x \<and> b = Some (hNext h) \<and>
      h' = h\<lparr>hNext := Suc (hNext h), hCells := (hCells h)(hNext h \<mapsto> mk x)\<rparr>)"
    using run assms(2)
    by (auto simp: copyPointer_def readCell_def alloc_def valPointer_def split: option.splits)
  then show "hNext h \<le> hNext h'" and "agree 0 (hNext h) h' h"
    and "\<And>g. okPointer h a \<Longrightarrow> agree (hNext h) (hNext h') g h' \<Longrightarrow> valPointer proj g b = valPointer proj h a"
    by (auto simp: agree_def valPointer_def assms(1))
qed (auto simp: okPointer_def valPointer_def agree_def split: option.splits)

text \<open>\<^verbatim>\<open>DeepCopy\<close>: a nil receiver gives nil, any other a new object.\<close>

definition copyPtr :: "('p \<Rightarrow> ('c heap, 'p) io) \<Rightarrow> 'p option \<Rightarrow> ('c heap, 'p option) io" where
  "copyPtr cp x =
    (case x of
       None \<Rightarrow> State_Monad.return None
     | Some p \<Rightarrow> do { q \<leftarrow> cp p; State_Monad.return (Some q) })"

lemma copier_ptr:
  assumes "deep_copier cp val ok"
  shows "deep_copier (copyPtr cp) (\<lambda>h. map_option (val h)) (\<lambda>h. pred_option (ok h))"
proof -
  have run: "x = None \<and> y = None \<and> h' = h \<or>
      (\<exists>p q. x = Some p \<and> y = Some q \<and> run_state (cp p) h = (q, h'))"
    if "run_state (copyPtr cp x) h = (y, h')" for x h y h'
    using that by (auto simp: copyPtr_def split: prod.splits option.splits)
  show ?thesis
  proof
    fix x h y h' assume "run_state (copyPtr cp x) h = (y, h')"
    note r = run [OF this]
    show "hNext h \<le> hNext h'" using r deep_copier.grows [OF assms] by auto
    show "agree 0 (hNext h) h' h" using r deep_copier.below [OF assms] by auto
    fix g assume "pred_option (ok h) x" "agree (hNext h) (hNext h') g h'"
    with r deep_copier.copied [OF assms] show "map_option (val g) y = map_option (val h) x" by auto
  next
    fix h g x assume "pred_option (ok h) x" "hNext h \<le> hNext g" "agree 0 (hNext h) g h"
    with deep_copier.ok_stays [OF assms] show "pred_option (ok g) x" by (cases x) auto
  next
    fix h g x assume ok: "pred_option (ok h) x" and a: "agree 0 (hNext h) g h"
    show "map_option (val g) x = map_option (val h) x"
    proof (cases x)
      case (Some p)
      with ok have "ok h p" by simp
      from deep_copier.original [OF assms this a] Some show ?thesis by simp
    qed simp
  qed
qed

end
