(* ===== verification/DeepCopy.thy ===== *)
theory DeepCopy
  imports Store Api
begin

text \<open>
  \<^verbatim>\<open>api/v1alpha1/zz_generated.deepcopy.go\<close>: the deep copies the Kubernetes client and its cache
  rely on, over an explicit store in which slices and pointers are shared until copied. The
  structs are those of \<open>Api\<close> with their slices and pointers as addresses. Shown: every copy
  reads as its original, and nothing written through one is seen through the other.
\<close>

section \<open>Structs with shared parts\<close>

record pActions =
  paOnWarning :: slice
  paOnExceeded :: slice
  paOnHardLimit :: slice

record pExclusion =
  pxName :: string
  pxLabelSelector :: "addr option"

record pSpec =
  psMonthly :: Usage
  psIdleThreshold :: IdleThreshold
  psActions :: pActions
  psExclusions :: slice

record pStatus =
  ptPhase :: string
  ptCurrentUsage :: Usage
  ptAccumulated :: AccumulatedUsage
  ptLastReconcile :: gotime
  ptBudgetPercent :: "64 word"
  ptIdleWorkloads :: slice
  ptLastReportRef :: string
  ptConditions :: slice

text \<open>\<open>'m\<close> and \<open>'l\<close> are the metadata of objects and of lists, \<open>'sel\<close> label selectors.\<close>

record 'm pBudget =
  pbTypeMeta :: "string \<times> string"
  pbObjectMeta :: 'm
  pbSpec :: pSpec
  pbStatus :: pStatus

record pReportStatus =
  pqPeriod :: string
  pqNameSpace :: string
  pqTotalCost :: TotalCost
  pqTopConsumers :: slice
  pqIdleEvents :: slice
  pqSuspendedEvents :: slice
  pqConditions :: slice

record 'm pReport =
  pcTypeMeta :: "string \<times> string"
  pcObjectMeta :: 'm
  pcSpec :: unit
  pcStatus :: pReportStatus

text \<open>The two list types have the same shape.\<close>

record 'l pList =
  plTypeMeta :: "string \<times> string"
  plListMeta :: 'l
  plItems :: slice

section \<open>Cells\<close>

datatype ('m, 'sel) cell =
  CActions "Action list" | CExclusions "pExclusion list" | CSelector 'sel
  | CIdle "IdleWorkloadStatus list" | CConditions "Condition list" | CTop "TopConsumer list"
  | CIdleEvents "IdleEvent list" | CSuspensions "SuspensionEvent list"
  | CBudgets "'m pBudget list" | CReports "'m pReport list"

definition unActions :: "('m, 'sel) cell \<Rightarrow> Action list" where
  "unActions c = (case c of CActions xs \<Rightarrow> xs | _ \<Rightarrow> [])"

definition unExclusions :: "('m, 'sel) cell \<Rightarrow> pExclusion list" where
  "unExclusions c = (case c of CExclusions xs \<Rightarrow> xs | _ \<Rightarrow> [])"

definition unIdle :: "('m, 'sel) cell \<Rightarrow> IdleWorkloadStatus list" where
  "unIdle c = (case c of CIdle xs \<Rightarrow> xs | _ \<Rightarrow> [])"

definition unConditions :: "('m, 'sel) cell \<Rightarrow> Condition list" where
  "unConditions c = (case c of CConditions xs \<Rightarrow> xs | _ \<Rightarrow> [])"

definition unTop :: "('m, 'sel) cell \<Rightarrow> TopConsumer list" where
  "unTop c = (case c of CTop xs \<Rightarrow> xs | _ \<Rightarrow> [])"

definition unIdleEvents :: "('m, 'sel) cell \<Rightarrow> IdleEvent list" where
  "unIdleEvents c = (case c of CIdleEvents xs \<Rightarrow> xs | _ \<Rightarrow> [])"

definition unSuspensions :: "('m, 'sel) cell \<Rightarrow> SuspensionEvent list" where
  "unSuspensions c = (case c of CSuspensions xs \<Rightarrow> xs | _ \<Rightarrow> [])"

definition unBudgets :: "('m, 'sel) cell \<Rightarrow> 'm pBudget list" where
  "unBudgets c = (case c of CBudgets xs \<Rightarrow> xs | _ \<Rightarrow> [])"

definition unReports :: "('m, 'sel) cell \<Rightarrow> 'm pReport list" where
  "unReports c = (case c of CReports xs \<Rightarrow> xs | _ \<Rightarrow> [])"

definition unSelector :: "('m, 'sel) cell \<Rightarrow> 'sel option" where
  "unSelector c = (case c of CSelector s \<Rightarrow> Some s | _ \<Rightarrow> None)"

lemma un_simps [simp]:
  "unActions (CActions xs0) = xs0" "unExclusions (CExclusions xs1) = xs1" "unIdle (CIdle xs2) = xs2"
  "unConditions (CConditions xs3) = xs3" "unTop (CTop xs4) = xs4" "unIdleEvents (CIdleEvents xs5) = xs5"
  "unSuspensions (CSuspensions xs6) = xs6" "unBudgets (CBudgets xs7) = xs7" "unReports (CReports xs8) = xs8"
 
  "unSelector (CSelector s) = Some s"
  by (simp_all add: unActions_def unExclusions_def unIdle_def unConditions_def unTop_def unIdleEvents_def unSuspensions_def unBudgets_def unReports_def unSelector_def)

section \<open>The imported copies\<close>

text \<open>
  \<^verbatim>\<open>DeepCopyInto\<close> of the types of \<^verbatim>\<open>k8s.io/apimachinery\<close>; each is documented to give an equal
  value that shares nothing.
\<close>

record ('m, 'l, 'sel) ext =
  xObjectMeta :: "'m \<Rightarrow> 'm"
  xListMeta :: "'l \<Rightarrow> 'l"
  xLabelSelector :: "'sel \<Rightarrow> 'sel"
  xCondition :: "Condition \<Rightarrow> Condition"
  xTime :: "gotime \<Rightarrow> gotime"

definition copiesEqual :: "('m, 'l, 'sel) ext \<Rightarrow> bool" where
  "copiesEqual X \<longleftrightarrow> (\<forall>m. xObjectMeta X m = m) \<and> (\<forall>l. xListMeta X l = l) \<and>
     (\<forall>s. xLabelSelector X s = s) \<and> (\<forall>c. xCondition X c = c) \<and> (\<forall>t. xTime X t = t)"

section \<open>The copies\<close>

text \<open>\<^verbatim>\<open>*out = *in\<close> where the struct holds plain values only.\<close>

definition DeepCopyInto_AccumulatedUsage :: "AccumulatedUsage \<Rightarrow> ('c heap, AccumulatedUsage) io" where
  "DeepCopyInto_AccumulatedUsage = copyValue id"

definition DeepCopyInto_Action :: "Action \<Rightarrow> ('c heap, Action) io" where
  "DeepCopyInto_Action = copyValue id"

definition DeepCopyInto_IdleEvent :: "IdleEvent \<Rightarrow> ('c heap, IdleEvent) io" where
  "DeepCopyInto_IdleEvent = copyValue id"

definition DeepCopyInto_IdleThreshold :: "IdleThreshold \<Rightarrow> ('c heap, IdleThreshold) io" where
  "DeepCopyInto_IdleThreshold = copyValue id"

definition DeepCopyInto_SuspensionEvent :: "SuspensionEvent \<Rightarrow> ('c heap, SuspensionEvent) io" where
  "DeepCopyInto_SuspensionEvent = copyValue id"

definition DeepCopyInto_TopConsumer :: "TopConsumer \<Rightarrow> ('c heap, TopConsumer) io" where
  "DeepCopyInto_TopConsumer = copyValue id"

definition DeepCopyInto_TotalCost :: "TotalCost \<Rightarrow> ('c heap, TotalCost) io" where
  "DeepCopyInto_TotalCost = copyValue id"

definition DeepCopyInto_Usage :: "Usage \<Rightarrow> ('c heap, Usage) io" where
  "DeepCopyInto_Usage = copyValue id"

definition DeepCopyInto_CostReportSpec :: "unit \<Rightarrow> ('c heap, unit) io" where
  "DeepCopyInto_CostReportSpec = copyValue id"

text \<open>The fields that are copied deeply, in the order of the code.\<close>

definition DeepCopyInto_IdleWorkload ::
  "('m, 'l, 'sel) ext \<Rightarrow> IdleWorkloadStatus \<Rightarrow> ('c heap, IdleWorkloadStatus) io" where
  "DeepCopyInto_IdleWorkload X = copyFields iwIdleSince (\<lambda>i t. i\<lparr>iwIdleSince := t\<rparr>) (copyValue (xTime X))"

definition DeepCopyInto_Actions :: "pActions \<Rightarrow> (('m, 'sel) cell heap, pActions) io" where
  "DeepCopyInto_Actions =
     copyFields (\<lambda>a. (paOnWarning a, paOnExceeded a, paOnHardLimit a))
       (\<lambda>a (w, e, h). a\<lparr>paOnWarning := w, paOnExceeded := e, paOnHardLimit := h\<rparr>)
       (copyPair (copySlice CActions unActions DeepCopyInto_Action)
       (copyPair (copySlice CActions unActions DeepCopyInto_Action)
                 (copySlice CActions unActions DeepCopyInto_Action)))"

definition DeepCopyInto_Exclusion ::
  "('m, 'l, 'sel) ext \<Rightarrow> pExclusion \<Rightarrow> (('m, 'sel) cell heap, pExclusion) io" where
  "DeepCopyInto_Exclusion X = copyFields pxLabelSelector (\<lambda>e s. e\<lparr>pxLabelSelector := s\<rparr>)
     (copyPointer CSelector unSelector (xLabelSelector X))"

definition DeepCopyInto_NamespaceBudgetSpec ::
  "('m, 'l, 'sel) ext \<Rightarrow> pSpec \<Rightarrow> (('m, 'sel) cell heap, pSpec) io" where
  "DeepCopyInto_NamespaceBudgetSpec X =
     copyFields (\<lambda>s. (psActions s, psExclusions s)) (\<lambda>s (a, e). s\<lparr>psActions := a, psExclusions := e\<rparr>)
       (copyPair DeepCopyInto_Actions
                 (copySlice CExclusions unExclusions (DeepCopyInto_Exclusion X)))"

definition DeepCopyInto_NamespaceBudgetStatus ::
  "('m, 'l, 'sel) ext \<Rightarrow> pStatus \<Rightarrow> (('m, 'sel) cell heap, pStatus) io" where
  "DeepCopyInto_NamespaceBudgetStatus X =
     copyFields (\<lambda>s. (ptLastReconcile s, ptIdleWorkloads s, ptConditions s))
       (\<lambda>s (t, i, c). s\<lparr>ptLastReconcile := t, ptIdleWorkloads := i, ptConditions := c\<rparr>)
       (copyPair (copyValue (xTime X))
       (copyPair (copySlice CIdle unIdle (DeepCopyInto_IdleWorkload X))
                 (copySlice CConditions unConditions (copyValue (xCondition X)))))"

definition DeepCopyInto_NamespaceBudget ::
  "('m, 'l, 'sel) ext \<Rightarrow> 'm pBudget \<Rightarrow> (('m, 'sel) cell heap, 'm pBudget) io" where
  "DeepCopyInto_NamespaceBudget X =
     copyFields (\<lambda>b. (pbObjectMeta b, pbSpec b, pbStatus b))
       (\<lambda>b (m, s, t). b\<lparr>pbObjectMeta := m, pbSpec := s, pbStatus := t\<rparr>)
       (copyPair (copyValue (xObjectMeta X))
       (copyPair (DeepCopyInto_NamespaceBudgetSpec X) (DeepCopyInto_NamespaceBudgetStatus X)))"

definition DeepCopyInto_NamespaceBudgetList ::
  "('m, 'l, 'sel) ext \<Rightarrow> 'l pList \<Rightarrow> (('m, 'sel) cell heap, 'l pList) io" where
  "DeepCopyInto_NamespaceBudgetList X =
     copyFields (\<lambda>l. (plListMeta l, plItems l)) (\<lambda>l (m, i). l\<lparr>plListMeta := m, plItems := i\<rparr>)
       (copyPair (copyValue (xListMeta X))
                 (copySlice CBudgets unBudgets (DeepCopyInto_NamespaceBudget X)))"

definition DeepCopyInto_CostReportStatus ::
  "('m, 'l, 'sel) ext \<Rightarrow> pReportStatus \<Rightarrow> (('m, 'sel) cell heap, pReportStatus) io" where
  "DeepCopyInto_CostReportStatus X =
     copyFields (\<lambda>s. (pqTopConsumers s, pqIdleEvents s, pqSuspendedEvents s, pqConditions s))
       (\<lambda>s (t, i, e, c). s\<lparr>pqTopConsumers := t, pqIdleEvents := i, pqSuspendedEvents := e, pqConditions := c\<rparr>)
       (copyPair (copySlice CTop unTop DeepCopyInto_TopConsumer)
       (copyPair (copySlice CIdleEvents unIdleEvents DeepCopyInto_IdleEvent)
       (copyPair (copySlice CSuspensions unSuspensions DeepCopyInto_SuspensionEvent)
                 (copySlice CConditions unConditions (copyValue (xCondition X))))))"

definition DeepCopyInto_CostReport ::
  "('m, 'l, 'sel) ext \<Rightarrow> 'm pReport \<Rightarrow> (('m, 'sel) cell heap, 'm pReport) io" where
  "DeepCopyInto_CostReport X =
     copyFields (\<lambda>r. (pcObjectMeta r, pcStatus r)) (\<lambda>r (m, s). r\<lparr>pcObjectMeta := m, pcStatus := s\<rparr>)
       (copyPair (copyValue (xObjectMeta X)) (DeepCopyInto_CostReportStatus X))"

definition DeepCopyInto_CostReportList ::
  "('m, 'l, 'sel) ext \<Rightarrow> 'l pList \<Rightarrow> (('m, 'sel) cell heap, 'l pList) io" where
  "DeepCopyInto_CostReportList X =
     copyFields (\<lambda>l. (plListMeta l, plItems l)) (\<lambda>l (m, i). l\<lparr>plListMeta := m, plItems := i\<rparr>)
       (copyPair (copyValue (xListMeta X))
                 (copySlice CReports unReports (DeepCopyInto_CostReport X)))"

section \<open>DeepCopy and DeepCopyObject\<close>

text \<open>A nil receiver gives nil; \<^verbatim>\<open>DeepCopyObject\<close> is the same behind an interface.\<close>

definition DeepCopy_AccumulatedUsage :: "AccumulatedUsage option \<Rightarrow> ('c heap, AccumulatedUsage option) io" where
  "DeepCopy_AccumulatedUsage = copyPtr DeepCopyInto_AccumulatedUsage"

definition DeepCopy_Action :: "Action option \<Rightarrow> ('c heap, Action option) io" where
  "DeepCopy_Action = copyPtr DeepCopyInto_Action"

definition DeepCopy_IdleEvent :: "IdleEvent option \<Rightarrow> ('c heap, IdleEvent option) io" where
  "DeepCopy_IdleEvent = copyPtr DeepCopyInto_IdleEvent"

definition DeepCopy_IdleThreshold :: "IdleThreshold option \<Rightarrow> ('c heap, IdleThreshold option) io" where
  "DeepCopy_IdleThreshold = copyPtr DeepCopyInto_IdleThreshold"

definition DeepCopy_SuspensionEvent :: "SuspensionEvent option \<Rightarrow> ('c heap, SuspensionEvent option) io" where
  "DeepCopy_SuspensionEvent = copyPtr DeepCopyInto_SuspensionEvent"

definition DeepCopy_TopConsumer :: "TopConsumer option \<Rightarrow> ('c heap, TopConsumer option) io" where
  "DeepCopy_TopConsumer = copyPtr DeepCopyInto_TopConsumer"

definition DeepCopy_TotalCost :: "TotalCost option \<Rightarrow> ('c heap, TotalCost option) io" where
  "DeepCopy_TotalCost = copyPtr DeepCopyInto_TotalCost"

definition DeepCopy_Usage :: "Usage option \<Rightarrow> ('c heap, Usage option) io" where
  "DeepCopy_Usage = copyPtr DeepCopyInto_Usage"

definition DeepCopy_CostReportSpec :: "unit option \<Rightarrow> ('c heap, unit option) io" where
  "DeepCopy_CostReportSpec = copyPtr DeepCopyInto_CostReportSpec"

definition DeepCopy_Actions :: "pActions option \<Rightarrow> (('m, 'sel) cell heap, pActions option) io" where
  "DeepCopy_Actions = copyPtr DeepCopyInto_Actions"

definition DeepCopy_IdleWorkload ::
  "('m, 'l, 'sel) ext \<Rightarrow> IdleWorkloadStatus option \<Rightarrow> ('c heap, IdleWorkloadStatus option) io" where
  "DeepCopy_IdleWorkload X = copyPtr (DeepCopyInto_IdleWorkload X)"

definition DeepCopy_Exclusion ::
  "('m, 'l, 'sel) ext \<Rightarrow> pExclusion option \<Rightarrow> (('m, 'sel) cell heap, pExclusion option) io" where
  "DeepCopy_Exclusion X = copyPtr (DeepCopyInto_Exclusion X)"

definition DeepCopy_NamespaceBudgetSpec ::
  "('m, 'l, 'sel) ext \<Rightarrow> pSpec option \<Rightarrow> (('m, 'sel) cell heap, pSpec option) io" where
  "DeepCopy_NamespaceBudgetSpec X = copyPtr (DeepCopyInto_NamespaceBudgetSpec X)"

definition DeepCopy_NamespaceBudgetStatus ::
  "('m, 'l, 'sel) ext \<Rightarrow> pStatus option \<Rightarrow> (('m, 'sel) cell heap, pStatus option) io" where
  "DeepCopy_NamespaceBudgetStatus X = copyPtr (DeepCopyInto_NamespaceBudgetStatus X)"

definition DeepCopy_NamespaceBudget ::
  "('m, 'l, 'sel) ext \<Rightarrow> 'm pBudget option \<Rightarrow> (('m, 'sel) cell heap, 'm pBudget option) io" where
  "DeepCopy_NamespaceBudget X = copyPtr (DeepCopyInto_NamespaceBudget X)"

definition DeepCopy_NamespaceBudgetList ::
  "('m, 'l, 'sel) ext \<Rightarrow> 'l pList option \<Rightarrow> (('m, 'sel) cell heap, 'l pList option) io" where
  "DeepCopy_NamespaceBudgetList X = copyPtr (DeepCopyInto_NamespaceBudgetList X)"

definition DeepCopy_CostReportStatus ::
  "('m, 'l, 'sel) ext \<Rightarrow> pReportStatus option \<Rightarrow> (('m, 'sel) cell heap, pReportStatus option) io" where
  "DeepCopy_CostReportStatus X = copyPtr (DeepCopyInto_CostReportStatus X)"

definition DeepCopy_CostReport ::
  "('m, 'l, 'sel) ext \<Rightarrow> 'm pReport option \<Rightarrow> (('m, 'sel) cell heap, 'm pReport option) io" where
  "DeepCopy_CostReport X = copyPtr (DeepCopyInto_CostReport X)"

definition DeepCopy_CostReportList ::
  "('m, 'l, 'sel) ext \<Rightarrow> 'l pList option \<Rightarrow> (('m, 'sel) cell heap, 'l pList option) io" where
  "DeepCopy_CostReportList X = copyPtr (DeepCopyInto_CostReportList X)"

definition DeepCopyObject_NamespaceBudget ::
  "('m, 'l, 'sel) ext \<Rightarrow> 'm pBudget option \<Rightarrow> (('m, 'sel) cell heap, 'm pBudget option) io" where
  "DeepCopyObject_NamespaceBudget X x = do {
     c \<leftarrow> DeepCopy_NamespaceBudget X x;
     State_Monad.return (case c of Some o' \<Rightarrow> Some o' | None \<Rightarrow> None) }"

definition DeepCopyObject_NamespaceBudgetList ::
  "('m, 'l, 'sel) ext \<Rightarrow> 'l pList option \<Rightarrow> (('m, 'sel) cell heap, 'l pList option) io" where
  "DeepCopyObject_NamespaceBudgetList X x = do {
     c \<leftarrow> DeepCopy_NamespaceBudgetList X x;
     State_Monad.return (case c of Some o' \<Rightarrow> Some o' | None \<Rightarrow> None) }"

definition DeepCopyObject_CostReport ::
  "('m, 'l, 'sel) ext \<Rightarrow> 'm pReport option \<Rightarrow> (('m, 'sel) cell heap, 'm pReport option) io" where
  "DeepCopyObject_CostReport X x = do {
     c \<leftarrow> DeepCopy_CostReport X x;
     State_Monad.return (case c of Some o' \<Rightarrow> Some o' | None \<Rightarrow> None) }"

definition DeepCopyObject_CostReportList ::
  "('m, 'l, 'sel) ext \<Rightarrow> 'l pList option \<Rightarrow> (('m, 'sel) cell heap, 'l pList option) io" where
  "DeepCopyObject_CostReportList X x = do {
     c \<leftarrow> DeepCopy_CostReportList X x;
     State_Monad.return (case c of Some o' \<Rightarrow> Some o' | None \<Rightarrow> None) }"

section \<open>What a reader sees\<close>

text \<open>
  Everything reachable from a struct: its own fields, and through its slices and pointers
  the elements, nil kept apart from empty; and that all of it is allocated.
\<close>

definition valActions :: "('m, 'sel) cell heap \<Rightarrow> pActions \<Rightarrow>
    unit \<times> Action list option \<times> Action list option \<times> Action list option" where
  "valActions = (\<lambda>h a. ((), valSlice unActions (\<lambda>h x. x) h (paOnWarning a),
     valSlice unActions (\<lambda>h x. x) h (paOnExceeded a), valSlice unActions (\<lambda>h x. x) h (paOnHardLimit a)))"

definition okActions :: "('m, 'sel) cell heap \<Rightarrow> pActions \<Rightarrow> bool" where
  "okActions = (\<lambda>h a. okSlice unActions (\<lambda>h x. True) h (paOnWarning a) \<and>
     okSlice unActions (\<lambda>h x. True) h (paOnExceeded a) \<and> okSlice unActions (\<lambda>h x. True) h (paOnHardLimit a))"

definition valExclusion :: "('m, 'sel) cell heap \<Rightarrow> pExclusion \<Rightarrow> string \<times> 'sel option" where
  "valExclusion = (\<lambda>h e. (pxName e, valPointer unSelector h (pxLabelSelector e)))"

definition okExclusion :: "('m, 'sel) cell heap \<Rightarrow> pExclusion \<Rightarrow> bool" where
  "okExclusion = (\<lambda>h e. okPointer h (pxLabelSelector e))"

definition valSpec where
  "valSpec = (\<lambda>h s. ((psMonthly s, psIdleThreshold s), valActions h (psActions s),
     valSlice unExclusions valExclusion h (psExclusions s)))"

definition okSpec :: "('m, 'sel) cell heap \<Rightarrow> pSpec \<Rightarrow> bool" where
  "okSpec = (\<lambda>h s. okActions h (psActions s) \<and> okSlice unExclusions okExclusion h (psExclusions s))"

definition valIdle :: "'c heap \<Rightarrow> IdleWorkloadStatus \<Rightarrow> (string \<times> string) \<times> gotime" where
  "valIdle = (\<lambda>h i. ((iwName i, iwNamespace i), iwIdleSince i))"

definition valStatus where
  "valStatus = (\<lambda>h s. ((ptPhase s, ptCurrentUsage s, ptAccumulated s, ptBudgetPercent s, ptLastReportRef s),
     ptLastReconcile s, valSlice unIdle valIdle h (ptIdleWorkloads s),
     valSlice unConditions (\<lambda>h x. x) h (ptConditions s)))"

definition okStatus :: "('m, 'sel) cell heap \<Rightarrow> pStatus \<Rightarrow> bool" where
  "okStatus = (\<lambda>h s. okSlice unIdle (\<lambda>h x. True) h (ptIdleWorkloads s) \<and>
     okSlice unConditions (\<lambda>h x. True) h (ptConditions s))"

definition valBudget where
  "valBudget = (\<lambda>h b. (pbTypeMeta b, pbObjectMeta b, valSpec h (pbSpec b), valStatus h (pbStatus b)))"

definition okBudget :: "('m, 'sel) cell heap \<Rightarrow> 'm pBudget \<Rightarrow> bool" where
  "okBudget = (\<lambda>h b. okSpec h (pbSpec b) \<and> okStatus h (pbStatus b))"

definition valBudgetList where
  "valBudgetList = (\<lambda>h l. (plTypeMeta l, plListMeta l, valSlice unBudgets valBudget h (plItems l)))"

definition okBudgetList :: "('m, 'sel) cell heap \<Rightarrow> 'l pList \<Rightarrow> bool" where
  "okBudgetList = (\<lambda>h l. okSlice unBudgets okBudget h (plItems l))"

definition valReportStatus where
  "valReportStatus = (\<lambda>h s. ((pqPeriod s, pqNameSpace s, pqTotalCost s),
     valSlice unTop (\<lambda>h x. x) h (pqTopConsumers s), valSlice unIdleEvents (\<lambda>h x. x) h (pqIdleEvents s),
     valSlice unSuspensions (\<lambda>h x. x) h (pqSuspendedEvents s),
     valSlice unConditions (\<lambda>h x. x) h (pqConditions s)))"

definition okReportStatus :: "('m, 'sel) cell heap \<Rightarrow> pReportStatus \<Rightarrow> bool" where
  "okReportStatus = (\<lambda>h s. okSlice unTop (\<lambda>h x. True) h (pqTopConsumers s) \<and>
     okSlice unIdleEvents (\<lambda>h x. True) h (pqIdleEvents s) \<and>
     okSlice unSuspensions (\<lambda>h x. True) h (pqSuspendedEvents s) \<and>
     okSlice unConditions (\<lambda>h x. True) h (pqConditions s))"

definition valReport where
  "valReport = (\<lambda>h r. ((pcTypeMeta r, pcSpec r), pcObjectMeta r, valReportStatus h (pcStatus r)))"

definition okReport :: "('m, 'sel) cell heap \<Rightarrow> 'm pReport \<Rightarrow> bool" where
  "okReport = (\<lambda>h r. okReportStatus h (pcStatus r))"

definition valReportList where
  "valReportList = (\<lambda>h l. (plTypeMeta l, plListMeta l, valSlice unReports valReport h (plItems l)))"

definition okReportList :: "('m, 'sel) cell heap \<Rightarrow> 'l pList \<Rightarrow> bool" where
  "okReportList = (\<lambda>h l. okSlice unReports okReport h (plItems l))"

section \<open>Every copy is a deep copy\<close>

lemmas copier_id = copier_value [of id, simplified]

lemma copier_Actions: "deep_copier DeepCopyInto_Actions valActions okActions"
proof -
  have s: "deep_copier (copySlice CActions unActions (copyValue id)) (valSlice unActions (\<lambda>h x. x))
      (okSlice unActions (\<lambda>h x. True))"
    by (rule copier_slice) (simp_all add: copier_id)
  show ?thesis
    unfolding DeepCopyInto_Actions_def DeepCopyInto_Action_def valActions_def okActions_def
    by (rule copier_fields [OF copier_pair [OF s copier_pair [OF s s]],
          where rest = "\<lambda>_. ()" and get = "\<lambda>a. (paOnWarning a, paOnExceeded a, paOnHardLimit a)"
            and put = "\<lambda>a (w, e, h). a\<lparr>paOnWarning := w, paOnExceeded := e, paOnHardLimit := h\<rparr>",
          unfolded fst_conv snd_conv])
       (auto split: prod.splits)
qed

interpretation actionsCopy: deep_copier DeepCopyInto_Actions valActions okActions
  by (rule copier_Actions)

text \<open>The rest rests on the imported copies.\<close>

lemma copiesEqualD:
  assumes "copiesEqual X"
  shows "xObjectMeta X m = m" and "xListMeta X l = l" and "xLabelSelector X s = s"
    and "xCondition X c = c" and "xTime X t = t"
  using assms by (simp_all add: copiesEqual_def)

lemma copier_Exclusion:
  assumes "copiesEqual X"
  shows "deep_copier (DeepCopyInto_Exclusion X) valExclusion okExclusion"
proof -
  have p: "deep_copier (copyPointer CSelector unSelector (xLabelSelector X)) (valPointer unSelector) okPointer"
    by (rule copier_pointer) (simp_all add: copiesEqualD [OF assms])
  show ?thesis
    unfolding DeepCopyInto_Exclusion_def valExclusion_def okExclusion_def
    by (rule copier_fields [OF p]) simp_all
qed

lemma copier_Spec:
  assumes "copiesEqual X"
  shows "deep_copier (DeepCopyInto_NamespaceBudgetSpec X) valSpec okSpec"
proof -
  have e: "deep_copier (copySlice CExclusions unExclusions (DeepCopyInto_Exclusion X))
      (valSlice unExclusions valExclusion) (okSlice unExclusions okExclusion)"
    by (rule copier_slice [OF copier_Exclusion [OF assms]]) simp
  show ?thesis
    unfolding DeepCopyInto_NamespaceBudgetSpec_def valSpec_def okSpec_def
    by (rule copier_fields [OF copier_pair [OF copier_Actions e],
          where rest = "\<lambda>s. (psMonthly s, psIdleThreshold s)" and get = "\<lambda>s. (psActions s, psExclusions s)"
            and put = "\<lambda>s (a, e). s\<lparr>psActions := a, psExclusions := e\<rparr>", unfolded fst_conv snd_conv])
       (auto split: prod.splits)
qed

lemma copier_IdleWorkload:
  assumes "copiesEqual X"
  shows "deep_copier (DeepCopyInto_IdleWorkload X) valIdle (\<lambda>h x. True)"
  unfolding DeepCopyInto_IdleWorkload_def valIdle_def
  by (rule copier_fields [OF copier_value, of "xTime X" iwIdleSince "\<lambda>i t. i\<lparr>iwIdleSince := t\<rparr>"
        "\<lambda>i. (iwName i, iwNamespace i)"])
     (simp_all add: copiesEqualD [OF assms])

lemma copier_Conditions:
  assumes "copiesEqual X"
  shows "deep_copier (copySlice CConditions unConditions (copyValue (xCondition X)))
    (valSlice unConditions (\<lambda>h x. x)) (okSlice unConditions (\<lambda>h x. True))"
  by (rule copier_slice [OF copier_value]) (simp_all add: copiesEqualD [OF assms])

lemma copier_Status:
  assumes "copiesEqual X"
  shows "deep_copier (DeepCopyInto_NamespaceBudgetStatus X) valStatus okStatus"
proof -
  have t: "deep_copier (copyValue (xTime X)) (\<lambda>h p. p) (\<lambda>h p. True)"
    by (rule copier_value) (simp add: copiesEqualD [OF assms])
  have i: "deep_copier (copySlice CIdle unIdle (DeepCopyInto_IdleWorkload X)) (valSlice unIdle valIdle)
      (okSlice unIdle (\<lambda>h x. True))"
    by (rule copier_slice [OF copier_IdleWorkload [OF assms]]) simp
  show ?thesis
    unfolding DeepCopyInto_NamespaceBudgetStatus_def valStatus_def okStatus_def
    by (rule copier_fields [OF copier_pair [OF t copier_pair [OF i copier_Conditions [OF assms]]],
          where rest = "\<lambda>s. (ptPhase s, ptCurrentUsage s, ptAccumulated s, ptBudgetPercent s, ptLastReportRef s)"
            and get = "\<lambda>s. (ptLastReconcile s, ptIdleWorkloads s, ptConditions s)"
            and put = "\<lambda>s (t, i, c). s\<lparr>ptLastReconcile := t, ptIdleWorkloads := i, ptConditions := c\<rparr>",
          unfolded fst_conv snd_conv simp_thms])
       (auto split: prod.splits)
qed

lemma copier_Budget:
  assumes "copiesEqual X"
  shows "deep_copier (DeepCopyInto_NamespaceBudget X) valBudget okBudget"
proof -
  have m: "deep_copier (copyValue (xObjectMeta X)) (\<lambda>h p. p) (\<lambda>h p. True)"
    by (rule copier_value) (simp add: copiesEqualD [OF assms])
  show ?thesis
    unfolding DeepCopyInto_NamespaceBudget_def valBudget_def okBudget_def
    by (rule copier_fields [OF copier_pair [OF m copier_pair [OF copier_Spec [OF assms] copier_Status [OF assms]]],
          where rest = pbTypeMeta and get = "\<lambda>b. (pbObjectMeta b, pbSpec b, pbStatus b)"
            and put = "\<lambda>b (m, s, t). b\<lparr>pbObjectMeta := m, pbSpec := s, pbStatus := t\<rparr>",
          unfolded fst_conv snd_conv simp_thms])
       (auto split: prod.splits)
qed

text \<open>A list of objects, of either kind.\<close>

lemma copier_List:
  assumes "copiesEqual X" and "deep_copier (copySlice mk un cp) val ok"
  shows "deep_copier (copyFields (\<lambda>l. (plListMeta l, plItems l)) (\<lambda>l (m, i). l\<lparr>plListMeta := m, plItems := i\<rparr>)
      (copyPair (copyValue (xListMeta X)) (copySlice mk un cp)))
    (\<lambda>h l. (plTypeMeta l, plListMeta l, val h (plItems l))) (\<lambda>h l. ok h (plItems l))"
proof -
  have m: "deep_copier (copyValue (xListMeta X)) (\<lambda>h p. p) (\<lambda>h p. True)"
    by (rule copier_value) (simp add: copiesEqualD [OF assms(1)])
  show ?thesis
    by (rule copier_fields [OF copier_pair [OF m assms(2)],
          where rest = plTypeMeta and get = "\<lambda>l. (plListMeta l, plItems l)"
            and put = "\<lambda>l (m, i). l\<lparr>plListMeta := m, plItems := i\<rparr>",
          unfolded fst_conv snd_conv simp_thms])
       (auto split: prod.splits)
qed

lemma copier_BudgetList:
  assumes "copiesEqual X"
  shows "deep_copier (DeepCopyInto_NamespaceBudgetList X) valBudgetList okBudgetList"
  unfolding DeepCopyInto_NamespaceBudgetList_def valBudgetList_def okBudgetList_def
  by (rule copier_List [OF assms copier_slice [OF copier_Budget [OF assms]]]) simp

lemma copier_ReportStatus:
  assumes "copiesEqual X"
  shows "deep_copier (DeepCopyInto_CostReportStatus X) valReportStatus okReportStatus"
proof -
  have s: "deep_copier (copySlice CTop unTop (copyValue id)) (valSlice unTop (\<lambda>h x. x)) (okSlice unTop (\<lambda>h x. True))"
    "deep_copier (copySlice CIdleEvents unIdleEvents (copyValue id)) (valSlice unIdleEvents (\<lambda>h x. x))
       (okSlice unIdleEvents (\<lambda>h x. True))"
    "deep_copier (copySlice CSuspensions unSuspensions (copyValue id)) (valSlice unSuspensions (\<lambda>h x. x))
       (okSlice unSuspensions (\<lambda>h x. True))"
    by (rule copier_slice; simp add: copier_id)+
  show ?thesis
    unfolding DeepCopyInto_CostReportStatus_def DeepCopyInto_TopConsumer_def DeepCopyInto_IdleEvent_def
      DeepCopyInto_SuspensionEvent_def valReportStatus_def okReportStatus_def
    by (rule copier_fields [OF copier_pair [OF s(1) copier_pair [OF s(2) copier_pair [OF s(3)
            copier_Conditions [OF assms]]]],
          where rest = "\<lambda>s. (pqPeriod s, pqNameSpace s, pqTotalCost s)"
            and get = "\<lambda>s. (pqTopConsumers s, pqIdleEvents s, pqSuspendedEvents s, pqConditions s)"
            and put = "\<lambda>s (t, i, e, c). s\<lparr>pqTopConsumers := t, pqIdleEvents := i, pqSuspendedEvents := e,
              pqConditions := c\<rparr>",
          unfolded fst_conv snd_conv])
       (auto split: prod.splits)
qed

lemma copier_Report:
  assumes "copiesEqual X"
  shows "deep_copier (DeepCopyInto_CostReport X) valReport okReport"
proof -
  have m: "deep_copier (copyValue (xObjectMeta X)) (\<lambda>h p. p) (\<lambda>h p. True)"
    by (rule copier_value) (simp add: copiesEqualD [OF assms])
  show ?thesis
    unfolding DeepCopyInto_CostReport_def valReport_def okReport_def
    by (rule copier_fields [OF copier_pair [OF m copier_ReportStatus [OF assms]],
          where rest = "\<lambda>r. (pcTypeMeta r, pcSpec r)" and get = "\<lambda>r. (pcObjectMeta r, pcStatus r)"
            and put = "\<lambda>r (m, s). r\<lparr>pcObjectMeta := m, pcStatus := s\<rparr>",
          unfolded fst_conv snd_conv simp_thms])
       (auto split: prod.splits)
qed

lemma copier_ReportList:
  assumes "copiesEqual X"
  shows "deep_copier (DeepCopyInto_CostReportList X) valReportList okReportList"
  unfolding DeepCopyInto_CostReportList_def valReportList_def okReportList_def
  by (rule copier_List [OF assms copier_slice [OF copier_Report [OF assms]]]) simp

lemma same_option: "(case c of Some x \<Rightarrow> Some x | None \<Rightarrow> None) = c"
  by (cases c) simp_all

lemma DeepCopyObject_lists:
  "DeepCopyObject_NamespaceBudgetList X = copyPtr (DeepCopyInto_NamespaceBudgetList X)"
  "DeepCopyObject_CostReportList X = copyPtr (DeepCopyInto_CostReportList X)"
  by (rule ext, rule state.expand, rule ext, simp add: same_option DeepCopyObject_NamespaceBudgetList_def
      DeepCopy_NamespaceBudgetList_def DeepCopyObject_CostReportList_def DeepCopy_CostReportList_def
      split: prod.split)+

text \<open>What the contract says of a copied pointer.\<close>

lemma copied_ptr:
  assumes "deep_copier cp val ok" and "run_state (copyPtr cp p) h = (q, h')" and "pred_option (ok h) p"
  shows "(\<forall>g. agree (hNext h) (hNext h') g h' \<longrightarrow> map_option (val g) q = map_option (val h) p) \<and>
    (\<forall>g. agree 0 (hNext h) g h' \<longrightarrow> map_option (val g) p = map_option (val h) p)"
proof -
  note c = copier_ptr [OF assms(1)]
  have "agree 0 (hNext h) g h" if "agree 0 (hNext h) g h'" for g
    using agree_trans [OF that deep_copier.below [OF c assms(2)]] .
  with deep_copier.copied [OF c assms(3,2)] deep_copier.original [OF c assms(3)] show ?thesis by blast
qed

section \<open>A store to copy in\<close>

text \<open>A list of one budget with one action, one exclusion with a selector, one condition.\<close>

definition idExt :: "('m, 'l, 'sel) ext" where
  "idExt = \<lparr>xObjectMeta = id, xListMeta = id, xLabelSelector = id, xCondition = id, xTime = id\<rparr>"

lemma copiesEqual_id: "copiesEqual idExt"
  by (simp add: copiesEqual_def idExt_def)

definition exHeap :: "(string, string) cell heap" where
  "exHeap = \<lparr>hNext = 5, hCells =
     [0 \<mapsto> CActions [\<lparr>aNotify = ''slack'', aScaleDownIdle = False, aSuspendAll = False\<rparr>],
      1 \<mapsto> CSelector ''app=api'', 2 \<mapsto> CExclusions [\<lparr>pxName = [], pxLabelSelector = Some 1\<rparr>],
      3 \<mapsto> CConditions [\<lparr>cType = ''UsageWarning'', cStatus = ''True'', cReason = [], cMessage = [],
         cLastTransitionTime = zeroTime\<rparr>],
      4 \<mapsto> CBudgets [\<lparr>pbTypeMeta = ([], []), pbObjectMeta = ''budget'',
         pbSpec = \<lparr>psMonthly = \<lparr>uCpu = ''100'', uMemory = []\<rparr>, psIdleThreshold = \<lparr>itCpuPercent = 1, itWindow = ''30m''\<rparr>,
           psActions = \<lparr>paOnWarning = SliceAt 0 0 1, paOnExceeded = NilSlice, paOnHardLimit = NilSlice\<rparr>,
           psExclusions = SliceAt 2 0 1\<rparr>,
         pbStatus = \<lparr>ptPhase = ''Warning'', ptCurrentUsage = \<lparr>uCpu = [], uMemory = []\<rparr>,
           ptAccumulated = \<lparr>acCoreHours = [], acGiBHours = [], acSince = []\<rparr>, ptLastReconcile = zeroTime,
           ptBudgetPercent = 80, ptIdleWorkloads = NilSlice, ptLastReportRef = [],
           ptConditions = SliceAt 3 0 1\<rparr>\<rparr>]]\<rparr>"

definition exList :: "string pList" where
  "exList = \<lparr>plTypeMeta = ([], []), plListMeta = [], plItems = SliceAt 4 0 1\<rparr>"

section \<open>Properties\<close>

text \<open>
  C38. The deep copy of a list of budgets (or of a nil one) reads as the list it was made
  from, down to the actions, exclusions, selectors and conditions of every item, and stays
  so in every store that keeps the cells it allocated; the original reads unchanged in every
  store that keeps the cells from before. So no write through one is seen through the other.
\<close>

theorem budget_list_copy:
  assumes "copiesEqual X" and "pred_option (okBudgetList h) p"
    and "run_state (DeepCopyObject_NamespaceBudgetList X p) h = (q, h')"
  shows "(\<forall>g. agree (hNext h) (hNext h') g h' \<longrightarrow>
      map_option (valBudgetList g) q = map_option (valBudgetList h) p) \<and>
    (\<forall>g. agree 0 (hNext h) g h' \<longrightarrow> map_option (valBudgetList g) p = map_option (valBudgetList h) p)"
  by (rule copied_ptr [OF copier_BudgetList [OF assms(1)] assms(3) [unfolded DeepCopyObject_lists] assms(2)])

theorem budget_list_copy_witness:
  "\<exists>q h'. run_state (DeepCopyObject_NamespaceBudgetList (idExt :: (string, string, string) ext) (Some exList)) exHeap
      = (q, h') \<and>
    map_option (valBudgetList h') q = Some (valBudgetList exHeap exList)"
proof -
  let ?c = "DeepCopyObject_NamespaceBudgetList (idExt :: (string, string, string) ext) (Some exList)"
  obtain q h' where run: "run_state ?c exHeap = (q, h')" by (cases "run_state ?c exHeap") auto
  have "pred_option (okBudgetList exHeap) (Some exList)"
    by (simp add: okBudgetList_def okBudget_def okSpec_def okStatus_def okActions_def okSlice_def okExclusion_def
        okPointer_def exHeap_def exList_def window_def)
  from budget_list_copy [OF copiesEqual_id this run]
  have "map_option (valBudgetList h') q = map_option (valBudgetList exHeap) (Some exList)"
    using agree_refl by blast
  with run show ?thesis by auto
qed

text \<open>
  The same for the deep copy of a list of cost reports, with the consumers, events and
  conditions of every report.
\<close>

lemma report_list_copy:
  assumes "copiesEqual X" and "pred_option (okReportList h) p"
    and "run_state (DeepCopyObject_CostReportList X p) h = (q, h')"
  shows "(\<forall>g. agree (hNext h) (hNext h') g h' \<longrightarrow>
      map_option (valReportList g) q = map_option (valReportList h) p) \<and>
    (\<forall>g. agree 0 (hNext h) g h' \<longrightarrow> map_option (valReportList g) p = map_option (valReportList h) p)"
  by (rule copied_ptr [OF copier_ReportList [OF assms(1)] assms(3) [unfolded DeepCopyObject_lists] assms(2)])

lemma report_list_copy_witness:
  "\<exists>q h'. run_state (DeepCopyObject_CostReportList (idExt :: (string, string, string) ext)
      (Some \<lparr>plTypeMeta = ([], []), plListMeta = [], plItems = NilSlice\<rparr>)) exHeap = (q, h') \<and> q \<noteq> None"
proof -
  let ?l = "\<lparr>plTypeMeta = ([], []), plListMeta = [], plItems = NilSlice\<rparr>"
  let ?c = "DeepCopyObject_CostReportList (idExt :: (string, string, string) ext) (Some ?l)"
  obtain q h' where run: "run_state ?c exHeap = (q, h')" by (cases "run_state ?c exHeap") auto
  have "pred_option (okReportList exHeap) (Some ?l)"
    by (simp add: okReportList_def okSlice_def)
  from report_list_copy [OF copiesEqual_id this run]
  have "map_option (valReportList h') q = map_option (valReportList exHeap) (Some ?l)"
    using agree_refl by blast
  with run show ?thesis by auto
qed

end
