(* ===== verification/Spec2Isabelle.thy ===== *)
theory Spec2Isabelle
  imports Guarantees StoredTypes Accuracy CommandLine Startup Lifecycle DeepCopy
begin

text \<open>
  A verification of namespace-cost-governor: a Kubernetes operator that meters what a
  namespace uses, compares it with a monthly budget, scales idle Deployments down when the
  budget is exceeded and every Deployment down when it is far exceeded, gives them back when
  the budget is deleted, and writes a cost report at the end of a month; and of its kubectl
  plugin.

  \<^bold>\<open>The parts and how they interact.\<close> \<^verbatim>\<open>cmd/main.go\<close> reads flags and prices and hands two
  reconcilers to a manager. The manager calls \<^verbatim>\<open>NamespaceBudgetReconciler.Reconcile\<close>
  (\<^verbatim>\<open>internal/controller\<close>) for a budget, one call at a time. A call reads the budget, rolls the month over
  (\<^verbatim>\<open>internal/report\<close>), serves a deletion (\<^verbatim>\<open>actions.Restore\<close> through \<^verbatim>\<open>cleanup\<close>), registers
  its finalizer, asks Prometheus for the usage (\<^verbatim>\<open>internal/metrics\<close>), finds idle Deployments
  (\<^verbatim>\<open>internal/idle\<close>), writes the status, enforces the phase (\<^verbatim>\<open>internal/actions\<close>) and notifies.
  The state lives in the cluster: in the status of the budget and, for a Deployment that is
  parked, in four annotations of it. The plugin (\<^verbatim>\<open>cmd/kubectl-budget\<close>) reads budgets and
  reports and restores Deployments by hand, from the same annotations.

  \<^bold>\<open>Effects.\<close> A function that reaches the cluster, Prometheus, Slack, the clock or the terminal is
  a state transformer (\<open>State_Monad\<close>) over an abstract world. What it calls there is an
  argument: the record \<open>env\<close> (API server, HTTP, JSON, label selectors, the order of a map
  range and of \<^verbatim>\<open>sort.Slice\<close>), \<open>plugin\<close> (client configuration, terminal), \<open>manager\<close>
  (controller-runtime) and \<open>ext\<close> (deep copies of Kubernetes types). What the code relies on is
  the assumptions of the locales \<open>deployment_api\<close>, \<open>reliable_api\<close> (an API server that is up, for statements on
  progress only), \<open>cluster\<close>, \<open>go_runtime\<close>, \<open>plugin_world\<close> and \<open>command_line\<close>. A call may fail
  at any point, a write that answers an error may still have been done, and
  \<^verbatim>\<open>retry.RetryOnConflict\<close> tries any number of times (\<open>retryN\<close>). \<open>MemCluster\<close> holds a world in
  memory with a script of faults, and every locale is interpreted on it. Errors are
  values (\<open>error + 'a\<close>, \<open>error option\<close>).

  \<^bold>\<open>Theories.\<close>
  \<^item> \<open>Prelude\<close>: effects, errors, frames (\<open>keeps\<close>), lemmas on lists and association lists.
  \<^item> \<open>GoFloat\<close>, \<open>GoStrings\<close>, \<open>GoTime\<close>: the parts of Go the code computes with. \<open>GoFloat\<close> is
    IEEE binary64 with rounding to nearest even, infinities and NaN; \<open>GoStrings\<close> the decimal
    printing and parsing of \<^verbatim>\<open>strconv\<close> and \<^verbatim>\<open>fmt\<close> on byte strings; \<open>GoTime\<close> instants, durations
    as \<open>64 word\<close>, the civil calendar and the RFC 3339 layout, with their round trips.
  \<^item> \<open>Api\<close>: the types of \<^verbatim>\<open>api/v1alpha1\<close>, the part of a Deployment the code reads, merge
    patches, \<open>env\<close> and the locales. \<open>MemCluster\<close>: their interpretations.
  \<^item> \<open>Metrics\<close>: \<^verbatim>\<open>internal/metrics\<close>. The decoding of a Prometheus answer is read against
    an abstract vector of samples.
  \<^item> \<open>Idle\<close>: \<^verbatim>\<open>internal/idle/detector.go\<close>. The reference definition \<open>idleSpec\<close> says which Deployments
    are idle: those that exist and whose mean usage over their pods, in the answer for the window, is
    below the threshold; the code is shown to find exactly these.
  \<^item> \<open>Actions\<close>: \<^verbatim>\<open>internal/actions\<close>. The locale \<open>workload_action\<close> is the contract of an
    operation on one Deployment; scaling down and restoring are two instances
    (\<open>sublocale\<close>). \<open>intended\<close> is the replica count the owner wants, and the invariant of the
    whole development is that it survives.
  \<^item> \<open>Report\<close>: \<^verbatim>\<open>internal/report/generator.go\<close>.
  \<^item> \<open>Controller\<close>: the definitions of \<^verbatim>\<open>namespacebudget_controller.go\<close>; \<open>Reconcile\<close> is cut along the
    numbered steps of its comments: \<open>rolloverMonth\<close>, \<open>handleDeletion\<close>, \<open>registerFinalizer\<close>,
    \<open>governTick\<close>, \<open>applyPhase\<close>. \<open>BudgetStatus\<close>: its pure parts, with the phases as
    an ordered type. \<open>Decimals\<close>: the totals of a status are texts that parse.
  \<^item> \<open>ReconcileSteps\<close>: the case rules of \<open>Reconcile\<close> and its steps (what ran, in which order, what
    the world was in between). \<open>Governance\<close>: from them, what a reconciliation does to
    Deployments, budgets, reports and messages.
    \<open>Guarantees\<close>: the properties of whole reconciliations (enforcement of the hard limit, exclusions, the
    stored status, deletion and its termination, messages, month ends), each run on a concrete cluster. \<open>StoredTypes\<close>: every status
    that is stored is well typed. \<open>Accuracy\<close>: the stored totals against the exact ones, rounding and the
    time charged included.
  \<^item> \<open>Tabwriter\<close>: \<^verbatim>\<open>text/tabwriter\<close> as the plugin uses it. \<open>Plugin\<close>: the commands of
    \<^verbatim>\<open>cmd/kubectl-budget\<close>. \<open>CommandLine\<close>: its \<^verbatim>\<open>main.go\<close>. \<open>Registration\<close>: the API group, its types and
    the set-up of the two controllers. \<open>Startup\<close>: \<^verbatim>\<open>cmd/main.go\<close> and the reconciler of reports.
  \<^item> \<open>Lifecycle\<close>: an abstract machine of who holds a Deployment (\<open>custody\<close>,
    \<open>handover\<close>), which reconciliations refine, and histories (\<open>evolves\<close>): sequences of whole
    reconciliations, commands of the plugin and edits of the owners of the Deployments.
  \<^item> \<open>Store\<close>, \<open>DeepCopy\<close>: \<^verbatim>\<open>zz_generated.deepcopy.go\<close> over an explicit heap of addresses, slices and
    pointers; the locale \<open>deep_copier\<close> is the contract of a copy (equal value, fresh cells,
    nothing written), and each generated function is composed from copiers.

  \<^bold>\<open>Loops and bounds.\<close> Every loop of the code is a structural recursion over the list it
  ranges over; \<open>trimLeft\<close> (\<^verbatim>\<open>strings.TrimSpace\<close>) and \<open>RuneCount\<close> shorten their argument, \<open>layout\<close> (the
  columns of a tabwriter) the cells left to lay out; \<open>retryN n\<close> tries \<open>n\<close> times,
  and nothing that is proved depends on \<open>n\<close>. \<open>durGroups\<close> (\<^verbatim>\<open>time.ParseDuration\<close>) counts down the length of
  its input, of which each round reads at least one character. There is no other fuel. Replica counts are \<open>32 word\<close>,
  durations and the budget percentage \<open>64 word\<close>, read as signed; a conversion of a float to
  an integer whose result Go leaves to the implementation is \<open>eFloatToInt\<close>.

  \<^bold>\<open>Limits of the model.\<close> A read answers what is stored when it is made (\<open>deployment_api\<close>); the client
  of the manager may read from a cache that lags behind. Nobody else writes between the calls of one
  operation, so the race of a scale-down with an owner who changes replicas in between, which
  \<^verbatim>\<open>docs/design.md\<close> admits, is outside. Product and sum in \<open>accumulate\<close> and \<open>estimateUSD\<close> are rounded
  separately; Go may fuse them on some architectures. \<open>parseRFC3339\<close> is the strict grammar. In
  \<open>DeepCopy\<close> the metadata of Kubernetes (\<^verbatim>\<open>ObjectMeta\<close>) is a value whose copy is a parameter.

  \<^bold>\<open>Not modelled.\<close> Log lines. What a scheme and a controller builder do with what is registered
  (\<open>Registration\<close> has the values handed to them): which events lead to a reconciliation is the
  manager's business. The
  parsing of the command lines by \<^verbatim>\<open>flag\<close> and \<^verbatim>\<open>cobra\<close> (\<open>main\<close> takes the parsed flags, \<open>pluginMain\<close> the
  function that runs a command). The 30 second timeout of the plugin's context, which can only turn a call
  into an error. The escape byte of \<^verbatim>\<open>text/tabwriter\<close>, which occurs in no UTF-8 text. The error of
  \<^verbatim>\<open>json.Marshal\<close> for a Slack message, a struct of strings, which it always encodes.
\<close>

end
